(* ===== verification/Prelude.thy ===== *)
theory Prelude
  imports Complex_Main "HOL-Library.AList" "HOL-Library.Char_ord" "HOL-Library.List_Lexorder"
    "HOL-Library.Product_Lexorder" "HOL-Library.Multiset"
begin

text \<open>
  What the component theories share: the names of the model's basic types, Python dictionaries as
  insertion-ordered association lists, the sum type of a call that may raise, and the lemma
  collections that the component proofs pass to the simplifier.

  Conventions of the whole development:
    \<^item> An object that the program shares by reference lives in an object table indexed by
      \<open>addr\<close>; a dictionary of objects maps keys to addresses, so aliasing is visible.
    \<^item> \<open>time()\<close> is an input: an operation takes a \<open>clock\<close>, the readings that its successive
      calls of \<open>time()\<close> return, in call order.  Nothing assumes that the clock is monotone
      unless a lemma says so.
    \<^item> A Python \<open>float\<close> that holds a time or a ratio is a \<open>real\<close>; rounding, infinities and NaN
      are not represented.
    \<^item> A call that may raise returns \<open>Inl\<close> of the exception or \<open>Inr\<close> of the result, next to
      the state it leaves behind, because Python keeps the mutations made before a \<open>raise\<close>.
\<close>

type_synonym addr = nat
type_synonym seconds = real
type_synonym clock = "nat \<Rightarrow> seconds"
type_synonym ('k, 'v) dict = "('k \<times> 'v) list"

named_theorems frame_simps \<open>fields an operation leaves unchanged\<close>
named_theorems keeps_inv \<open>preservation of the components' invariants\<close>

text \<open>Later readings of the same clock, for a call made after \<open>n\<close> readings.\<close>

definition later :: "nat \<Rightarrow> clock \<Rightarrow> clock" where
  "later n clk = (\<lambda>i. clk (n + i))"

lemma later_apply [simp]: "later n clk i = clk (n + i)"
  by (simp add: later_def)

lemma later_const [simp]: "later n (\<lambda>_. t) = (\<lambda>_. t)"
  by (simp add: later_def)

section \<open>Dictionaries\<close>

text \<open>
  A Python dictionary keeps its insertion order, and assigning to an existing key keeps the key's
  place: exactly \<open>AList.update\<close>.  Reading is \<open>map_of\<close>, \<open>pop(k, None)\<close> is \<open>map_of\<close> followed by
  \<open>AList.delete\<close>.
\<close>

abbreviation dict_get :: "('k, 'v) dict \<Rightarrow> 'k \<Rightarrow> 'v option" where
  "dict_get d k \<equiv> map_of d k"

abbreviation dict_set :: "'k \<Rightarrow> 'v \<Rightarrow> ('k, 'v) dict \<Rightarrow> ('k, 'v) dict" where
  "dict_set k v d \<equiv> AList.update k v d"

abbreviation dict_del :: "'k \<Rightarrow> ('k, 'v) dict \<Rightarrow> ('k, 'v) dict" where
  "dict_del k d \<equiv> AList.delete k d"

definition dict_ok :: "('k, 'v) dict \<Rightarrow> bool" where
  "dict_ok d \<longleftrightarrow> distinct (map fst d)"

lemma dict_ok_Nil [simp, intro]: "dict_ok []"
  by (simp add: dict_ok_def)

lemma dict_ok_set [simp, intro]: "dict_ok d \<Longrightarrow> dict_ok (dict_set k v d)"
  by (simp add: dict_ok_def distinct_update)

lemma dict_ok_del [simp, intro]: "dict_ok d \<Longrightarrow> dict_ok (dict_del k d)"
  by (simp add: dict_ok_def distinct_delete)

lemma dict_get_set [simp]: "dict_get (dict_set k v d) k' = (if k' = k then Some v else dict_get d k')"
  by (simp add: update_conv)

lemma dict_get_del [simp]: "dict_get (dict_del k d) k' = (if k' = k then None else dict_get d k')"
  by (simp add: delete_conv')

lemma dict_get_mem: "dict_ok d \<Longrightarrow> (k, v) \<in> set d \<longleftrightarrow> dict_get d k = Some v"
  by (simp add: dict_ok_def)

lemma dict_mem_get: "dict_get d k = Some v \<Longrightarrow> (k, v) \<in> set d"
  by (rule map_of_SomeD)

lemma length_dict_set: "length (dict_set k v d) = (if dict_get d k = None then Suc (length d) else length d)"
  by (induction d) auto

lemma dict_set_fresh: "dict_get d k = None \<Longrightarrow> dict_set k v d = d @ [(k, v)]"
  by (induction d) (auto split: if_splits)

lemma dict_del_fresh: "dict_get d k = None \<Longrightarrow> dict_del k d = d"
  by (induction d) (auto split: if_splits)

text \<open>A \<open>defaultdict(list)\<close> reads a missing key as the empty list.\<close>

definition dd_get :: "('k, 'a list) dict \<Rightarrow> 'k \<Rightarrow> 'a list" where
  "dd_get d k = (case dict_get d k of None \<Rightarrow> [] | Some xs \<Rightarrow> xs)"

lemma dd_get_Nil [simp]: "dd_get [] k = []"
  by (simp add: dd_get_def)

lemma dd_get_set [simp]: "dd_get (dict_set k v d) k' = (if k' = k then v else dd_get d k')"
  by (simp add: dd_get_def)

section \<open>Calls that may raise\<close>

definition and_then :: "'e + 'a \<Rightarrow> ('a \<Rightarrow> 'e + 'b) \<Rightarrow> 'e + 'b" where
  "and_then r f = (case r of Inl e \<Rightarrow> Inl e | Inr x \<Rightarrow> f x)"

lemma and_then_simps [simp]:
  "and_then (Inl e) f = Inl e" "and_then (Inr x) f = f x"
  by (simp_all add: and_then_def)

lemma and_then_Inr: "and_then r f = Inr y \<longleftrightarrow> (\<exists>x. r = Inr x \<and> f x = Inr y)"
  by (cases r) auto

end
