(* ===== verification/HeapQ.thy ===== *)
theory HeapQ
  imports Prelude
begin

text \<open>
  The standard library's \<open>heapq\<close>, which the broker keeps its ready and delayed entries in: a list
  whose element at index \<open>i\<close> is at least its parent at \<open>(i - 1) div 2\<close>.  The functions are the
  algorithms of CPython (\<open>_siftdown\<close> moves an element towards the root, \<open>_siftup\<close> first sends the
  hole to a leaf and then moves the element back up).  The locale \<open>min_heap\<close> states what the broker
  relies on; everything the broker's proofs need follows from it, and the interpretation at the end
  discharges it for the functions below.
\<close>

section \<open>The algorithms\<close>

abbreviation par :: "nat \<Rightarrow> nat" where
  "par i \<equiv> (i - 1) div 2"

fun siftdown :: "'a::linorder list \<Rightarrow> nat \<Rightarrow> nat \<Rightarrow> 'a \<Rightarrow> 'a list" where
  "siftdown h start pos x =
     (if start < pos \<and> x < h ! par pos
      then siftdown (h[pos := h ! par pos]) start (par pos) x
      else h[pos := x])"

definition min_child :: "'a::linorder list \<Rightarrow> nat \<Rightarrow> nat" where
  "min_child h pos =
     (let l = 2 * pos + 1; r = l + 1
      in if r < length h \<and> \<not> h ! l < h ! r then r else l)"

function siftup_hole :: "'a::linorder list \<Rightarrow> nat \<Rightarrow> 'a list \<times> nat" where
  "siftup_hole h pos =
     (if 2 * pos + 1 < length h
      then siftup_hole (h[pos := h ! min_child h pos]) (min_child h pos)
      else (h, pos))"
  by pat_completeness auto
termination
  by (relation "measure (\<lambda>(h, pos). length h - pos)") (auto simp: min_child_def Let_def)

definition siftup :: "'a::linorder list \<Rightarrow> nat \<Rightarrow> 'a list" where
  "siftup h pos = (let (h', p) = siftup_hole h pos in siftdown h' pos p (h ! pos))"

definition heappush :: "'a::linorder \<Rightarrow> 'a list \<Rightarrow> 'a list" where
  "heappush x h = siftdown (h @ [x]) 0 (length h) x"

text \<open>\<open>heappop\<close> of an empty heap raises \<open>IndexError\<close>; the broker never does that.\<close>

definition heappop :: "'a::linorder list \<Rightarrow> 'a \<times> 'a list" where
  "heappop h =
     (let h' = butlast h; y = last h
      in if h' = [] then (y, []) else (hd h', siftup (h'[0 := y]) 0))"

fun heapify_from :: "nat \<Rightarrow> 'a::linorder list \<Rightarrow> 'a list" where
  "heapify_from 0 h = h"
| "heapify_from (Suc i) h = heapify_from i (siftup h i)"

definition heapify :: "'a::linorder list \<Rightarrow> 'a list" where
  "heapify h = heapify_from (length h div 2) h"

declare siftdown.simps [simp del] siftup_hole.simps [simp del]

section \<open>Multisets and lengths\<close>

lemma length_siftdown [simp]: "length (siftdown h start pos x) = length h"
  by (induction h start pos x rule: siftdown.induct) (subst siftdown.simps, simp)

lemma mset_move_hole:
  assumes "p \<noteq> pos" "p < length h" "pos < length h"
  shows "mset (h[pos := h ! p, p := x]) = mset (h[pos := x])"
proof -
  let ?g = "h[pos := x]"
  have "h[pos := h ! p, p := x] = ?g[pos := ?g ! p, p := ?g ! pos]"
    using assms by (simp add: list_update_swap)
  then show ?thesis
    using assms mset_swap [of p ?g pos] by (simp add: list_update_swap)
qed

lemma par_less: "start < pos \<Longrightarrow> par pos < pos"
  by auto

lemma mset_siftdown: "pos < length h \<Longrightarrow> mset (siftdown h start pos x) = mset (h[pos := x])"
proof (induction h start pos x rule: siftdown.induct)
  case (1 h start pos x)
  show ?case
  proof (cases "start < pos \<and> x < h ! par pos")
    case True
    then have p: "par pos < pos" by auto
    have "mset (siftdown h start pos x) = mset (h[pos := h ! par pos, par pos := x])"
      using "1.IH" [OF True] "1.prems" True p by (subst siftdown.simps) simp
    also have "\<dots> = mset (h[pos := x])"
      using p "1.prems" by (intro mset_move_hole) auto
    finally show ?thesis .
  next
    case False
    then show ?thesis by (subst siftdown.simps) auto
  qed
qed

lemma min_child_bounds:
  assumes "2 * pos + 1 < length h"
  shows "min_child h pos < length h" "pos < min_child h pos" "par (min_child h pos) = pos"
    "min_child h pos \<noteq> 0"
  using assms by (auto simp: min_child_def Let_def)

lemma min_child_le:
  assumes "2 * pos + 1 < length h" "c < length h" "0 < c" "par c = pos"
  shows "h ! min_child h pos \<le> h ! c"
proof -
  from assms(3,4) have "c = 2 * pos + 1 \<or> c = 2 * pos + 2" by presburger
  then show ?thesis using assms by (auto simp: min_child_def Let_def)
qed

lemma siftup_hole_length:
  "siftup_hole h pos = (h', p) \<Longrightarrow> length h' = length h \<and> pos \<le> p"
proof (induction h pos arbitrary: h' p rule: siftup_hole.induct)
  case (1 h pos)
  show ?case
  proof (cases "2 * pos + 1 < length h")
    case True
    with "1.prems" have "siftup_hole (h[pos := h ! min_child h pos]) (min_child h pos) = (h', p)"
      by (simp add: siftup_hole.simps [of h pos])
    from "1.IH" [OF True this] show ?thesis
      using min_child_bounds [OF True] by simp
  next
    case False
    with "1.prems" show ?thesis by (simp add: siftup_hole.simps [of h pos])
  qed
qed

lemma siftup_hole_mset:
  "siftup_hole h pos = (h', p) \<Longrightarrow> pos < length h \<Longrightarrow>
     p < length h \<and> mset (h'[p := x]) = mset (h[pos := x])"
proof (induction h pos arbitrary: h' p rule: siftup_hole.induct)
  case (1 h pos)
  let ?c = "min_child h pos"
  show ?case
  proof (cases "2 * pos + 1 < length h")
    case True
    note c = min_child_bounds [OF True]
    from True "1.prems" have "siftup_hole (h[pos := h ! ?c]) ?c = (h', p)"
      by (simp add: siftup_hole.simps [of h pos])
    from "1.IH" [OF True this] c
    have "p < length h \<and> mset (h'[p := x]) = mset (h[pos := h ! ?c, ?c := x])" by simp
    moreover have "mset (h[pos := h ! ?c, ?c := x]) = mset (h[pos := x])"
      using c "1.prems" by (intro mset_move_hole) auto
    ultimately show ?thesis by simp
  next
    case False
    with "1.prems" show ?thesis by (simp add: siftup_hole.simps [of h pos])
  qed
qed

lemma mset_siftup: "pos < length h \<Longrightarrow> mset (siftup h pos) = mset h"
  using siftup_hole_mset [of h pos _ _ "h ! pos"] siftup_hole_length [of h pos]
  by (auto simp: siftup_def mset_siftdown split: prod.split)

lemma length_siftup [simp]: "length (siftup h pos) = length h"
  using siftup_hole_length [of h pos] by (auto simp: siftup_def split: prod.split)

section \<open>The heap order\<close>

text \<open>\<open>heap_from s h\<close>: every parent at index \<open>s\<close> or later is at most its children.\<close>

definition heap_from :: "nat \<Rightarrow> 'a::linorder list \<Rightarrow> bool" where
  "heap_from s h \<longleftrightarrow> (\<forall>i < length h. 0 < i \<and> s \<le> par i \<longrightarrow> h ! par i \<le> h ! i)"

abbreviation is_heap :: "'a::linorder list \<Rightarrow> bool" where
  "is_heap h \<equiv> heap_from 0 h"

text \<open>A position is at or below \<open>start\<close> in the tree.\<close>

inductive below :: "nat \<Rightarrow> nat \<Rightarrow> bool" for start :: nat where
  here: "below start start"
| left: "below start i \<Longrightarrow> below start (2 * i + 1)"
| right: "below start i \<Longrightarrow> below start (2 * i + 2)"

lemma below_par: "below start pos \<Longrightarrow> start < pos \<Longrightarrow> below start (par pos)"
  by (induction rule: below.induct) (auto intro: below.intros)

lemma below_ge: "below start pos \<Longrightarrow> start \<le> pos"
  by (induction rule: below.induct) auto

lemma below_child: "below start pos \<Longrightarrow> par c = pos \<Longrightarrow> 0 < c \<Longrightarrow> below start c"
proof -
  assume b: "below start pos" and "par c = pos" "0 < c"
  then have "c = 2 * pos + 1 \<or> c = 2 * pos + 2" by presburger
  then show ?thesis using below.left [OF b] below.right [OF b] by auto
qed

lemma below_zero: "below 0 pos"
proof (induction pos rule: less_induct)
  case (less pos)
  show ?case
  proof (cases "pos = 0")
    case True
    then show ?thesis by (simp add: below.here)
  next
    case False
    then have "below 0 (par pos)" by (intro less) auto
    with False show ?thesis by (auto intro: below_child)
  qed
qed

text \<open>The order holds but for the hole at \<open>pos\<close>, into which \<open>x\<close> fits from below.\<close>

definition hole_inv :: "nat \<Rightarrow> 'a::linorder list \<Rightarrow> nat \<Rightarrow> 'a \<Rightarrow> bool" where
  "hole_inv start h pos x \<longleftrightarrow>
     (\<forall>i < length h. 0 < i \<and> start \<le> par i \<and> i \<noteq> pos \<and> par i \<noteq> pos \<longrightarrow> h ! par i \<le> h ! i) \<and>
     (\<forall>i < length h. 0 < i \<and> par i = pos \<longrightarrow> x \<le> h ! i \<and> (start < pos \<longrightarrow> h ! par pos \<le> h ! i))"

lemma hole_inv_step:
  assumes inv: "hole_inv start h pos x" and b: "below start pos"
    and pos: "pos < length h" "start < pos" and x: "x < h ! par pos"
  shows "hole_inv start (h[pos := h ! par pos]) (par pos) x"
proof -
  let ?p = "par pos" and ?h = "h[pos := h ! par pos]"
  have p: "?p < pos" and sp: "start \<le> ?p"
    using pos below_ge [OF below_par [OF b pos(2)]] by auto
  have ord: "h ! par i \<le> h ! i"
    if "i < length h" "0 < i" "start \<le> par i" "i \<noteq> pos" "par i \<noteq> pos" for i
    using inv that unfolding hole_inv_def by blast
  have kids: "h ! ?p \<le> h ! i" if "i < length h" "0 < i" "par i = pos" for i
    using inv that pos unfolding hole_inv_def by blast
  have up: "h ! par ?p \<le> h ! ?p" if "start < ?p"
  proof -
    have "start \<le> par ?p" by (rule below_ge [OF below_par [OF below_par [OF b pos(2)] that]])
    moreover have "par ?p \<noteq> pos" using p by auto
    ultimately show ?thesis using ord [of ?p] that p pos by auto
  qed
  show ?thesis
    unfolding hole_inv_def
  proof (intro conjI allI impI)
    fix i assume "i < length ?h" and i: "0 < i \<and> start \<le> par i \<and> i \<noteq> ?p \<and> par i \<noteq> ?p"
    then have il: "i < length h" by simp
    have ip: "i \<noteq> pos" using i by auto
    show "?h ! par i \<le> ?h ! i"
      using i il ip pos kids [of i] ord [of i] by (cases "par i = pos") auto
  next
    fix i assume "i < length ?h" and i: "0 < i \<and> par i = ?p"
    then have il: "i < length h" by simp
    have ge: "h ! ?p \<le> ?h ! i"
      using i il p pos sp ord [of i] by (cases "i = pos") auto
    then show "x \<le> ?h ! i" using x by simp
    assume "start < ?p"
    with up have "h ! par ?p \<le> h ! ?p" by simp
    moreover have "?h ! par ?p = h ! par ?p" using p by (auto simp: nth_list_update)
    ultimately show "?h ! par ?p \<le> ?h ! i" using ge by simp
  qed
qed

lemma hole_inv_done:
  assumes inv: "hole_inv start h pos x" and pos: "pos < length h"
    and stop: "\<not> (start < pos \<and> x < h ! par pos)" and b: "below start pos"
  shows "heap_from start (h[pos := x])"
  unfolding heap_from_def
proof (intro allI impI)
  fix i assume "i < length (h[pos := x])" and i: "0 < i \<and> start \<le> par i"
  then have il: "i < length h" by simp
  have pi: "par i < i" using i by auto
  consider "i = pos" | "i \<noteq> pos" "par i = pos" | "i \<noteq> pos" "par i \<noteq> pos" by blast
  then show "h[pos := x] ! par i \<le> h[pos := x] ! i"
  proof cases
    case 1
    then have "start < pos" using i pi by auto
    with 1 pi stop pos show ?thesis by auto
  next
    case 2
    then have "x \<le> h ! i" using inv il i unfolding hole_inv_def by blast
    with 2 pos il show ?thesis by simp
  next
    case 3
    then have "h ! par i \<le> h ! i" using inv il i unfolding hole_inv_def by blast
    with 3 show ?thesis by simp
  qed
qed

lemma heap_siftdown:
  "hole_inv start h pos x \<Longrightarrow> below start pos \<Longrightarrow> pos < length h \<Longrightarrow>
     heap_from start (siftdown h start pos x)"
proof (induction h start pos x rule: siftdown.induct)
  case (1 h start pos x)
  show ?case
  proof (cases "start < pos \<and> x < h ! par pos")
    case True
    have "heap_from start (siftdown (h[pos := h ! par pos]) start (par pos) x)"
    proof (rule "1.IH" [OF True])
      show "hole_inv start (h[pos := h ! par pos]) (par pos) x"
        using hole_inv_step [OF "1.prems"] True by simp
      show "below start (par pos)" using below_par [OF "1.prems"(2)] True by simp
      show "par pos < length (h[pos := h ! par pos])" using "1.prems"(3) by auto
    qed
    with True show ?thesis by (subst siftdown.simps) simp
  next
    case False
    have "heap_from start (h[pos := x])"
      by (rule hole_inv_done [OF "1.prems"(1,3) False "1.prems"(2)])
    with False show ?thesis by (subst siftdown.simps) auto
  qed
qed

text \<open>Sending the hole down: after the first step the whole order from \<open>start\<close> on holds.\<close>

definition down_inv :: "nat \<Rightarrow> 'a::linorder list \<Rightarrow> nat \<Rightarrow> bool" where
  "down_inv start h pos \<longleftrightarrow> heap_from (Suc start) h \<and> (start < pos \<longrightarrow> heap_from start h)"

lemma down_inv_step:
  assumes inv: "down_inv start h pos" and ge: "start \<le> pos" and l: "2 * pos + 1 < length h"
  shows "heap_from start (h[pos := h ! min_child h pos])"
  unfolding heap_from_def
proof (intro allI impI)
  let ?c = "min_child h pos"
  note c = min_child_bounds [OF l]
  fix i assume "i < length (h[pos := h ! ?c])" and i: "0 < i \<and> start \<le> par i"
  then have il: "i < length h" by simp
  have pi: "par i < i" using i by auto
  consider "par i = pos" | "i = pos" | "i \<noteq> pos" "par i \<noteq> pos" by blast
  then show "h[pos := h ! ?c] ! par i \<le> h[pos := h ! ?c] ! i"
  proof cases
    case 1
    then show ?thesis using min_child_le [OF l il] i il pi l by auto
  next
    case 2
    then have "start < pos" using i pi by auto
    then have "heap_from start h" using inv by (simp add: down_inv_def)
    then have "h ! par i \<le> h ! i" and "h ! pos \<le> h ! ?c"
      using i il c ge by (auto simp: heap_from_def)
    with 2 pi il show ?thesis by auto
  next
    case 3
    have "start < par i \<or> heap_from start h"
      using 3 i inv ge by (auto simp: down_inv_def)
    then have "h ! par i \<le> h ! i" using inv i il by (auto simp: down_inv_def heap_from_def)
    with 3 show ?thesis by simp
  qed
qed

lemma down_inv_hole:
  assumes inv: "down_inv start h pos" and ge: "start \<le> pos" and leaf: "\<not> 2 * pos + 1 < length h"
  shows "hole_inv start h pos x"
  unfolding hole_inv_def
proof (intro conjI allI impI)
  fix i assume i: "i < length h" "0 < i \<and> start \<le> par i \<and> i \<noteq> pos \<and> par i \<noteq> pos"
  have "start < par i \<or> heap_from start h" using i inv ge by (auto simp: down_inv_def)
  with inv i show "h ! par i \<le> h ! i" by (auto simp: down_inv_def heap_from_def)
qed (use leaf in auto)

lemma heap_siftup_hole:
  "siftup_hole h pos = (h', p) \<Longrightarrow> down_inv start h pos \<Longrightarrow> below start pos \<Longrightarrow> pos < length h \<Longrightarrow>
     hole_inv start h' p x \<and> below start p \<and> p < length h'"
proof (induction h pos arbitrary: h' p rule: siftup_hole.induct)
  case (1 h pos)
  let ?c = "min_child h pos"
  show ?case
  proof (cases "2 * pos + 1 < length h")
    case True
    note c = min_child_bounds [OF True] and ge = below_ge [OF "1.prems"(3)]
    have "siftup_hole (h[pos := h ! ?c]) ?c = (h', p)"
      using True "1.prems"(1) by (simp add: siftup_hole.simps [of h pos])
    moreover have hs: "heap_from start (h[pos := h ! ?c])"
      by (rule down_inv_step [OF "1.prems"(2) ge True])
    then have "down_inv start (h[pos := h ! ?c]) ?c"
      by (auto simp: down_inv_def heap_from_def)
    moreover have "below start ?c" using below_child [OF "1.prems"(3) c(3)] c(4) by simp
    ultimately show ?thesis using "1.IH" [OF True] c by simp
  next
    case False
    with "1.prems" down_inv_hole [OF "1.prems"(2) below_ge [OF "1.prems"(3)] False]
    show ?thesis by (simp add: siftup_hole.simps [of h pos])
  qed
qed

lemma heap_siftup: "heap_from (Suc s) h \<Longrightarrow> s < length h \<Longrightarrow> heap_from s (siftup h s)"
proof -
  assume h: "heap_from (Suc s) h" and s: "s < length h"
  obtain h' p where hole: "siftup_hole h s = (h', p)" by (cases "siftup_hole h s") auto
  have "down_inv s h s" using h by (simp add: down_inv_def)
  from heap_siftup_hole [OF hole this below.here s]
  have "heap_from s (siftdown h' s p (h ! s))" by (blast intro: heap_siftdown)
  with hole show ?thesis by (simp add: siftup_def)
qed

lemma heap_heapify_from: "heap_from n h \<Longrightarrow> n \<le> length h \<Longrightarrow> is_heap (heapify_from n h)"
  by (induction n h rule: heapify_from.induct) (simp_all add: heap_siftup)

lemma mset_heapify_from: "n \<le> length h \<Longrightarrow> mset (heapify_from n h) = mset h"
  by (induction n h rule: heapify_from.induct) (auto simp: mset_siftup)

lemma heap_head_le: "is_heap h \<Longrightarrow> i < length h \<Longrightarrow> h ! 0 \<le> h ! i"
proof (induction i rule: less_induct)
  case (less i)
  show ?case
  proof (cases "i = 0")
    case False
    then have "par i < i" by auto
    with less have "h ! 0 \<le> h ! par i" by simp
    also have "h ! par i \<le> h ! i" using less.prems False by (auto simp: heap_from_def)
    finally show ?thesis .
  qed simp
qed

section \<open>The contract the broker relies on\<close>

locale min_heap =
  fixes invar :: "'a::linorder list \<Rightarrow> bool"
    and push :: "'a \<Rightarrow> 'a list \<Rightarrow> 'a list"
    and pop :: "'a list \<Rightarrow> 'a \<times> 'a list"
    and build :: "'a list \<Rightarrow> 'a list"
  assumes invar_Nil: "invar []"
    and mset_push: "mset (push x h) = add_mset x (mset h)"
    and invar_push: "invar h \<Longrightarrow> invar (push x h)"
    and mset_pop: "h \<noteq> [] \<Longrightarrow> mset h = add_mset (fst (pop h)) (mset (snd (pop h)))"
    and pop_head: "h \<noteq> [] \<Longrightarrow> fst (pop h) = hd h"
    and invar_pop: "invar h \<Longrightarrow> h \<noteq> [] \<Longrightarrow> invar (snd (pop h))"
    and head_le: "invar h \<Longrightarrow> y \<in> set h \<Longrightarrow> hd h \<le> y"
    and mset_build: "mset (build h) = mset h"
    and invar_build: "invar (build h)"
begin

lemma set_push: "set (push x h) = insert x (set h)"
  by (metis mset_push set_mset_add_mset_insert set_mset_mset)

lemma length_push: "length (push x h) = Suc (length h)"
  by (metis mset_push size_add_mset size_mset)

lemma pop_length: "h \<noteq> [] \<Longrightarrow> length (snd (pop h)) < length h"
  by (metis lessI mset_pop size_add_mset size_mset)

lemma pop_set: "h \<noteq> [] \<Longrightarrow> set h = insert (fst (pop h)) (set (snd (pop h)))"
  by (metis mset_pop set_mset_add_mset_insert set_mset_mset)

lemma pop_min: "invar h \<Longrightarrow> h \<noteq> [] \<Longrightarrow> y \<in> set h \<Longrightarrow> fst (pop h) \<le> y"
  by (simp add: pop_head head_le)

lemma mset_push_all: "mset (fold push xs h) = mset xs + mset h"
  by (induction xs arbitrary: h) (simp_all add: mset_push)

lemma invar_push_all: "invar h \<Longrightarrow> invar (fold push xs h)"
  by (induction xs arbitrary: h) (simp_all add: invar_push)

lemma mset_take_out: "x \<in> set h \<Longrightarrow> mset (build (remove1 x h)) = mset h - {#x#}"
  by (simp add: mset_build)

end

lemma heappop_cons:
  assumes "h \<noteq> []" "butlast h \<noteq> []"
  shows "heappop h = (hd h, siftup ((butlast h)[0 := last h]) 0)"
  using assms by (cases h) (auto simp: heappop_def Let_def)

lemma heappop_single: "butlast h = [] \<Longrightarrow> heappop h = (last h, [])"
  by (simp add: heappop_def)

lemma mset_heappop: "h \<noteq> [] \<Longrightarrow> mset h = add_mset (fst (heappop h)) (mset (snd (heappop h)))"
proof (cases "butlast h = []")
  case True
  assume h: "h \<noteq> []"
  then have "h = [last h]" using True by (metis append_Nil append_butlast_last_id)
  then show ?thesis using True by (metis fst_conv snd_conv heappop_single mset.simps(1) mset_single_iff_right)
next
  case False
  assume h: "h \<noteq> []"
  from False obtain a as where b: "butlast h = a # as" by (cases "butlast h") auto
  then have "h = a # as @ [last h]" using h by (metis append_Cons append_butlast_last_id)
  then have "mset h = add_mset a (mset as + {#last h#})" and "hd h = a"
    by (metis mset.simps(2) mset_append mset.simps(1), metis list.sel(1))
  then show ?thesis using b h by (simp add: heappop_cons mset_siftup)
qed

lemma heap_butlast: "is_heap h \<Longrightarrow> heap_from (Suc 0) ((butlast h)[0 := y])"
  by (auto simp: heap_from_def nth_butlast nth_list_update)

lemma heap_heappop: "is_heap h \<Longrightarrow> h \<noteq> [] \<Longrightarrow> is_heap (snd (heappop h))"
proof (cases "butlast h = []")
  case True
  then show ?thesis by (simp add: heappop_single heap_from_def)
next
  case False
  assume h: "is_heap h" "h \<noteq> []"
  from False have "0 < length ((butlast h)[0 := last h])" by (cases "butlast h") auto
  with False h heap_siftup [OF heap_butlast [OF h(1)] this] show ?thesis
    by (simp add: heappop_cons)
qed

lemma hole_inv_append: "is_heap h \<Longrightarrow> hole_inv 0 (h @ [x]) (length h) x"
proof -
  assume h: "is_heap h"
  have no_kids: "par i \<noteq> length h" if "i < length (h @ [x])" "0 < i" for i
    using that by auto
  have "i < length h" if "i < length (h @ [x])" "i \<noteq> length h" for i
    using that by auto
  with h no_kids show ?thesis by (auto simp: hole_inv_def heap_from_def nth_append)
qed

lemma heap_heappush: "is_heap h \<Longrightarrow> is_heap (heappush x h)"
  unfolding heappush_def by (rule heap_siftdown [OF hole_inv_append below_zero]) simp_all

lemma mset_heappush: "mset (heappush x h) = add_mset x (mset h)"
  by (simp add: heappush_def mset_siftdown)

lemma heappop_head: "h \<noteq> [] \<Longrightarrow> fst (heappop h) = hd h"
  by (cases "butlast h = []") (auto simp: heappop_single heappop_cons, metis append_Nil append_butlast_last_id list.sel(1))

lemma heap_heapify: "is_heap (heapify h)"
  unfolding heapify_def by (rule heap_heapify_from) (auto simp: heap_from_def)

interpretation hq: min_heap "heap_from 0" heappush heappop heapify
proof (unfold_locales, goal_cases)
  case 1 show ?case by (simp add: heap_from_def)
next
  case 2 show ?case by (rule mset_heappush)
next
  case 3 then show ?case by (rule heap_heappush)
next
  case 4 then show ?case by (rule mset_heappop)
next
  case 5 then show ?case by (rule heappop_head)
next
  case 6 then show ?case by (rule heap_heappop)
next
  case (7 h y)
  then obtain i where "i < length h" "h ! i = y" by (auto simp: in_set_conv_nth)
  with 7 show ?case using heap_head_le [of h i] by (cases h) auto
next
  case 8 show ?case by (simp add: heapify_def mset_heapify_from)
next
  case 9 show ?case by (rule heap_heapify)
qed

end
