(* ===== verification/Models.thy ===== *)
theory Models
  imports Prelude
begin

text \<open>
  The data model of \<open>taskrunner/shared/models.py\<close>: the four string enumerations, task
  specifications and envelopes, results, worker descriptions, queue snapshots and cluster events,
  with the methods the program runs on them.  Field names carry a two-letter prefix of their class
  (\<open>ts\<close> TaskSpec, \<open>te\<close> TaskEnvelope, \<open>tr\<close> TaskResult, \<open>wi\<close> WorkerInfo, \<open>qs\<close> QueueSnapshot, \<open>ce\<close>
  ClusterEvent), because several classes share names.
\<close>

section \<open>Python values\<close>

text \<open>The values that payloads, results and \<open>to_dict\<close> dictionaries carry (\<open>dict[str, Any]\<close>).\<close>

datatype pyval =
    PNone
  | PBool bool
  | PInt int
  | PFloat real
  | PStr string
  | PList "pyval list"
  | PDict "(string \<times> pyval) list"

definition opt_str :: "string option \<Rightarrow> pyval" where
  "opt_str x = (case x of None \<Rightarrow> PNone | Some s \<Rightarrow> PStr s)"

definition opt_float :: "real option \<Rightarrow> pyval" where
  "opt_float x = (case x of None \<Rightarrow> PNone | Some r \<Rightarrow> PFloat r)"

text \<open>\<open>sorted(s)\<close> of a set of strings, as a list value.\<close>

definition sorted_strs :: "string set \<Rightarrow> pyval" where
  "sorted_strs A = PList (map PStr (sorted_list_of_set A))"

section \<open>Enumerations\<close>

datatype task_kind = CPU | IO | ASYNC | SCHEDULED

datatype task_status =
    PENDING | QUEUED | RUNNING | ACKED | SUCCEEDED | FAILED | RETRYING | CANCELLED | DEAD_LETTERED

datatype worker_status = STARTING | IDLE | BUSY | DRAINING | OFFLINE

datatype event_type =
    TASK_SUBMITTED | TASK_DISPATCHED | TASK_FINISHED | TASK_FAILED
  | WORKER_REGISTERED | WORKER_HEARTBEAT | QUEUE_PRESSURE

text \<open>A \<open>StrEnum\<close> member is its string: \<open>str(x)\<close> gives it, and calling the class looks it up.\<close>

fun kind_str :: "task_kind \<Rightarrow> string" where
  "kind_str CPU = ''cpu''"
| "kind_str IO = ''io''"
| "kind_str ASYNC = ''async''"
| "kind_str SCHEDULED = ''scheduled''"

fun status_str :: "task_status \<Rightarrow> string" where
  "status_str PENDING = ''pending''"
| "status_str QUEUED = ''queued''"
| "status_str RUNNING = ''running''"
| "status_str ACKED = ''acked''"
| "status_str SUCCEEDED = ''succeeded''"
| "status_str FAILED = ''failed''"
| "status_str RETRYING = ''retrying''"
| "status_str CANCELLED = ''cancelled''"
| "status_str DEAD_LETTERED = ''dead_lettered''"

fun worker_status_str :: "worker_status \<Rightarrow> string" where
  "worker_status_str STARTING = ''starting''"
| "worker_status_str IDLE = ''idle''"
| "worker_status_str BUSY = ''busy''"
| "worker_status_str DRAINING = ''draining''"
| "worker_status_str OFFLINE = ''offline''"

fun event_str :: "event_type \<Rightarrow> string" where
  "event_str TASK_SUBMITTED = ''task.submitted''"
| "event_str TASK_DISPATCHED = ''task.dispatched''"
| "event_str TASK_FINISHED = ''task.finished''"
| "event_str TASK_FAILED = ''task.failed''"
| "event_str WORKER_REGISTERED = ''worker.registered''"
| "event_str WORKER_HEARTBEAT = ''worker.heartbeat''"
| "event_str QUEUE_PRESSURE = ''queue.pressure''"

definition all_kinds :: "task_kind list" where
  "all_kinds = [CPU, IO, ASYNC, SCHEDULED]"

definition all_statuses :: "task_status list" where
  "all_statuses =
     [PENDING, QUEUED, RUNNING, ACKED, SUCCEEDED, FAILED, RETRYING, CANCELLED, DEAD_LETTERED]"

definition all_worker_statuses :: "worker_status list" where
  "all_worker_statuses = [STARTING, IDLE, BUSY, DRAINING, OFFLINE]"

text \<open>\<open>TaskKind(s)\<close> and its siblings: \<open>None\<close> stands for the \<open>ValueError\<close>.\<close>

definition task_kind_of :: "string \<Rightarrow> task_kind option" where
  "task_kind_of s = find (\<lambda>k. kind_str k = s) all_kinds"

definition task_status_of :: "string \<Rightarrow> task_status option" where
  "task_status_of s = find (\<lambda>k. status_str k = s) all_statuses"

definition worker_status_of :: "string \<Rightarrow> worker_status option" where
  "worker_status_of s = find (\<lambda>k. worker_status_str k = s) all_worker_statuses"

lemma task_kind_of_str [simp]: "task_kind_of (kind_str k) = Some k"
  by (cases k) (simp_all add: task_kind_of_def all_kinds_def)

lemma task_status_of_str [simp]: "task_status_of (status_str s) = Some s"
  by (cases s) (simp_all add: task_status_of_def all_statuses_def)

lemma worker_status_of_str [simp]: "worker_status_of (worker_status_str s) = Some s"
  by (cases s) (simp_all add: worker_status_of_def all_worker_statuses_def)

lemma inj_kind_str: "inj kind_str"
  by (rule injI) (metis option.inject task_kind_of_str)

lemma inj_status_str: "inj status_str"
  by (rule injI) (metis option.inject task_status_of_str)

lemma kind_str_nonempty [simp]: "kind_str k \<noteq> []"
  by (cases k) auto

lemma status_str_nonempty [simp]: "status_str s \<noteq> []"
  by (cases s) auto

lemma worker_status_str_nonempty [simp]: "worker_status_str s \<noteq> []"
  by (cases s) auto

text \<open>Members of a \<open>StrEnum\<close> compare as strings, which is how \<open>GROUP BY status\<close> orders them.\<close>

instantiation task_status :: linorder
begin

definition less_eq_task_status :: "task_status \<Rightarrow> task_status \<Rightarrow> bool" where
  "s \<le> t \<longleftrightarrow> status_str s \<le> status_str t"

definition less_task_status :: "task_status \<Rightarrow> task_status \<Rightarrow> bool" where
  "s < t \<longleftrightarrow> status_str s < status_str t"

instance
  by standard
    (auto simp: less_eq_task_status_def less_task_status_def less_le_not_le linear
      dest: order_antisym inj_status_str [THEN injD])

end

section \<open>Task specifications\<close>

record task_spec =
  ts_target :: string
  ts_payload :: "(string, pyval) dict"
  ts_kind :: task_kind
  ts_queue :: string
  ts_priority :: int
  ts_delay_seconds :: real
  ts_max_retries :: int
  ts_retry_backoff_seconds :: real
  ts_timeout_seconds :: real
  ts_affinity :: "string set"
  ts_depends_on :: "string set"
  ts_batch_key :: "string option"

text \<open>The dataclass defaults, for \<open>TaskSpec(target=t)\<close>.\<close>

definition default_spec :: "string \<Rightarrow> task_spec" where
  "default_spec t = \<lparr>ts_target = t, ts_payload = [], ts_kind = IO, ts_queue = ''default'',
     ts_priority = 100, ts_delay_seconds = 0, ts_max_retries = 3, ts_retry_backoff_seconds = 3/2,
     ts_timeout_seconds = 60, ts_affinity = {}, ts_depends_on = {}, ts_batch_key = None\<rparr>"

definition normalized :: "task_spec \<Rightarrow> task_spec" where
  "normalized s = \<lparr>
     ts_target = ts_target s,
     ts_payload = ts_payload s,
     ts_kind = ts_kind s,
     ts_queue = (if ts_queue s = [] then ''default'' else ts_queue s),
     ts_priority = max 0 (ts_priority s),
     ts_delay_seconds = max 0 (ts_delay_seconds s),
     ts_max_retries = max 0 (ts_max_retries s),
     ts_retry_backoff_seconds = max 0 (ts_retry_backoff_seconds s),
     ts_timeout_seconds = max (1/10) (ts_timeout_seconds s),
     ts_affinity = ts_affinity s,
     ts_depends_on = ts_depends_on s,
     ts_batch_key = ts_batch_key s\<rparr>"

text \<open>What \<open>normalized\<close> promises; the broker and the scheduler only keep specifications of this form.\<close>

definition spec_ok :: "task_spec \<Rightarrow> bool" where
  "spec_ok s \<longleftrightarrow> ts_queue s \<noteq> [] \<and> 0 \<le> ts_priority s \<and> 0 \<le> ts_delay_seconds s
     \<and> 0 \<le> ts_max_retries s \<and> 0 \<le> ts_retry_backoff_seconds s \<and> 1/10 \<le> ts_timeout_seconds s"

lemma spec_ok_normalized [simp, intro]: "spec_ok (normalized s)"
  by (simp add: spec_ok_def normalized_def)

lemma normalized_id: "spec_ok s \<Longrightarrow> normalized s = s"
  by (simp add: spec_ok_def normalized_def)

lemma normalized_idem [simp]: "normalized (normalized s) = normalized s"
  by (simp add: normalized_id)

lemma normalized_fixed_iff: "normalized s = s \<longleftrightarrow> spec_ok s"
  by (metis normalized_id spec_ok_normalized)

text \<open>\<open>asdict\<close> of a specification, with the overrides of \<open>TaskEnvelope.to_dict\<close>.\<close>

definition spec_to_dict :: "task_spec \<Rightarrow> (string, pyval) dict" where
  "spec_to_dict s = [
     (''target'', PStr (ts_target s)),
     (''payload'', PDict (ts_payload s)),
     (''kind'', PStr (kind_str (ts_kind s))),
     (''queue'', PStr (ts_queue s)),
     (''priority'', PInt (ts_priority s)),
     (''delay_seconds'', PFloat (ts_delay_seconds s)),
     (''max_retries'', PInt (ts_max_retries s)),
     (''retry_backoff_seconds'', PFloat (ts_retry_backoff_seconds s)),
     (''timeout_seconds'', PFloat (ts_timeout_seconds s)),
     (''affinity'', sorted_strs (ts_affinity s)),
     (''depends_on'', sorted_strs (ts_depends_on s)),
     (''batch_key'', opt_str (ts_batch_key s))]"

section \<open>Task envelopes\<close>

record task_envelope =
  te_spec :: task_spec
  te_task_id :: string
  te_created_at :: seconds
  te_available_at :: seconds
  te_attempts :: int
  te_status :: task_status
  te_last_error :: "string option"
  te_assigned_worker :: "string option"
  te_lease_deadline :: "seconds option"

text \<open>
  \<open>TaskEnvelope(spec=s)\<close>: the default factories run in field order, \<open>uuid4().hex\<close> first and then
  two readings of \<open>time()\<close>.
\<close>

definition new_envelope :: "string \<Rightarrow> clock \<Rightarrow> task_spec \<Rightarrow> task_envelope" where
  "new_envelope hex clk s = \<lparr>te_spec = s, te_task_id = ''task-'' @ hex,
     te_created_at = clk 0, te_available_at = clk 1, te_attempts = 0, te_status = PENDING,
     te_last_error = None, te_assigned_worker = None, te_lease_deadline = None\<rparr>"

definition envelope_to_dict :: "task_envelope \<Rightarrow> (string, pyval) dict" where
  "envelope_to_dict t = [
     (''spec'', PDict (spec_to_dict (te_spec t))),
     (''task_id'', PStr (te_task_id t)),
     (''created_at'', PFloat (te_created_at t)),
     (''available_at'', PFloat (te_available_at t)),
     (''attempts'', PInt (te_attempts t)),
     (''status'', PStr (status_str (te_status t))),
     (''last_error'', opt_str (te_last_error t)),
     (''assigned_worker'', opt_str (te_assigned_worker t)),
     (''lease_deadline'', opt_float (te_lease_deadline t))]"

section \<open>Results\<close>

record task_result =
  tr_task_id :: string
  tr_worker_id :: string
  tr_status :: task_status
  tr_started_at :: seconds
  tr_finished_at :: seconds
  tr_result :: pyval
  tr_error :: "string option"

definition duration_seconds :: "task_result \<Rightarrow> seconds" where
  "duration_seconds r = max 0 (tr_finished_at r - tr_started_at r)"

lemma duration_nonneg [simp]: "0 \<le> duration_seconds r"
  by (simp add: duration_seconds_def)

definition result_to_dict :: "task_result \<Rightarrow> (string, pyval) dict" where
  "result_to_dict r = [
     (''task_id'', PStr (tr_task_id r)),
     (''worker_id'', PStr (tr_worker_id r)),
     (''status'', PStr (status_str (tr_status r))),
     (''started_at'', PFloat (tr_started_at r)),
     (''finished_at'', PFloat (tr_finished_at r)),
     (''result'', tr_result r),
     (''error'', opt_str (tr_error r)),
     (''duration_seconds'', PFloat (duration_seconds r))]"

section \<open>Workers\<close>

record worker_info =
  wi_worker_id :: string
  wi_host :: string
  wi_pid :: int
  wi_queues :: "string set"
  wi_capacity :: int
  wi_labels :: "string set"
  wi_status :: worker_status
  wi_running_tasks :: int
  wi_started_at :: seconds
  wi_last_heartbeat :: seconds

definition load :: "worker_info \<Rightarrow> real" where
  "load w = (if wi_capacity w \<le> 0 then 1
             else min 1 (of_int (wi_running_tasks w) / of_int (wi_capacity w)))"

definition accepts :: "worker_info \<Rightarrow> task_envelope \<Rightarrow> bool" where
  "accepts w t \<longleftrightarrow>
     ts_queue (te_spec t) \<in> wi_queues w
     \<and> (ts_affinity (te_spec t) = {} \<or> ts_affinity (te_spec t) \<inter> wi_labels w \<noteq> {})
     \<and> wi_status w \<in> {IDLE, BUSY}"

definition worker_to_dict :: "worker_info \<Rightarrow> (string, pyval) dict" where
  "worker_to_dict w = [
     (''worker_id'', PStr (wi_worker_id w)),
     (''host'', PStr (wi_host w)),
     (''pid'', PInt (wi_pid w)),
     (''queues'', sorted_strs (wi_queues w)),
     (''capacity'', PInt (wi_capacity w)),
     (''labels'', sorted_strs (wi_labels w)),
     (''status'', PStr (worker_status_str (wi_status w))),
     (''running_tasks'', PInt (wi_running_tasks w)),
     (''started_at'', PFloat (wi_started_at w)),
     (''last_heartbeat'', PFloat (wi_last_heartbeat w)),
     (''load'', PFloat (load w))]"

lemma load_le_one: "load w \<le> 1"
  by (simp add: load_def)

lemma load_nonneg: "0 \<le> wi_running_tasks w \<Longrightarrow> 0 \<le> load w"
  by (simp add: load_def)

section \<open>Snapshots and events\<close>

record queue_snapshot =
  qs_queued :: int
  qs_delayed :: int
  qs_inflight :: int
  qs_dead_lettered :: int
  qs_pressure :: real

definition snapshot_to_dict :: "queue_snapshot \<Rightarrow> (string, pyval) dict" where
  "snapshot_to_dict s = [
     (''queued'', PInt (qs_queued s)),
     (''delayed'', PInt (qs_delayed s)),
     (''inflight'', PInt (qs_inflight s)),
     (''dead_lettered'', PInt (qs_dead_lettered s)),
     (''pressure'', PFloat (qs_pressure s))]"

record cluster_event =
  ce_event_type :: event_type
  ce_payload :: "(string, pyval) dict"
  ce_event_id :: string
  ce_created_at :: seconds

text \<open>\<open>ClusterEvent(event_type, payload)\<close>: the default factories supply the id and the time.\<close>

definition new_event :: "string \<Rightarrow> seconds \<Rightarrow> event_type \<Rightarrow> (string, pyval) dict \<Rightarrow> cluster_event" where
  "new_event hex now ty p = \<lparr>ce_event_type = ty, ce_payload = p, ce_event_id = ''evt-'' @ hex,
     ce_created_at = now\<rparr>"

definition event_to_dict :: "cluster_event \<Rightarrow> (string, pyval) dict" where
  "event_to_dict e = [
     (''event_type'', PStr (event_str (ce_event_type e))),
     (''payload'', PDict (ce_payload e)),
     (''event_id'', PStr (ce_event_id e)),
     (''created_at'', PFloat (ce_created_at e))]"

end
