(* ===== verification/Broker.thy ===== *)
theory Broker
  imports HeapQ Models
begin

text \<open>
  \<open>taskrunner/queue/broker.py\<close>: the in-memory task queue.  The state is the record \<open>broker\<close>; the
  envelopes live in the table \<open>objs\<close> and the dictionaries \<open>_tasks\<close>, \<open>_inflight\<close> and
  \<open>_dead_letter\<close> hold their addresses, as the Python dictionaries hold references to shared
  objects.  Every method holds the condition's lock for its whole body (\<open>reserve\<close> releases it only
  while it waits), so one method call is one atomic step; \<open>notify_all\<close> changes no state.
\<close>

section \<open>State\<close>

datatype broker_error =
    QueueFullError int int
  | TaskNotFoundError string
  | KeyError string

type_synonym ready_entry = "int \<times> seconds \<times> nat \<times> string"
type_synonym delayed_entry = "seconds \<times> nat \<times> string"

record broker =
  max_depth :: int
  ready :: "(string, ready_entry list) dict"
  delayed :: "delayed_entry list"
  tasks :: "(string, addr) dict"
  inflight :: "(string, addr) dict"
  dead_letter :: "(string, addr) dict"
  cancelled :: "string set"
  sequence :: nat
  objs :: "addr \<Rightarrow> task_envelope"

definition new_broker :: "int \<Rightarrow> (addr \<Rightarrow> task_envelope) \<Rightarrow> broker" where
  "new_broker d os = \<lparr>max_depth = d, ready = [], delayed = [], tasks = [], inflight = [],
     dead_letter = [], cancelled = {}, sequence = 0, objs = os\<rparr>"

abbreviation entry_id :: "ready_entry \<Rightarrow> string" where
  "entry_id e \<equiv> snd (snd (snd e))"

abbreviation delayed_id :: "delayed_entry \<Rightarrow> string" where
  "delayed_id e \<equiv> snd (snd e)"

text \<open>Assigning fields of the object at an address.\<close>

definition upd_obj :: "addr \<Rightarrow> (task_envelope \<Rightarrow> task_envelope) \<Rightarrow> broker \<Rightarrow> broker" where
  "upd_obj a f q = q\<lparr>objs := (objs q)(a := f (objs q a))\<rparr>"

section \<open>Depth\<close>

definition terminal :: "task_status set" where
  "terminal = {SUCCEEDED, FAILED, CANCELLED, DEAD_LETTERED}"

definition depth :: "broker \<Rightarrow> int" where
  "depth q = int (length (tasks q))
     - int (length (filter (\<lambda>(tid, a). te_status (objs q a) \<in> terminal) (tasks q)))"

section \<open>Pushing and promoting entries\<close>

definition ready_entry_of :: "nat \<Rightarrow> task_envelope \<Rightarrow> ready_entry" where
  "ready_entry_of n t = (ts_priority (te_spec t), te_created_at t, n, te_task_id t)"

definition push_ready :: "string \<Rightarrow> ready_entry \<Rightarrow> broker \<Rightarrow> broker" where
  "push_ready k e q = q\<lparr>ready := dict_set k (heappush e (dd_get (ready q) k)) (ready q)\<rparr>"

definition push :: "seconds \<Rightarrow> addr \<Rightarrow> broker \<Rightarrow> broker" where
  "push now a q =
     (let q1 = q\<lparr>sequence := Suc (sequence q)\<rparr>; t = objs q a
      in if te_available_at t > now
         then q1\<lparr>delayed := heappush (te_available_at t, sequence q1, te_task_id t) (delayed q1)\<rparr>
         else push_ready (ts_queue (te_spec t)) (ready_entry_of (sequence q1) t) q1)"

text \<open>One turn of the loop of \<open>_promote_delayed_locked\<close>: the popped task is looked up again and
  dropped when it is cancelled or dead-lettered by now.\<close>

definition promote_one :: "broker \<Rightarrow> broker" where
  "promote_one q =
     (let (e, rest) = heappop (delayed q); q1 = q\<lparr>delayed := rest\<rparr>
      in case dict_get (tasks q1) (delayed_id e) of
           None \<Rightarrow> q1
         | Some a \<Rightarrow>
             (if te_status (objs q1 a) \<notin> {CANCELLED, DEAD_LETTERED}
              then push_ready (ts_queue (te_spec (objs q1 a)))
                     (ready_entry_of (sequence q1) (objs q1 a)) q1
              else q1))"

lemma delayed_push_ready [simp]: "delayed (push_ready k e q) = delayed q"
  by (simp add: push_ready_def)

lemma delayed_promote_one: "delayed (promote_one q) = snd (heappop (delayed q))"
  by (auto simp: promote_one_def Let_def split: prod.split option.split)

function promote_delayed :: "seconds \<Rightarrow> broker \<Rightarrow> broker" where
  "promote_delayed now q =
     (if delayed q \<noteq> [] \<and> fst (hd (delayed q)) \<le> now
      then promote_delayed now (promote_one q)
      else q)"
  by pat_completeness auto
termination
  by (relation "measure (\<lambda>(now, q). length (delayed q))")
    (auto simp: delayed_promote_one hq.pop_length)

declare promote_delayed.simps [simp del]

section \<open>Submitting\<close>

text \<open>
  The body that \<open>submit\<close> and \<open>submit_many\<close> share.  \<open>time()\<close> is read once for \<open>available_at\<close> and
  once more by \<open>_push\<close>.
\<close>

definition admit :: "clock \<Rightarrow> addr \<Rightarrow> broker \<Rightarrow> broker" where
  "admit clk a q =
     (let q1 = upd_obj a (\<lambda>t. t\<lparr>te_spec := normalized (te_spec t), te_status := QUEUED\<rparr>) q;
          q2 = upd_obj a (\<lambda>t. t\<lparr>te_available_at := clk 0 + ts_delay_seconds (te_spec t)\<rparr>) q1;
          q3 = q2\<lparr>tasks := dict_set (te_task_id (objs q2 a)) a (tasks q2)\<rparr>
      in push (clk 1) a q3)"

definition submit :: "clock \<Rightarrow> addr \<Rightarrow> broker \<Rightarrow> (broker_error + addr) \<times> broker" where
  "submit clk a q =
     (if depth q \<ge> max_depth q
      then (Inl (QueueFullError (depth q) (max_depth q)), q)
      else (Inr a, admit clk a q))"

fun submit_many :: "clock \<Rightarrow> addr list \<Rightarrow> broker \<Rightarrow> (broker_error + addr list) \<times> broker" where
  "submit_many clk [] q = (Inr [], q)"
| "submit_many clk (a # as) q =
     (if depth q \<ge> max_depth q
      then (Inl (QueueFullError (depth q) (max_depth q)), q)
      else case submit_many (later 2 clk) as (admit clk a q) of
             (Inl e, q') \<Rightarrow> (Inl e, q')
           | (Inr bs, q') \<Rightarrow> (Inr (a # bs), q'))"

section \<open>Reserving\<close>

text \<open>
  The inner loop of \<open>_pop_eligible_locked\<close> over one queue: every entry is popped; entries of
  cancelled tasks are dropped, the others retained and, when the worker may run them, offered as
  candidates.  \<open>self._tasks[task_id]\<close> raises \<open>KeyError\<close> for an unknown id.  The result carries the
  retained entries, the candidates and what is left in the queue.
\<close>

function scan_queue ::
    "broker \<Rightarrow> worker_info \<Rightarrow> string set \<Rightarrow> ready_entry list \<Rightarrow> ready_entry list \<Rightarrow> ready_entry list
     \<Rightarrow> (broker_error + ready_entry list \<times> ready_entry list) \<times> ready_entry list" where
  "scan_queue q w completed queue retained cands =
     (if queue = [] then (Inr (retained, cands), [])
      else
        let (c, rest) = heappop queue; tid = entry_id c
        in if tid \<in> cancelled q then scan_queue q w completed rest retained cands
           else case dict_get (tasks q) tid of
                  None \<Rightarrow> (Inl (KeyError tid), rest)
                | Some a \<Rightarrow>
                    scan_queue q w completed rest (retained @ [c])
                      (if accepts w (objs q a) \<and> ts_depends_on (te_spec (objs q a)) \<subseteq> completed
                       then cands @ [c] else cands))"
  by pat_completeness auto
termination
proof (relation "measure (\<lambda>(q, w, completed, queue, retained, cands). length queue)", goal_cases)
  case 1 show ?case by simp
next
  case (2 q w completed queue retained cands x c rest tid)
  then show ?case using hq.pop_length [of queue] by (simp add: prod_eq_iff)
next
  case (3 q w completed queue retained cands x c rest tid a)
  then show ?case using hq.pop_length [of queue] by (simp add: prod_eq_iff)
qed

declare scan_queue.simps [simp del]

text \<open>
  The outer loop over \<open>worker.queues\<close>, a set: \<open>order\<close> is the order in which Python iterates it.
  A queue that is missing or empty is skipped; the retained entries go back at the end.
\<close>

fun scan_queues ::
    "worker_info \<Rightarrow> string set \<Rightarrow> string list \<Rightarrow> (ready_entry \<times> string) list \<Rightarrow> broker
     \<Rightarrow> (broker_error + (ready_entry \<times> string) list) \<times> broker" where
  "scan_queues w completed [] cands q = (Inr cands, q)"
| "scan_queues w completed (k # ks) cands q =
     (let queue = dd_get (ready q) k
      in if queue = [] then scan_queues w completed ks cands q
         else case scan_queue q w completed queue [] [] of
                (Inl e, rest) \<Rightarrow> (Inl e, q\<lparr>ready := dict_set k rest (ready q)\<rparr>)
              | (Inr (retained, cs), rest) \<Rightarrow>
                  scan_queues w completed ks (cands @ map (\<lambda>c. (c, k)) cs)
                    (q\<lparr>ready := dict_set k (fold heappush retained rest) (ready q)\<rparr>))"

definition pop_eligible ::
    "string list \<Rightarrow> worker_info \<Rightarrow> string set \<Rightarrow> broker \<Rightarrow> (broker_error + addr option) \<times> broker" where
  "pop_eligible order w completed q =
     (case scan_queues w completed order [] q of
        (Inl e, q1) \<Rightarrow> (Inl e, q1)
      | (Inr cands, q1) \<Rightarrow>
          (if cands = [] then (Inr None, q1)
           else
             let (best, k) = arg_min_list fst cands;
                 q2 = q1\<lparr>ready := dict_set k (heapify (remove1 best (dd_get (ready q1) k))) (ready q1)\<rparr>
             in case dict_get (tasks q2) (entry_id best) of
                  None \<Rightarrow> (Inl (KeyError (entry_id best)), q2)
                | Some a \<Rightarrow> (Inr (Some a), q2)))"

text \<open>One turn of the loop of \<open>reserve\<close> up to the point where it returns or waits.\<close>

definition reserve_poll ::
    "clock \<Rightarrow> string list \<Rightarrow> worker_info \<Rightarrow> string set \<Rightarrow> seconds \<Rightarrow> broker
     \<Rightarrow> (broker_error + addr option) \<times> broker" where
  "reserve_poll clk order w completed lease_seconds q =
     (case pop_eligible order w completed (promote_delayed (clk 0) q) of
        (Inr (Some a), q1) \<Rightarrow>
          (let q2 = upd_obj a (\<lambda>t. t\<lparr>te_status := RUNNING, te_assigned_worker := Some (wi_worker_id w),
                                    te_lease_deadline := Some (clk 1 + lease_seconds)\<rparr>) q1
           in (Inr (Some a), q2\<lparr>inflight := dict_set (te_task_id (objs q2 a)) a (inflight q2)\<rparr>))
      | r \<Rightarrow> r)"

text \<open>
  The waiting loop.  While \<open>reserve\<close> waits, other threads run: a \<open>turn\<close> gives what the loop meets in
  one round, namely the readings of \<open>time()\<close>, the order of the worker's queue set, the worker object
  and the caller's dependency set as they are now, the reading of \<open>monotonic()\<close> after a fruitless
  poll, and what the other threads do to the broker during the wait.  \<open>None\<close> as the first component
  of the result means that the given turns ran out while the call was still waiting.
\<close>

record turn =
  tn_clk :: clock
  tn_order :: "string list"
  tn_worker :: worker_info
  tn_completed :: "string set"
  tn_monotonic :: seconds
  tn_others :: "broker \<Rightarrow> broker"

fun reserve_loop ::
    "bool \<Rightarrow> seconds \<Rightarrow> seconds option \<Rightarrow> seconds option \<Rightarrow> turn list \<Rightarrow> broker
     \<Rightarrow> (broker_error + addr option) option \<times> broker" where
  "reserve_loop live lease timeout deadline [] q = (None, q)"
| "reserve_loop live lease timeout deadline (n # ns) q =
     (case reserve_poll (tn_clk n) (tn_order n) (tn_worker n)
             (if live then tn_completed n else {}) lease q of
        (Inl e, q1) \<Rightarrow> (Some (Inl e), q1)
      | (Inr (Some a), q1) \<Rightarrow> (Some (Inr (Some a)), q1)
      | (Inr None, q1) \<Rightarrow>
          (if timeout = Some 0 then (Some (Inr None), q1)
           else if map_option (\<lambda>d. max 0 (d - tn_monotonic n)) deadline = Some 0
                then (Some (Inr None), q1)
                else reserve_loop live lease timeout deadline ns (tn_others n q1)))"

text \<open>
  \<open>completed_dependencies or set()\<close> keeps the caller's set, and with it later additions, only when
  the set is not empty at the time of the call; otherwise it is a new empty set.
\<close>

definition reserve ::
    "seconds \<Rightarrow> string set option \<Rightarrow> seconds \<Rightarrow> seconds option \<Rightarrow> turn list \<Rightarrow> broker
     \<Rightarrow> (broker_error + addr option) option \<times> broker" where
  "reserve start completed lease_seconds timeout turns q =
     reserve_loop (completed \<noteq> None \<and> completed \<noteq> Some {}) lease_seconds timeout
       (map_option (\<lambda>t. start + t) timeout) turns q"

section \<open>Finishing, retrying, cancelling\<close>

text \<open>\<open>self._inflight.pop(task_id, None) or self._tasks.get(task_id)\<close>; an envelope is always true.\<close>

definition pop_or_get :: "string \<Rightarrow> broker \<Rightarrow> addr option \<times> broker" where
  "pop_or_get tid q =
     (case dict_get (inflight q) tid of
        Some a \<Rightarrow> (Some a, q\<lparr>inflight := dict_del tid (inflight q)\<rparr>)
      | None \<Rightarrow> (dict_get (tasks q) tid, q))"

definition ack :: "string \<Rightarrow> broker \<Rightarrow> (broker_error + addr) \<times> broker" where
  "ack tid q =
     (case pop_or_get tid q of
        (None, q1) \<Rightarrow> (Inl (TaskNotFoundError tid), q1)
      | (Some a, q1) \<Rightarrow>
          (Inr a, upd_obj a (\<lambda>t. t\<lparr>te_status := ACKED, te_lease_deadline := None\<rparr>) q1))"

definition complete ::
    "string \<Rightarrow> task_status \<Rightarrow> string option \<Rightarrow> broker \<Rightarrow> (broker_error + addr) \<times> broker" where
  "complete tid status error q =
     (case pop_or_get tid q of
        (None, q1) \<Rightarrow> (Inl (TaskNotFoundError tid), q1)
      | (Some a, q1) \<Rightarrow>
          (let q2 = upd_obj a (\<lambda>t. t\<lparr>te_status := status, te_last_error := error,
                                    te_lease_deadline := None\<rparr>) q1
           in (Inr a, if status = DEAD_LETTERED
                      then q2\<lparr>dead_letter := dict_set tid a (dead_letter q2)\<rparr> else q2)))"

definition retry :: "clock \<Rightarrow> string \<Rightarrow> string \<Rightarrow> broker \<Rightarrow> (broker_error + addr) \<times> broker" where
  "retry clk tid reason q =
     (case pop_or_get tid q of
        (None, q1) \<Rightarrow> (Inl (TaskNotFoundError tid), q1)
      | (Some a, q1) \<Rightarrow>
          (let q2 = upd_obj a (\<lambda>t. t\<lparr>te_attempts := te_attempts t + 1, te_last_error := Some reason,
                                    te_assigned_worker := None, te_lease_deadline := None\<rparr>) q1;
               t = objs q2 a
           in if te_attempts t > ts_max_retries (te_spec t)
              then (let q3 = upd_obj a (\<lambda>t. t\<lparr>te_status := DEAD_LETTERED\<rparr>) q2
                    in (Inr a, q3\<lparr>dead_letter := dict_set (te_task_id t) a (dead_letter q3)\<rparr>))
              else (Inr a,
                    push (clk 1) a
                      (upd_obj a (\<lambda>t. t\<lparr>te_status := RETRYING,
                         te_available_at :=
                           clk 0 + ts_retry_backoff_seconds (te_spec t) * of_int (te_attempts t)\<rparr>) q2))))"

definition cancel :: "string \<Rightarrow> broker \<Rightarrow> (broker_error + addr) \<times> broker" where
  "cancel tid q =
     (case dict_get (tasks q) tid of
        None \<Rightarrow> (Inl (TaskNotFoundError tid), q)
      | Some a \<Rightarrow>
          (Inr a, (upd_obj a (\<lambda>t. t\<lparr>te_status := CANCELLED\<rparr>) q)
                    \<lparr>cancelled := insert tid (cancelled q), inflight := dict_del tid (inflight q)\<rparr>))"

text \<open>
  \<open>requeue_expired_leases\<close> walks over a copy of the in-flight items.  A retry that dead-letters does
  not read the clock, any other retry reads it twice.
\<close>

definition retry_reads :: "task_envelope \<Rightarrow> nat" where
  "retry_reads t = (if te_status t = DEAD_LETTERED then 0 else 2)"

definition lease_expired :: "seconds \<Rightarrow> task_envelope \<Rightarrow> bool" where
  "lease_expired now t \<longleftrightarrow> (case te_lease_deadline t of None \<Rightarrow> False | Some d \<Rightarrow> d < now)"

fun requeue_loop ::
    "seconds \<Rightarrow> clock \<Rightarrow> (string \<times> addr) list \<Rightarrow> broker \<Rightarrow> (broker_error + addr list) \<times> broker" where
  "requeue_loop now clk [] q = (Inr [], q)"
| "requeue_loop now clk ((tid, a) # items) q =
     (if lease_expired now (objs q a)
      then let q1 = upd_obj a (\<lambda>t. t\<lparr>te_assigned_worker := None\<rparr>)
                      (q\<lparr>inflight := dict_del tid (inflight q)\<rparr>)
           in case retry clk tid ''lease expired'' q1 of
                (Inl e, q2) \<Rightarrow> (Inl e, q2)
              | (Inr b, q2) \<Rightarrow>
                  (case requeue_loop now (later (retry_reads (objs q2 b)) clk) items q2 of
                     (Inl e, q3) \<Rightarrow> (Inl e, q3)
                   | (Inr bs, q3) \<Rightarrow> (Inr (b # bs), q3))
      else requeue_loop now clk items q)"

definition requeue_expired_leases :: "clock \<Rightarrow> broker \<Rightarrow> (broker_error + addr list) \<times> broker" where
  "requeue_expired_leases clk q = requeue_loop (clk 0) (later 1 clk) (inflight q) q"

section \<open>Queries\<close>

text \<open>\<open>xs[:n]\<close>, where a negative bound counts from the end.\<close>

definition py_take :: "int \<Rightarrow> 'a list \<Rightarrow> 'a list" where
  "py_take n xs = (if 0 \<le> n then take (nat n) xs else take (length xs - nat (- n)) xs)"

definition batch :: "string \<Rightarrow> int \<Rightarrow> broker \<Rightarrow> addr list" where
  "batch key max_items q =
     py_take max_items
       (filter (\<lambda>a. ts_batch_key (te_spec (objs q a)) = Some key \<and> te_status (objs q a) = QUEUED)
          (map snd (tasks q)))"

definition get :: "string \<Rightarrow> broker \<Rightarrow> broker_error + addr" where
  "get tid q = (case dict_get (tasks q) tid of None \<Rightarrow> Inl (TaskNotFoundError tid) | Some a \<Rightarrow> Inr a)"

definition snapshot :: "seconds \<Rightarrow> broker \<Rightarrow> queue_snapshot \<times> broker" where
  "snapshot now q =
     (let q1 = promote_delayed now q;
          queued = int (sum_list (map (\<lambda>(k, h). length h) (ready q1)));
          delayed_n = int (length (delayed q1));
          inflight_n = int (length (inflight q1));
          dead = int (length (dead_letter q1));
          active_depth = queued + delayed_n + inflight_n
      in (\<lparr>qs_queued = queued, qs_delayed = delayed_n, qs_inflight = inflight_n,
           qs_dead_lettered = dead, qs_pressure = of_int active_depth / of_int (max 1 (max_depth q1))\<rparr>, q1))"

end
