(* ===== verification/Broker_Inv.thy ===== *)
theory Broker_Inv
  imports Broker
begin

text \<open>
  The broker's representation invariant and its preservation.  The invariant is stated in parts, one
  per relation between the fields; \<open>binv A\<close> is the whole of it, where the tasks at the addresses in
  \<open>A\<close> may for the moment lack the heap entry that a waiting task must have (between the assignment of
  a status and the \<open>_push\<close> that follows it).
\<close>

section \<open>The invariant\<close>

definition dicts_ok :: "broker \<Rightarrow> bool" where
  "dicts_ok q \<longleftrightarrow> dict_ok (tasks q) \<and> dict_ok (inflight q) \<and> dict_ok (dead_letter q) \<and> dict_ok (ready q)"

definition heaps_ok :: "broker \<Rightarrow> bool" where
  "heaps_ok q \<longleftrightarrow> (\<forall>k. is_heap (dd_get (ready q) k)) \<and> is_heap (delayed q)"

text \<open>A task is filed under its own id, with a normalised specification.\<close>

definition ids_ok :: "broker \<Rightarrow> bool" where
  "ids_ok q \<longleftrightarrow> (\<forall>tid a. dict_get (tasks q) tid = Some a \<longrightarrow>
     te_task_id (objs q a) = tid \<and> spec_ok (te_spec (objs q a)))"

text \<open>The in-flight and dead-letter dictionaries refer to the same objects as \<open>_tasks\<close>.\<close>

definition alias_ok :: "broker \<Rightarrow> bool" where
  "alias_ok q \<longleftrightarrow>
     (\<forall>tid a. dict_get (inflight q) tid = Some a \<longrightarrow> dict_get (tasks q) tid = Some a) \<and>
     (\<forall>tid a. dict_get (dead_letter q) tid = Some a \<longrightarrow> dict_get (tasks q) tid = Some a)"

text \<open>Running is the same as in flight, and a running task has a worker and a lease.\<close>

definition running_ok :: "broker \<Rightarrow> bool" where
  "running_ok q \<longleftrightarrow> (\<forall>tid a. dict_get (tasks q) tid = Some a \<longrightarrow>
     (te_status (objs q a) = RUNNING \<longleftrightarrow> dict_get (inflight q) tid = Some a) \<and>
     (te_status (objs q a) = RUNNING \<longrightarrow>
        te_assigned_worker (objs q a) \<noteq> None \<and> te_lease_deadline (objs q a) \<noteq> None) \<and>
     te_status (objs q a) \<noteq> PENDING)"

definition dlq_ok :: "broker \<Rightarrow> bool" where
  "dlq_ok q \<longleftrightarrow> (\<forall>tid a. dict_get (tasks q) tid = Some a \<and> te_status (objs q a) = DEAD_LETTERED \<longrightarrow>
     dict_get (dead_letter q) tid = Some a)"

text \<open>Every heap entry names a known task and carries that task's queue, priority and age.\<close>

definition entry_ok :: "broker \<Rightarrow> string \<Rightarrow> ready_entry \<Rightarrow> bool" where
  "entry_ok q k e \<longleftrightarrow> (\<exists>a. dict_get (tasks q) (entry_id e) = Some a \<and>
     ts_queue (te_spec (objs q a)) = k \<and> fst e = ts_priority (te_spec (objs q a)) \<and>
     fst (snd e) = te_created_at (objs q a)) \<and> fst (snd (snd e)) \<le> sequence q"

definition entries_ok :: "broker \<Rightarrow> bool" where
  "entries_ok q \<longleftrightarrow> (\<forall>k. \<forall>e \<in> set (dd_get (ready q) k). entry_ok q k e) \<and>
     (\<forall>e \<in> set (delayed q). dict_get (tasks q) (delayed_id e) \<noteq> None \<and> fst (snd e) \<le> sequence q)"

definition cancelled_ok :: "broker \<Rightarrow> bool" where
  "cancelled_ok q \<longleftrightarrow> cancelled q \<subseteq> dom (map_of (tasks q))"

text \<open>A task that waits to run can be found: in its ready heap or, with its due time, in the
  delayed heap.\<close>

definition has_entry :: "broker \<Rightarrow> addr \<Rightarrow> bool" where
  "has_entry q a \<longleftrightarrow>
     (\<exists>e \<in> set (dd_get (ready q) (ts_queue (te_spec (objs q a)))). entry_id e = te_task_id (objs q a)) \<or>
     (\<exists>e \<in> set (delayed q). delayed_id e = te_task_id (objs q a) \<and> fst e = te_available_at (objs q a))"

definition waiting :: "task_status set" where
  "waiting = {QUEUED, RETRYING}"

definition pending_ok :: "addr set \<Rightarrow> broker \<Rightarrow> bool" where
  "pending_ok A q \<longleftrightarrow> (\<forall>tid a. dict_get (tasks q) tid = Some a \<and> te_status (objs q a) \<in> waiting \<and>
     tid \<notin> cancelled q \<and> a \<notin> A \<longrightarrow> has_entry q a)"

definition binv :: "addr set \<Rightarrow> broker \<Rightarrow> bool" where
  "binv A q \<longleftrightarrow> dicts_ok q \<and> heaps_ok q \<and> ids_ok q \<and> alias_ok q \<and> running_ok q \<and> dlq_ok q \<and>
     entries_ok q \<and> cancelled_ok q \<and> pending_ok A q"

abbreviation broker_inv :: "broker \<Rightarrow> bool" where
  "broker_inv q \<equiv> binv {} q"

lemmas binv_parts = dicts_ok_def heaps_ok_def ids_ok_def alias_ok_def running_ok_def dlq_ok_def
  entries_ok_def entry_ok_def cancelled_ok_def pending_ok_def

lemma binvD:
  assumes "binv A q"
  shows "dicts_ok q" "heaps_ok q" "ids_ok q" "alias_ok q" "running_ok q" "dlq_ok q"
    "entries_ok q" "cancelled_ok q" "pending_ok A q"
  using assms by (simp_all add: binv_def)

lemma binv_mono: "binv A q \<Longrightarrow> A \<subseteq> B \<Longrightarrow> binv B q"
  by (auto simp: binv_def pending_ok_def)

lemma new_broker_inv: "broker_inv (new_broker d os)"
  by (simp add: binv_def new_broker_def binv_parts dict_ok_def heap_from_def)

lemma running_okD:
  assumes "binv A q" "dict_get (tasks q) tid = Some a"
  shows "te_status (objs q a) = RUNNING \<longleftrightarrow> dict_get (inflight q) tid = Some a"
    "te_status (objs q a) = RUNNING \<Longrightarrow> te_assigned_worker (objs q a) \<noteq> None"
    "te_status (objs q a) = RUNNING \<Longrightarrow> te_lease_deadline (objs q a) \<noteq> None"
    "te_status (objs q a) \<noteq> PENDING"
  using binvD(5) [OF assms(1)] assms(2) unfolding running_ok_def by blast+

text \<open>Different ids are filed at different addresses.\<close>

lemma tasks_inj:
  "binv A q \<Longrightarrow> dict_get (tasks q) t1 = Some a \<Longrightarrow> dict_get (tasks q) t2 = Some a \<Longrightarrow> t1 = t2"
  by (metis binvD(3) ids_ok_def)

lemma task_id_of: "binv A q \<Longrightarrow> dict_get (tasks q) tid = Some a \<Longrightarrow> te_task_id (objs q a) = tid"
  by (simp add: binv_def ids_ok_def)

section \<open>Frames\<close>

lemma upd_obj_fields [simp]:
  "max_depth (upd_obj a f q) = max_depth q" "ready (upd_obj a f q) = ready q"
  "delayed (upd_obj a f q) = delayed q" "tasks (upd_obj a f q) = tasks q"
  "inflight (upd_obj a f q) = inflight q" "dead_letter (upd_obj a f q) = dead_letter q"
  "cancelled (upd_obj a f q) = cancelled q" "sequence (upd_obj a f q) = sequence q"
  "objs (upd_obj a f q) = (objs q)(a := f (objs q a))"
  by (simp_all add: upd_obj_def)

lemma upd_obj_twice: "upd_obj a g (upd_obj a f q) = upd_obj a (\<lambda>t. g (f t)) q"
  by (simp add: upd_obj_def)

lemma push_ready_fields [simp]:
  "max_depth (push_ready k e q) = max_depth q" "tasks (push_ready k e q) = tasks q"
  "inflight (push_ready k e q) = inflight q" "dead_letter (push_ready k e q) = dead_letter q"
  "cancelled (push_ready k e q) = cancelled q" "sequence (push_ready k e q) = sequence q"
  "objs (push_ready k e q) = objs q"
  by (simp_all add: push_ready_def)

lemma set_ready_push_ready:
  "set (dd_get (ready (push_ready k e q)) k') =
     (if k' = k then insert e (set (dd_get (ready q) k)) else set (dd_get (ready q) k'))"
  by (simp add: push_ready_def hq.set_push)

lemma push_fields [simp]:
  "max_depth (push now a q) = max_depth q" "tasks (push now a q) = tasks q"
  "inflight (push now a q) = inflight q" "dead_letter (push now a q) = dead_letter q"
  "cancelled (push now a q) = cancelled q" "objs (push now a q) = objs q"
  "sequence (push now a q) = Suc (sequence q)"
  by (simp_all add: push_def Let_def)

lemma promote_one_fields [simp]:
  "max_depth (promote_one q) = max_depth q" "tasks (promote_one q) = tasks q"
  "inflight (promote_one q) = inflight q" "dead_letter (promote_one q) = dead_letter q"
  "cancelled (promote_one q) = cancelled q" "sequence (promote_one q) = sequence q"
  "objs (promote_one q) = objs q"
  by (simp_all add: promote_one_def Let_def split: prod.split option.split)

lemma promote_delayed_rule:
  assumes base: "P q" and step: "\<And>q. P q \<Longrightarrow> delayed q \<noteq> [] \<Longrightarrow> P (promote_one q)"
  shows "P (promote_delayed now q)"
  using base
proof (induction now q rule: promote_delayed.induct)
  case (1 now q)
  then show ?case by (subst promote_delayed.simps) (auto intro: step)
qed

lemma promote_delayed_fields [simp]:
  "max_depth (promote_delayed now q) = max_depth q" "tasks (promote_delayed now q) = tasks q"
  "inflight (promote_delayed now q) = inflight q"
  "dead_letter (promote_delayed now q) = dead_letter q"
  "cancelled (promote_delayed now q) = cancelled q"
  "sequence (promote_delayed now q) = sequence q" "objs (promote_delayed now q) = objs q"
  by (rule promote_delayed_rule, simp, simp)+

section \<open>Pushing and promoting\<close>

lemma pending_okD:
  "pending_ok A q \<Longrightarrow> dict_get (tasks q) tid = Some a \<Longrightarrow> te_status (objs q a) \<in> waiting \<Longrightarrow>
     tid \<notin> cancelled q \<Longrightarrow> a \<notin> A \<Longrightarrow> has_entry q a"
  unfolding pending_ok_def by blast

lemma pending_okI:
  "(\<And>tid a. dict_get (tasks q) tid = Some a \<Longrightarrow> te_status (objs q a) \<in> waiting \<Longrightarrow>
     tid \<notin> cancelled q \<Longrightarrow> a \<notin> A \<Longrightarrow> has_entry q a) \<Longrightarrow> pending_ok A q"
  unfolding pending_ok_def by blast

text \<open>A step that only adds heap entries keeps every waiting task findable.\<close>

lemma pending_transfer:
  assumes "pending_ok A q" and same: "tasks q' = tasks q" "cancelled q' = cancelled q" "objs q' = objs q"
    and "\<And>a. has_entry q a \<Longrightarrow> has_entry q' a" and "\<And>a. a \<in> A \<Longrightarrow> a \<notin> B \<Longrightarrow> has_entry q' a"
  shows "pending_ok B q'"
proof (rule pending_okI)
  fix tid a
  assume a: "dict_get (tasks q') tid = Some a" "te_status (objs q' a) \<in> waiting"
    "tid \<notin> cancelled q'" "a \<notin> B"
  show "has_entry q' a"
  proof (cases "a \<in> A")
    case True
    with a(4) assms(6) show ?thesis by simp
  next
    case False
    with a pending_okD [OF assms(1)] same have "has_entry q a" by metis
    then show ?thesis by (rule assms(5))
  qed
qed

text \<open>A step on the heaps alone: the other parts of the invariant carry over.\<close>

lemma binv_heap_step:
  assumes inv: "binv A q"
    and same: "tasks q' = tasks q" "inflight q' = inflight q" "dead_letter q' = dead_letter q"
      "cancelled q' = cancelled q" "objs q' = objs q"
    and new: "dict_ok (ready q')" "heaps_ok q'" "entries_ok q'" "pending_ok B q'"
  shows "binv B q'"
proof -
  have "ids_ok q' = ids_ok q" "alias_ok q' = alias_ok q" "running_ok q' = running_ok q"
    "dlq_ok q' = dlq_ok q" "cancelled_ok q' = cancelled_ok q"
    by (simp_all only: ids_ok_def alias_ok_def running_ok_def dlq_ok_def cancelled_ok_def same)
  moreover have "dicts_ok q'"
    using binvD(1) [OF inv] new(1) by (simp only: dicts_ok_def same)
  ultimately show ?thesis
    unfolding binv_def using inv new binvD [OF inv] by blast
qed

lemma push_ready_inv:
  assumes inv: "binv A q" and e: "entry_ok q k e"
    and A: "\<And>a. a \<in> A \<Longrightarrow> a \<notin> B \<Longrightarrow> te_task_id (objs q a) = entry_id e \<and> ts_queue (te_spec (objs q a)) = k"
  shows "binv B (push_ready k e q)"
proof -
  have mono: "has_entry (push_ready k e q) a" if "has_entry q a" for a
    using that by (auto simp: has_entry_def set_ready_push_ready)
  have new: "has_entry (push_ready k e q) a" if "a \<in> A" "a \<notin> B" for a
    using A [OF that] by (auto simp: has_entry_def set_ready_push_ready)
  have "pending_ok B (push_ready k e q)"
    by (rule pending_transfer [OF binvD(9) [OF inv] _ _ _ mono new]) simp_all
  moreover have "entries_ok (push_ready k e q)"
    using binvD(7) [OF inv] e by (auto simp: entries_ok_def entry_ok_def set_ready_push_ready)
  moreover have "heaps_ok (push_ready k e q)"
    using binvD(2) [OF inv] by (simp add: heaps_ok_def push_ready_def hq.invar_push)
  moreover have "dict_ok (ready (push_ready k e q))"
    using binvD(1) [OF inv] by (simp add: dicts_ok_def push_ready_def)
  ultimately show ?thesis
    by (intro binv_heap_step [OF inv]) simp_all
qed

lemma sequence_inv:
  assumes inv: "binv A q" and n: "sequence q \<le> n"
  shows "binv A (q\<lparr>sequence := n\<rparr>)"
proof -
  have "entries_ok (q\<lparr>sequence := n\<rparr>)"
    using binvD(7) [OF inv] n unfolding entries_ok_def entry_ok_def by (auto intro: order_trans)
  moreover have "pending_ok A (q\<lparr>sequence := n\<rparr>)"
    by (rule pending_transfer [OF binvD(9) [OF inv]]) (simp_all add: has_entry_def)
  ultimately show ?thesis
    using binvD(1,2) [OF inv]
    by (intro binv_heap_step [OF inv]) (simp_all add: dicts_ok_def heaps_ok_def)
qed

lemma push_delayed_inv:
  assumes inv: "binv A q" and e: "dict_get (tasks q) (delayed_id e) \<noteq> None" "fst (snd e) \<le> sequence q"
    and A: "\<And>a. a \<in> A \<Longrightarrow> a \<notin> B \<Longrightarrow> te_task_id (objs q a) = delayed_id e \<and> te_available_at (objs q a) = fst e"
  shows "binv B (q\<lparr>delayed := heappush e (delayed q)\<rparr>)" (is "binv B ?q")
proof -
  have mono: "has_entry ?q a" if "has_entry q a" for a
    using that by (auto simp: has_entry_def hq.set_push)
  have new: "has_entry ?q a" if "a \<in> A" "a \<notin> B" for a
    using A [OF that] by (auto simp: has_entry_def hq.set_push)
  have "pending_ok B ?q"
    by (rule pending_transfer [OF binvD(9) [OF inv] _ _ _ mono new]) simp_all
  moreover have "entries_ok ?q"
    using binvD(7) [OF inv] e by (auto simp: entries_ok_def entry_ok_def hq.set_push)
  moreover have "heaps_ok ?q"
    using binvD(2) [OF inv] by (simp add: heaps_ok_def hq.invar_push)
  ultimately show ?thesis
    using binvD(1) [OF inv] by (intro binv_heap_step [OF inv]) (simp_all add: dicts_ok_def)
qed

lemma push_inv [keeps_inv]:
  assumes inv: "binv (insert a A) q" and a: "dict_get (tasks q) (te_task_id (objs q a)) = Some a"
  shows "binv A (push now a q)"
proof -
  let ?q = "q\<lparr>sequence := Suc (sequence q)\<rparr>"
  have inv': "binv (insert a A) ?q" by (rule sequence_inv [OF inv]) simp
  show ?thesis
  proof (cases "te_available_at (objs q a) > now")
    case True
    then show ?thesis
      using push_delayed_inv [OF inv', where B = A
        and e = "(te_available_at (objs q a), Suc (sequence q), te_task_id (objs q a))"] a
      by (auto simp: push_def Let_def)
  next
    case False
    have "entry_ok ?q (ts_queue (te_spec (objs q a))) (ready_entry_of (Suc (sequence q)) (objs q a))"
      using a by (simp add: entry_ok_def ready_entry_of_def)
    then show ?thesis
      using False push_ready_inv [OF inv', where B = A]
      by (auto simp: push_def Let_def ready_entry_of_def)
  qed
qed

lemma promote_one_inv:
  assumes inv: "binv A q" and ne: "delayed q \<noteq> []"
  shows "binv A (promote_one q)"
proof -
  obtain e rest where pop: "heappop (delayed q) = (e, rest)" by fastforce
  let ?q = "q\<lparr>delayed := rest\<rparr>"
  have set_e: "set (delayed q) = insert e (set rest)" using hq.pop_set [OF ne] pop by simp
  have "e \<in> set (delayed q)" using set_e by simp
  then obtain a where a: "dict_get (tasks q) (delayed_id e) = Some a"
    using binvD(7) [OF inv] by (fastforce simp: entries_ok_def)
  have id_a: "te_task_id (objs q a) = delayed_id e" by (rule task_id_of [OF inv a])
  have pend: "pending_ok (insert a A) ?q"
  proof (rule pending_okI)
    fix tid b
    assume b: "dict_get (tasks ?q) tid = Some b" "te_status (objs ?q b) \<in> waiting"
      "tid \<notin> cancelled ?q" "b \<notin> insert a A"
    then have "has_entry q b" using pending_okD [OF binvD(9) [OF inv]] by simp
    moreover have "te_task_id (objs q b) \<noteq> delayed_id e"
      using b a task_id_of [OF inv b(1) [simplified]] by auto
    ultimately show "has_entry ?q b" by (auto simp: has_entry_def set_e)
  qed
  have "is_heap rest" using hq.invar_pop [OF _ ne] pop binvD(2) [OF inv] by (simp add: heaps_ok_def)
  then have heaps: "heaps_ok ?q" using binvD(2) [OF inv] by (simp add: heaps_ok_def)
  have "entries_ok ?q"
    using binvD(7) [OF inv] by (simp add: entries_ok_def entry_ok_def set_e)
  with pend heaps have inv': "binv (insert a A) ?q"
    using binvD(1) [OF inv] by (intro binv_heap_step [OF inv]) (simp_all add: dicts_ok_def)
  show ?thesis
  proof (cases "te_status (objs q a) \<in> {CANCELLED, DEAD_LETTERED}")
    case True
    then have "te_status (objs q a) \<notin> waiting" by (auto simp: waiting_def)
    with pend have "pending_ok A ?q"
      by (simp add: pending_ok_def) metis
    with inv' have "binv A ?q" by (simp add: binv_def)
    with True a pop show ?thesis by (simp add: promote_one_def Let_def)
  next
    case False
    have "entry_ok ?q (ts_queue (te_spec (objs q a))) (ready_entry_of (sequence q) (objs q a))"
      using a id_a by (simp add: entry_ok_def ready_entry_of_def)
    then have "binv A (push_ready (ts_queue (te_spec (objs q a))) (ready_entry_of (sequence q) (objs q a)) ?q)"
      by (rule push_ready_inv [OF inv']) (auto simp: ready_entry_of_def)
    with False a pop show ?thesis by (simp add: promote_one_def Let_def)
  qed
qed

lemma promote_delayed_inv [keeps_inv]: "binv A q \<Longrightarrow> binv A (promote_delayed now q)"
  by (rule promote_delayed_rule) (auto intro: promote_one_inv)

section \<open>Updates of one task\<close>

text \<open>
  What \<open>ack\<close>, \<open>complete\<close>, \<open>retry\<close> and \<open>cancel\<close> have in common: the task leaves the in-flight
  dictionary, its object is updated, and a dead-lettered task enters the dead-letter dictionary.
\<close>

definition settle :: "addr \<Rightarrow> string \<Rightarrow> (task_envelope \<Rightarrow> task_envelope) \<Rightarrow> broker \<Rightarrow> broker" where
  "settle a tid f q = upd_obj a f
     (q\<lparr>inflight := dict_del tid (inflight q),
        dead_letter := (if te_status (f (objs q a)) = DEAD_LETTERED
                        then dict_set tid a (dead_letter q) else dead_letter q)\<rparr>)"

definition keeps_identity :: "(task_envelope \<Rightarrow> task_envelope) \<Rightarrow> bool" where
  "keeps_identity f \<longleftrightarrow> (\<forall>t. te_spec (f t) = te_spec t \<and> te_task_id (f t) = te_task_id t \<and>
     te_created_at (f t) = te_created_at t)"

lemma settle_fields [simp]:
  "max_depth (settle a tid f q) = max_depth q" "ready (settle a tid f q) = ready q"
  "delayed (settle a tid f q) = delayed q" "tasks (settle a tid f q) = tasks q"
  "inflight (settle a tid f q) = dict_del tid (inflight q)"
  "cancelled (settle a tid f q) = cancelled q" "sequence (settle a tid f q) = sequence q"
  "objs (settle a tid f q) = (objs q)(a := f (objs q a))"
  "dead_letter (settle a tid f q) = (if te_status (f (objs q a)) = DEAD_LETTERED
     then dict_set tid a (dead_letter q) else dead_letter q)"
  by (simp_all add: settle_def)

lemma entries_upd:
  assumes "entries_ok q" and f: "keeps_identity f"
    and same: "ready q' = ready q" "delayed q' = delayed q" "tasks q' = tasks q" "sequence q' = sequence q"
    and objs: "objs q' = (objs q)(a := f (objs q a))"
  shows "entries_ok q'"
proof -
  have "te_spec (objs q' b) = te_spec (objs q b)" "te_created_at (objs q' b) = te_created_at (objs q b)" for b
    using f by (simp_all add: objs keeps_identity_def)
  then show ?thesis using assms(1) by (simp only: entries_ok_def entry_ok_def same)
qed

lemma has_entry_other:
  assumes "has_entry q b" "b \<noteq> a" "ready q' = ready q" "delayed q' = delayed q"
    "objs q' = (objs q)(a := t)"
  shows "has_entry q' b"
  using assms by (simp add: has_entry_def)

lemma settle_inv [keeps_inv]:
  assumes inv: "binv A q" and a: "dict_get (tasks q) tid = Some a" and f: "keeps_identity f"
    and st: "te_status (f (objs q a)) \<noteq> RUNNING" "te_status (f (objs q a)) \<noteq> PENDING"
    and B: "A \<subseteq> B" "te_status (f (objs q a)) \<in> waiting \<Longrightarrow> a \<in> B"
  shows "binv B (settle a tid f q)" (is "binv B ?q")
proof -
  have other: "b = a \<longleftrightarrow> t = tid" if "dict_get (tasks q) t = Some b" for t b
    using that a tasks_inj [OF inv] by (metis option.inject)
  have "dicts_ok ?q" using binvD(1) [OF inv] by (simp add: dicts_ok_def)
  moreover have "heaps_ok ?q" using binvD(2) [OF inv] by (simp add: heaps_ok_def)
  moreover have "ids_ok ?q"
    using binvD(3) [OF inv] f by (auto simp: ids_ok_def keeps_identity_def)
  moreover have "alias_ok ?q"
    using binvD(4) [OF inv] a by (auto simp: alias_ok_def split: if_splits)
  moreover have "running_ok ?q"
    unfolding running_ok_def
  proof (intro allI impI)
    fix t b assume "dict_get (tasks ?q) t = Some b"
    then have b: "dict_get (tasks q) t = Some b" by simp
    show "(te_status (objs ?q b) = RUNNING) = (dict_get (inflight ?q) t = Some b) \<and>
      (te_status (objs ?q b) = RUNNING \<longrightarrow>
         te_assigned_worker (objs ?q b) \<noteq> None \<and> te_lease_deadline (objs ?q b) \<noteq> None) \<and>
      te_status (objs ?q b) \<noteq> PENDING"
    proof (cases "b = a")
      case True
      then have "t = tid" using other [OF b] by simp
      with True st show ?thesis by simp
    next
      case False
      then have "t \<noteq> tid" using other [OF b] by simp
      with False running_okD [OF inv b] show ?thesis by simp
    qed
  qed
  moreover have "dlq_ok ?q"
    unfolding dlq_ok_def
  proof (intro allI impI)
    fix t b assume "dict_get (tasks ?q) t = Some b \<and> te_status (objs ?q b) = DEAD_LETTERED"
    then have b: "dict_get (tasks q) t = Some b" and "te_status (objs ?q b) = DEAD_LETTERED" by auto
    then show "dict_get (dead_letter ?q) t = Some b"
      using other [OF b] binvD(6) [OF inv, unfolded dlq_ok_def] by (cases "b = a") auto
  qed
  moreover have "entries_ok ?q"
    by (rule entries_upd [OF binvD(7) [OF inv] f]) simp_all
  moreover have "cancelled_ok ?q" using binvD(8) [OF inv] by (simp add: cancelled_ok_def)
  moreover have "pending_ok B ?q"
  proof (rule pending_okI)
    fix t b assume b: "dict_get (tasks ?q) t = Some b" "te_status (objs ?q b) \<in> waiting"
      "t \<notin> cancelled ?q" "b \<notin> B"
    then have "b \<noteq> a" using B(2) by auto
    moreover from this b B(1) have "has_entry q b"
      using pending_okD [OF binvD(9) [OF inv], of t b] by auto
    ultimately show "has_entry ?q b" by (rule_tac has_entry_other) simp_all
  qed
  ultimately show ?thesis by (simp add: binv_def)
qed

lemma pop_or_get_inv:
  assumes "binv A q"
  shows "pop_or_get tid q = (dict_get (tasks q) tid, q\<lparr>inflight := dict_del tid (inflight q)\<rparr>)"
proof (cases "dict_get (inflight q) tid")
  case None
  then show ?thesis by (simp add: pop_or_get_def dict_del_fresh)
next
  case (Some a)
  then show ?thesis using binvD(4) [OF assms] by (simp add: pop_or_get_def alias_ok_def)
qed

lemma del_inflight_unknown: "binv A q \<Longrightarrow> dict_get (tasks q) tid = None \<Longrightarrow> dict_del tid (inflight q) = inflight q"
  using binvD(4) [of A q] by (intro dict_del_fresh) (auto simp: alias_ok_def, metis not_None_eq option.distinct(1))

lemma cancelled_inv:
  assumes inv: "binv A q" and t: "dict_get (tasks q) tid \<noteq> None"
  shows "binv A (q\<lparr>cancelled := insert tid (cancelled q)\<rparr>)" (is "binv A ?q")
proof -
  have "pending_ok A ?q"
    using pending_okD [OF binvD(9) [OF inv]] by (intro pending_okI) (auto simp: has_entry_def)
  moreover have "cancelled_ok ?q" using binvD(8) [OF inv] t by (auto simp: cancelled_ok_def)
  moreover have "dicts_ok ?q = dicts_ok q" "heaps_ok ?q = heaps_ok q" "ids_ok ?q = ids_ok q"
    "alias_ok ?q = alias_ok q" "running_ok ?q = running_ok q" "dlq_ok ?q = dlq_ok q"
    "entries_ok ?q = entries_ok q"
    by (simp_all add: dicts_ok_def heaps_ok_def ids_ok_def alias_ok_def running_ok_def dlq_ok_def
        entries_ok_def entry_ok_def)
  ultimately show ?thesis using inv by (simp add: binv_def)
qed

section \<open>Each operation as an update\<close>

lemma ack_eq:
  "binv A q \<Longrightarrow> ack tid q = (case dict_get (tasks q) tid of
     None \<Rightarrow> (Inl (TaskNotFoundError tid), q)
   | Some a \<Rightarrow> (Inr a, settle a tid (\<lambda>t. t\<lparr>te_status := ACKED, te_lease_deadline := None\<rparr>) q))"
  by (simp add: ack_def pop_or_get_inv del_inflight_unknown settle_def upd_obj_def split: option.split)

lemma complete_eq:
  "binv A q \<Longrightarrow> complete tid status error q = (case dict_get (tasks q) tid of
     None \<Rightarrow> (Inl (TaskNotFoundError tid), q)
   | Some a \<Rightarrow> (Inr a, settle a tid
       (\<lambda>t. t\<lparr>te_status := status, te_last_error := error, te_lease_deadline := None\<rparr>) q))"
  by (simp add: complete_def pop_or_get_inv del_inflight_unknown settle_def upd_obj_def Let_def split: option.split)

text \<open>The object after a retry, and whether the retry budget is spent.\<close>

definition exhausted :: "task_envelope \<Rightarrow> bool" where
  "exhausted t \<longleftrightarrow> te_attempts t + 1 > ts_max_retries (te_spec t)"

definition retried :: "seconds \<Rightarrow> string \<Rightarrow> task_envelope \<Rightarrow> task_envelope" where
  "retried now reason t =
     (if exhausted t
      then t\<lparr>te_attempts := te_attempts t + 1, te_last_error := Some reason, te_assigned_worker := None,
             te_lease_deadline := None, te_status := DEAD_LETTERED\<rparr>
      else t\<lparr>te_attempts := te_attempts t + 1, te_last_error := Some reason, te_assigned_worker := None,
             te_lease_deadline := None, te_status := RETRYING,
             te_available_at := now + ts_retry_backoff_seconds (te_spec t) * of_int (te_attempts t + 1)\<rparr>)"

lemma keeps_identity_retried [simp]: "keeps_identity (retried now reason)"
  by (simp add: keeps_identity_def retried_def)

lemma retry_eq:
  assumes "binv A q"
  shows "retry clk tid reason q = (case dict_get (tasks q) tid of
     None \<Rightarrow> (Inl (TaskNotFoundError tid), q)
   | Some a \<Rightarrow> (Inr a,
       let q1 = settle a tid (retried (clk 0) reason) q
       in if exhausted (objs q a) then q1 else push (clk 1) a q1))"
proof (cases "dict_get (tasks q) tid")
  case None
  then show ?thesis using assms by (simp add: retry_def pop_or_get_inv del_inflight_unknown)
next
  case (Some a)
  then have "te_task_id (objs q a) = tid" by (rule task_id_of [OF assms])
  with Some assms show ?thesis
    by (simp add: retry_def pop_or_get_inv settle_def upd_obj_def Let_def retried_def exhausted_def)
qed

lemma cancel_eq:
  "binv A q \<Longrightarrow> cancel tid q = (case dict_get (tasks q) tid of
     None \<Rightarrow> (Inl (TaskNotFoundError tid), q)
   | Some a \<Rightarrow> (Inr a, (settle a tid (\<lambda>t. t\<lparr>te_status := CANCELLED\<rparr>) q)
                        \<lparr>cancelled := insert tid (cancelled q)\<rparr>))"
  by (simp add: cancel_def settle_def upd_obj_def split: option.split)

lemma settle_status_inv:
  assumes "broker_inv q" "dict_get (tasks q) tid = Some a" "keeps_identity f"
    and "te_status (f (objs q a)) \<in> {ACKED, SUCCEEDED, FAILED, CANCELLED, DEAD_LETTERED}"
  shows "broker_inv (settle a tid f q)"
  using assms by (intro settle_inv [OF assms(1-3)]) (auto simp: waiting_def)

lemma ack_inv [keeps_inv]: "broker_inv q \<Longrightarrow> broker_inv (snd (ack tid q))"
  by (auto simp: ack_eq keeps_identity_def intro!: settle_status_inv split: option.split)

lemma complete_inv [keeps_inv]:
  "broker_inv q \<Longrightarrow> status \<in> terminal \<Longrightarrow> broker_inv (snd (complete tid status error q))"
  by (auto simp: complete_eq keeps_identity_def terminal_def intro!: settle_status_inv split: option.split)

lemma cancel_inv [keeps_inv]: "broker_inv q \<Longrightarrow> broker_inv (snd (cancel tid q))"
proof (cases "dict_get (tasks q) tid")
  case (Some a)
  assume inv: "broker_inv q"
  have "broker_inv (settle a tid (\<lambda>t. t\<lparr>te_status := CANCELLED\<rparr>) q)"
    by (rule settle_status_inv [OF inv Some]) (simp_all add: keeps_identity_def)
  from cancelled_inv [OF this, of tid] Some inv show ?thesis by (simp add: cancel_eq)
qed (simp add: cancel_eq)

lemma retry_inv [keeps_inv]: "broker_inv q \<Longrightarrow> broker_inv (snd (retry clk tid reason q))"
proof (cases "dict_get (tasks q) tid")
  case (Some a)
  assume inv: "broker_inv q"
  let ?q = "settle a tid (retried (clk 0) reason) q"
  show ?thesis
  proof (cases "exhausted (objs q a)")
    case True
    then have "broker_inv ?q" by (intro settle_status_inv [OF inv Some]) (simp_all add: retried_def)
    with True Some inv show ?thesis by (simp add: retry_eq)
  next
    case False
    then have "binv {a} ?q" by (intro settle_inv [OF inv Some]) (simp_all add: retried_def)
    then have "broker_inv (push (clk 1) a ?q)"
      using Some task_id_of [OF inv Some] by (intro push_inv) (simp_all add: retried_def)
    with False Some inv show ?thesis by (simp add: retry_eq Let_def)
  qed
qed (simp add: retry_eq)

end
