(* ===== verification/Broker_Reserve.thy ===== *)
theory Broker_Reserve
  imports Broker_Inv
begin

text \<open>
  What \<open>_pop_eligible_locked\<close> and \<open>reserve\<close> compute.  The scan over the heaps is described by
  multisets: the entries of cancelled tasks disappear, the candidates are the entries the worker may
  run, and the best candidate is the least one in the order of Python's tuples.
\<close>

section \<open>The scan of the ready heaps\<close>

definition runnable :: "broker \<Rightarrow> worker_info \<Rightarrow> string set \<Rightarrow> ready_entry \<Rightarrow> bool" where
  "runnable q w completed e \<longleftrightarrow> entry_id e \<notin> cancelled q \<and>
     (case dict_get (tasks q) (entry_id e) of
        None \<Rightarrow> False
      | Some a \<Rightarrow> accepts w (objs q a) \<and> ts_depends_on (te_spec (objs q a)) \<subseteq> completed)"

definition live_entry :: "broker \<Rightarrow> ready_entry \<Rightarrow> bool" where
  "live_entry q e \<longleftrightarrow> entry_id e \<notin> cancelled q"

lemma scan_queue_spec:
  assumes "\<forall>e \<in> set queue. dict_get (tasks q) (entry_id e) \<noteq> None"
  shows "\<exists>ret cs. scan_queue q w completed queue retained cands = (Inr (retained @ ret, cands @ cs), []) \<and>
    mset ret = filter_mset (live_entry q) (mset queue) \<and>
    set cs = {e \<in> set queue. runnable q w completed e}"
  using assms
proof (induction q w completed queue retained cands rule: scan_queue.induct)
  case (1 q w completed queue retained cands)
  show ?case
  proof (cases "queue = []")
    case True
    then show ?thesis by (subst scan_queue.simps) auto
  next
    case False
    obtain c rest where pop: "heappop queue = (c, rest)" by fastforce
    have set_q: "set queue = insert c (set rest)" and mset_q: "mset queue = add_mset c (mset rest)"
      using hq.pop_set [OF False] hq.mset_pop [OF False] pop by simp_all
    from "1.prems" set_q obtain a where a: "dict_get (tasks q) (entry_id c) = Some a" by auto
    show ?thesis
    proof (cases "entry_id c \<in> cancelled q")
      case True
      with "1.IH"(1) [OF False pop [symmetric] refl refl] "1.prems" set_q
      obtain ret cs where "scan_queue q w completed rest retained cands = (Inr (retained @ ret, cands @ cs), [])"
        "mset ret = filter_mset (live_entry q) (mset rest)" "set cs = {e \<in> set rest. runnable q w completed e}"
        by auto
      moreover from True have "\<not> live_entry q c" "\<not> runnable q w completed c"
        by (simp_all add: live_entry_def runnable_def)
      ultimately show ?thesis
        using False pop True by (subst scan_queue.simps) (auto simp: mset_q set_q Let_def)
    next
      case nc: False
      let ?cs = "if accepts w (objs q a) \<and> ts_depends_on (te_spec (objs q a)) \<subseteq> completed
        then cands @ [c] else cands"
      from "1.IH"(2) [OF False pop [symmetric] refl refl nc a] "1.prems" set_q
      obtain ret cs where rec: "scan_queue q w completed rest (retained @ [c]) ?cs =
          (Inr ((retained @ [c]) @ ret, ?cs @ cs), [])"
        "mset ret = filter_mset (live_entry q) (mset rest)" "set cs = {e \<in> set rest. runnable q w completed e}"
        by auto
      have r: "runnable q w completed c \<longleftrightarrow>
          accepts w (objs q a) \<and> ts_depends_on (te_spec (objs q a)) \<subseteq> completed"
        using nc a by (simp add: runnable_def)
      have l: "live_entry q c" using nc by (simp add: live_entry_def)
      have unf: "scan_queue q w completed queue retained cands =
          scan_queue q w completed rest (retained @ [c]) ?cs"
        using False pop nc a by (subst scan_queue.simps) (simp add: Let_def)
      show ?thesis
      proof (cases "runnable q w completed c")
        case True
        then have "{e \<in> set queue. runnable q w completed e} = insert c (set cs)"
          unfolding rec(3) set_q by blast
        with True rec(1,2) unf r l show ?thesis
          by (intro exI [of _ "c # ret"] exI [of _ "c # cs"]) (simp add: mset_q)
      next
        case False
        then have "{e \<in> set queue. runnable q w completed e} = set cs"
          unfolding rec(3) set_q by blast
        with False rec(1,2) unf r l show ?thesis
          by (intro exI [of _ "c # ret"] exI [of _ cs]) (simp add: mset_q)
      qed
    qed
  qed
qed

definition heaps_known :: "broker \<Rightarrow> bool" where
  "heaps_known q \<longleftrightarrow> dict_ok (ready q) \<and> (\<forall>k. is_heap (dd_get (ready q) k)) \<and>
     (\<forall>k. \<forall>e \<in> set (dd_get (ready q) k). dict_get (tasks q) (entry_id e) \<noteq> None)"

lemma heaps_knownI: "binv A q \<Longrightarrow> heaps_known q"
proof -
  assume inv: "binv A q"
  have "dict_get (tasks q) (entry_id e) \<noteq> None" if "e \<in> set (dd_get (ready q) k)" for k e
  proof -
    have "entry_ok q k e" using that binvD(7) [OF inv] unfolding entries_ok_def by blast
    then show ?thesis by (auto simp: entry_ok_def)
  qed
  with binvD(1,2) [OF inv] show ?thesis
    unfolding heaps_known_def dicts_ok_def heaps_ok_def by blast
qed

text \<open>The heaps after the scan of the queues in \<open>K\<close>.\<close>

definition scanned :: "string set \<Rightarrow> broker \<Rightarrow> broker \<Rightarrow> bool" where
  "scanned K q q' \<longleftrightarrow> (\<exists>r. q' = q\<lparr>ready := r\<rparr>) \<and> heaps_known q' \<and>
     (\<forall>k. mset (dd_get (ready q') k) =
            (if k \<in> K then filter_mset (live_entry q) (mset (dd_get (ready q) k))
             else mset (dd_get (ready q) k)))"

lemma scanned_fields:
  assumes "scanned K q q'"
  shows "max_depth q' = max_depth q" "delayed q' = delayed q" "tasks q' = tasks q"
    "inflight q' = inflight q" "dead_letter q' = dead_letter q" "cancelled q' = cancelled q"
    "sequence q' = sequence q" "objs q' = objs q"
  using assms by (auto simp: scanned_def)

lemma scanned_preds:
  assumes "scanned K q q'"
  shows "runnable q' w completed = runnable q w completed" "live_entry q' = live_entry q"
  unfolding fun_eq_iff runnable_def live_entry_def scanned_fields [OF assms] by simp_all

lemma scanned_set:
  assumes "scanned K q q'"
  shows "set (dd_get (ready q') k) =
    (if k \<in> K then {e \<in> set (dd_get (ready q) k). live_entry q e} else set (dd_get (ready q) k))"
proof -
  have "set_mset (mset (dd_get (ready q') k)) = set_mset
      (if k \<in> K then filter_mset (live_entry q) (mset (dd_get (ready q) k)) else mset (dd_get (ready q) k))"
    using assms by (simp add: scanned_def)
  then show ?thesis by (simp split: if_splits)
qed

lemma scanned_refl: "heaps_known q \<Longrightarrow> scanned {} q q"
  by (auto simp: scanned_def intro: exI [of _ "ready q"])

lemma scanned_trans:
  assumes "scanned K q q1" "scanned L q1 q2"
  shows "scanned (K \<union> L) q q2"
proof -
  from assms obtain r where "q2 = q\<lparr>ready := r\<rparr>" by (auto simp: scanned_def)
  then show ?thesis
    using assms scanned_preds(2) [OF assms(1)]
    by (auto simp: scanned_def filter_filter_mset intro!: exI [of _ r])
qed

lemma scan_one:
  assumes "heaps_known q" and ret: "mset ret = filter_mset (live_entry q) (mset (dd_get (ready q) k))"
  shows "scanned {k} q (q\<lparr>ready := dict_set k (fold heappush ret []) (ready q)\<rparr>)" (is "scanned _ _ ?q")
proof -
  have m: "mset (dd_get (ready ?q) j) = (if j \<in> {k} then filter_mset (live_entry q) (mset (dd_get (ready q) j))
      else mset (dd_get (ready q) j))" for j
    using ret by (simp add: hq.mset_push_all)
  have sub: "set (dd_get (ready ?q) j) \<subseteq> set (dd_get (ready q) j)" for j
    using arg_cong [OF m [of j], of set_mset] by (auto split: if_splits)
  have "dict_get (tasks ?q) (entry_id e) \<noteq> None" if "e \<in> set (dd_get (ready ?q) j)" for j e
    using subsetD [OF sub that] assms(1) by (simp add: heaps_known_def)
  then have "heaps_known ?q"
    using assms(1) by (simp add: heaps_known_def hq.invar_push_all hq.invar_Nil)
  with m show ?thesis by (auto simp: scanned_def)
qed

lemma scan_skip:
  assumes "heaps_known q" "dd_get (ready q) k = []"
  shows "scanned {k} q q"
  using assms by (auto simp: scanned_def intro: exI [of _ "ready q"])

lemma scan_queues_spec:
  assumes "heaps_known q"
  shows "\<exists>cs q'. scan_queues w completed order cands q = (Inr (cands @ cs), q') \<and> scanned (set order) q q' \<and>
    set cs = {(e, k). k \<in> set order \<and> e \<in> set (dd_get (ready q) k) \<and> runnable q w completed e}"
  using assms
proof (induction order arbitrary: cands q)
  case Nil
  then show ?case by (auto simp: scanned_refl)
next
  case (Cons k ks)
  have live: "runnable q w completed e \<Longrightarrow> live_entry q e" for e
    by (simp add: runnable_def live_entry_def)
  show ?case
  proof (cases "dd_get (ready q) k = []")
    case True
    from Cons.IH [OF Cons.prems, of cands] obtain cs q' where
      "scan_queues w completed ks cands q = (Inr (cands @ cs), q')" "scanned (set ks) q q'"
      "set cs = {(e, k). k \<in> set ks \<and> e \<in> set (dd_get (ready q) k) \<and> runnable q w completed e}" by blast
    with True scanned_trans [OF scan_skip [OF Cons.prems True], of "set ks" q']
    show ?thesis by (auto simp: Let_def)
  next
    case False
    let ?queue = "dd_get (ready q) k"
    have "\<forall>e \<in> set ?queue. dict_get (tasks q) (entry_id e) \<noteq> None"
      using Cons.prems by (simp add: heaps_known_def)
    from scan_queue_spec [OF this, of w completed "[]" "[]"] obtain ret cs1 where
      scan: "scan_queue q w completed ?queue [] [] = (Inr (ret, cs1), [])"
      and ret: "mset ret = filter_mset (live_entry q) (mset ?queue)"
      and cs1: "set cs1 = {e \<in> set ?queue. runnable q w completed e}" by auto
    let ?q = "q\<lparr>ready := dict_set k (fold heappush ret []) (ready q)\<rparr>"
    have sc: "scanned {k} q ?q" by (rule scan_one [OF Cons.prems ret])
    then have "heaps_known ?q" by (simp add: scanned_def)
    from Cons.IH [OF this, of "cands @ map (\<lambda>c. (c, k)) cs1"] obtain cs2 q' where
      rec: "scan_queues w completed ks (cands @ map (\<lambda>c. (c, k)) cs1) ?q =
        (Inr ((cands @ map (\<lambda>c. (c, k)) cs1) @ cs2), q')"
      and sc2: "scanned (set ks) ?q q'"
      and cs2: "set cs2 = {(e, j). j \<in> set ks \<and> e \<in> set (dd_get (ready ?q) j) \<and> runnable ?q w completed e}"
      by blast
    have "scan_queues w completed (k # ks) cands q = (Inr (cands @ (map (\<lambda>c. (c, k)) cs1 @ cs2)), q')"
      using False scan rec by (simp add: Let_def)
    moreover have "scanned (set (k # ks)) q q'" using scanned_trans [OF sc sc2] by simp
    moreover have "set (map (\<lambda>c. (c, k)) cs1 @ cs2) =
        {(e, j). j \<in> set (k # ks) \<and> e \<in> set (dd_get (ready q) j) \<and> runnable q w completed e}"
      unfolding set_append cs2 scanned_preds(1) [OF sc] scanned_set [OF sc]
      using cs1 live by (auto split: if_splits)
    ultimately show ?thesis by blast
  qed
qed

section \<open>The choice of the best candidate\<close>

text \<open>The entries that \<open>worker\<close> may run, over all its queues.\<close>

definition candidates :: "string set \<Rightarrow> broker \<Rightarrow> worker_info \<Rightarrow> string set \<Rightarrow> ready_entry set" where
  "candidates K q w completed = {e. \<exists>k \<in> K. e \<in> set (dd_get (ready q) k) \<and> runnable q w completed e}"

text \<open>Taking one entry out of one heap.\<close>

definition take_entry :: "string \<Rightarrow> ready_entry \<Rightarrow> broker \<Rightarrow> broker" where
  "take_entry k e q = q\<lparr>ready := dict_set k (heapify (remove1 e (dd_get (ready q) k))) (ready q)\<rparr>"

lemma pop_eligible_spec:
  assumes known: "heaps_known q"
  obtains (none) q1 where "pop_eligible order w completed q = (Inr None, q1)" "scanned (set order) q q1"
      "candidates (set order) q w completed = {}"
  | (some) q1 e k a where
      "pop_eligible order w completed q = (Inr (Some a), take_entry k e q1)" "scanned (set order) q q1"
      "k \<in> set order" "e \<in> set (dd_get (ready q) k)" "runnable q w completed e"
      "dict_get (tasks q) (entry_id e) = Some a"
      "\<And>e'. e' \<in> candidates (set order) q w completed \<Longrightarrow> e \<le> e'"
proof -
  from scan_queues_spec [OF known, of w completed order "[]"] obtain cs q1 where
    scan: "scan_queues w completed order [] q = (Inr cs, q1)" and sc: "scanned (set order) q q1"
    and cs: "set cs = {(e, k). k \<in> set order \<and> e \<in> set (dd_get (ready q) k) \<and> runnable q w completed e}"
    by auto
  show ?thesis
  proof (cases "cs = []")
    case True
    with cs have "{(e, k). k \<in> set order \<and> e \<in> set (dd_get (ready q) k) \<and> runnable q w completed e} = {}"
      by simp
    then have "candidates (set order) q w completed = {}" unfolding candidates_def by blast
    with True scan sc show ?thesis by (intro none [of q1]) (simp_all add: pop_eligible_def)
  next
    case False
    obtain e k where best: "arg_min_list fst cs = (e, k)" by fastforce
    have in_cs: "(e, k) \<in> set cs" using arg_min_list_in [OF False, of fst] best by simp
    have least: "e \<le> e'" if "(e', k') \<in> set cs" for e' k'
    proof -
      have "e = Min (fst ` set cs)" using f_arg_min_list_f [OF False, of fst] best by simp
      also have "\<dots> \<le> e'" using that by (intro Min_le) force+
      finally show ?thesis .
    qed
    from in_cs cs have e: "k \<in> set order" "e \<in> set (dd_get (ready q) k)" "runnable q w completed e" by auto
    then obtain a where a: "dict_get (tasks q) (entry_id e) = Some a"
      by (auto simp: runnable_def split: option.splits)
    have "pop_eligible order w completed q = (Inr (Some a), take_entry k e q1)"
      using False scan best a scanned_fields(3) [OF sc]
      by (simp add: pop_eligible_def take_entry_def Let_def)
    moreover have "e \<le> e'" if "e' \<in> candidates (set order) q w completed" for e'
    proof -
      from that cs obtain k' where "(e', k') \<in> set cs" unfolding candidates_def by blast
      then show ?thesis by (rule least)
    qed
    ultimately show ?thesis using sc e a by (intro some) auto
  qed
qed

lemma entries_subset:
  assumes "entries_ok q" and sub: "\<And>k. set (dd_get (ready q') k) \<subseteq> set (dd_get (ready q) k)"
    and same: "delayed q' = delayed q" "tasks q' = tasks q" "sequence q' = sequence q" "objs q' = objs q"
  shows "entries_ok q'"
proof -
  have "entry_ok q' k e \<longleftrightarrow> entry_ok q k e" for k e unfolding entry_ok_def same ..
  moreover have "entry_ok q k e" if "e \<in> set (dd_get (ready q') k)" for k e
    using assms(1) subsetD [OF sub that] unfolding entries_ok_def by blast
  moreover have "\<forall>e \<in> set (delayed q). dict_get (tasks q) (delayed_id e) \<noteq> None \<and> fst (snd e) \<le> sequence q"
    using assms(1) unfolding entries_ok_def by blast
  ultimately show ?thesis unfolding entries_ok_def same by blast
qed

text \<open>The scan and the removal keep the invariant, but for the entry of the chosen task.\<close>

lemma scanned_inv:
  assumes inv: "binv A q" and sc: "scanned K q q1"
  shows "binv A q1"
proof -
  note same = scanned_fields [OF sc] and sets = scanned_set [OF sc]
  have "entries_ok q1"
    by (rule entries_subset [OF binvD(7) [OF inv]]) (auto simp: same sets split: if_splits)
  moreover have "heaps_ok q1"
    using binvD(2) [OF inv] sc same by (simp add: heaps_ok_def scanned_def heaps_known_def)
  moreover have "dict_ok (ready q1)" using sc by (simp add: scanned_def heaps_known_def)
  moreover have "pending_ok A q1"
  proof (rule pending_okI)
    fix tid a assume a: "dict_get (tasks q1) tid = Some a" "te_status (objs q1 a) \<in> waiting"
      "tid \<notin> cancelled q1" "a \<notin> A"
    then have a': "dict_get (tasks q) tid = Some a" "tid \<notin> cancelled q" by (simp_all add: same)
    then have "has_entry q a"
      using pending_okD [OF binvD(9) [OF inv] a'(1) _ a'(2) a(4)] a(2) by (simp add: same)
    then show "has_entry q1 a"
      using task_id_of [OF inv a'(1)] a'(2) by (auto simp: has_entry_def same sets live_entry_def)
  qed
  ultimately show ?thesis by (intro binv_heap_step [OF inv]) (simp_all add: same)
qed

lemma take_entry_fields [simp]:
  "max_depth (take_entry k e q) = max_depth q" "delayed (take_entry k e q) = delayed q"
  "tasks (take_entry k e q) = tasks q" "inflight (take_entry k e q) = inflight q"
  "dead_letter (take_entry k e q) = dead_letter q" "cancelled (take_entry k e q) = cancelled q"
  "sequence (take_entry k e q) = sequence q" "objs (take_entry k e q) = objs q"
  by (simp_all add: take_entry_def)

lemma set_heapify [simp]: "set (heapify xs) = set xs"
  by (rule mset_eq_setD) (rule hq.mset_build)

lemma set_take_entry: "set (dd_get (ready (take_entry k e q)) j) \<subseteq> set (dd_get (ready q) j)"
  using set_remove1_subset [of e] by (auto simp: take_entry_def split: if_splits)

lemma set_take_entry_other:
  "e' \<noteq> e \<Longrightarrow> e' \<in> set (dd_get (ready (take_entry k e q)) j) \<longleftrightarrow> e' \<in> set (dd_get (ready q) j)"
  by (auto simp: take_entry_def)

lemma take_entry_inv:
  assumes inv: "binv A q" and a: "dict_get (tasks q) (entry_id e) = Some a"
  shows "binv (insert a A) (take_entry k e q)" (is "binv _ ?q")
proof -
  have "entries_ok ?q"
    by (rule entries_subset [OF binvD(7) [OF inv] set_take_entry]) simp_all
  moreover have "heaps_ok ?q"
    using binvD(2) [OF inv] by (simp add: heaps_ok_def take_entry_def hq.invar_build)
  moreover have "dict_ok (ready ?q)" using binvD(1) [OF inv] by (simp add: dicts_ok_def take_entry_def)
  moreover have "pending_ok (insert a A) ?q"
  proof (rule pending_okI)
    fix tid b assume b: "dict_get (tasks ?q) tid = Some b" "te_status (objs ?q b) \<in> waiting"
      "tid \<notin> cancelled ?q" "b \<notin> insert a A"
    then have "has_entry q b" using pending_okD [OF binvD(9) [OF inv], of tid b] by simp
    moreover have "entry_id e' \<noteq> te_task_id (objs q b) \<or> e' \<noteq> e" for e'
      using a b task_id_of [OF inv, of tid b] by auto
    ultimately show "has_entry ?q b"
      unfolding has_entry_def take_entry_fields by (metis set_take_entry_other)
  qed
  ultimately show ?thesis by (intro binv_heap_step [OF inv]) simp_all
qed

end
