(* ===== verification/Broker_Steps.thy ===== *)
theory Broker_Steps
  imports Broker_Reserve
begin

text \<open>
  The broker as a transition system.  Each public method is one step; a run interleaves the methods
  of any number of threads in any order, because the condition's lock makes each of them atomic.
  Every step keeps the invariant, so it holds in every reachable state.
\<close>

section \<open>Dispatching and polling\<close>

definition dispatch :: "addr \<Rightarrow> string \<Rightarrow> seconds \<Rightarrow> broker \<Rightarrow> broker" where
  "dispatch a wid deadline q =
     (upd_obj a (\<lambda>t. t\<lparr>te_status := RUNNING, te_assigned_worker := Some wid,
                       te_lease_deadline := Some deadline\<rparr>) q)
       \<lparr>inflight := dict_set (te_task_id (objs q a)) a (inflight q)\<rparr>"

lemma dispatch_fields [simp]:
  "max_depth (dispatch a wid d q) = max_depth q" "ready (dispatch a wid d q) = ready q"
  "delayed (dispatch a wid d q) = delayed q" "tasks (dispatch a wid d q) = tasks q"
  "dead_letter (dispatch a wid d q) = dead_letter q" "cancelled (dispatch a wid d q) = cancelled q"
  "sequence (dispatch a wid d q) = sequence q"
  "inflight (dispatch a wid d q) = dict_set (te_task_id (objs q a)) a (inflight q)"
  "objs (dispatch a wid d q) = (objs q)(a := (objs q a)\<lparr>te_status := RUNNING,
     te_assigned_worker := Some wid, te_lease_deadline := Some d\<rparr>)"
  by (simp_all add: dispatch_def)

lemma dispatch_inv [keeps_inv]:
  assumes inv: "binv {a} q" and a: "dict_get (tasks q) tid = Some a"
  shows "broker_inv (dispatch a wid d q)" (is "broker_inv ?q")
proof -
  have id_a: "te_task_id (objs q a) = tid" by (rule task_id_of [OF inv a])
  have other: "b = a \<longleftrightarrow> t = tid" if "dict_get (tasks q) t = Some b" for t b
    using that a tasks_inj [OF inv] by (metis option.inject)
  have "dicts_ok ?q" using binvD(1) [OF inv] by (simp add: dicts_ok_def)
  moreover have "heaps_ok ?q" using binvD(2) [OF inv] by (simp add: heaps_ok_def)
  moreover have "ids_ok ?q" using binvD(3) [OF inv] by (auto simp: ids_ok_def)
  moreover have "alias_ok ?q"
    using binvD(4) [OF inv] a id_a by (auto simp: alias_ok_def split: if_splits)
  moreover have "running_ok ?q"
    unfolding running_ok_def
  proof (intro allI impI)
    fix t b assume "dict_get (tasks ?q) t = Some b"
    then have b: "dict_get (tasks q) t = Some b" by simp
    show "(te_status (objs ?q b) = RUNNING) = (dict_get (inflight ?q) t = Some b) \<and>
      (te_status (objs ?q b) = RUNNING \<longrightarrow>
         te_assigned_worker (objs ?q b) \<noteq> None \<and> te_lease_deadline (objs ?q b) \<noteq> None) \<and>
      te_status (objs ?q b) \<noteq> PENDING"
    proof (cases "b = a")
      case True
      then have "t = tid" using other [OF b] by simp
      with True id_a show ?thesis by simp
    next
      case False
      then have "t \<noteq> tid" using other [OF b] by simp
      with False id_a running_okD [OF inv b] show ?thesis by simp
    qed
  qed
  moreover have "dlq_ok ?q"
    using binvD(6) [OF inv] by (auto simp: dlq_ok_def)
  moreover have "entries_ok ?q"
    by (rule entries_upd [OF binvD(7) [OF inv]]) (simp_all add: keeps_identity_def)
  moreover have "cancelled_ok ?q" using binvD(8) [OF inv] by (simp add: cancelled_ok_def)
  moreover have "pending_ok {} ?q"
  proof (rule pending_okI)
    fix t b assume b: "dict_get (tasks ?q) t = Some b" "te_status (objs ?q b) \<in> waiting" "t \<notin> cancelled ?q"
    then have ne: "b \<noteq> a" by (auto simp: waiting_def)
    with b have "has_entry q b" using pending_okD [OF binvD(9) [OF inv], of t b] by simp
    then show "has_entry ?q b" by (rule has_entry_other [OF _ ne]) simp_all
  qed
  ultimately show ?thesis by (simp add: binv_def)
qed

lemma reserve_poll_cases:
  fixes clk :: clock
  assumes inv: "broker_inv q"
  obtains (none) q1 where "reserve_poll clk order w completed lease q = (Inr None, q1)"
      "scanned (set order) (promote_delayed (clk 0) q) q1" "broker_inv q1" "candidates (set order) (promote_delayed (clk 0) q) w completed = {}"
  | (some) q1 e k a where
      "reserve_poll clk order w completed lease q =
         (Inr (Some a), dispatch a (wi_worker_id w) (clk 1 + lease) (take_entry k e q1))"
      "scanned (set order) (promote_delayed (clk 0) q) q1" "k \<in> set order" "e \<in> set (dd_get (ready (promote_delayed (clk 0) q)) k)"
      "runnable (promote_delayed (clk 0) q) w completed e" "dict_get (tasks q) (entry_id e) = Some a"
      "\<And>e'. e' \<in> candidates (set order) (promote_delayed (clk 0) q) w completed \<Longrightarrow> e \<le> e'"
      "broker_inv (dispatch a (wi_worker_id w) (clk 1 + lease) (take_entry k e q1))"
proof -
  define p where "p = promote_delayed (clk 0) q"
  have inv_p: "broker_inv p" unfolding p_def by (rule promote_delayed_inv [OF inv])
  have known: "heaps_known p" by (rule heaps_knownI [OF inv_p])
  have tasks_p: "tasks p = tasks q" by (simp add: p_def)
  from known show ?thesis
  proof (cases rule: pop_eligible_spec [of p order w completed])
    case (none q1)
    have "reserve_poll clk order w completed lease q = (Inr None, q1)"
      using none(1) by (simp add: reserve_poll_def p_def)
    with none(2,3) scanned_inv [OF inv_p none(2)] show ?thesis unfolding p_def by (intro that(1))
  next
    case (some q1 e k a)
    let ?q2 = "take_entry k e q1"
    have a1: "dict_get (tasks q1) (entry_id e) = Some a"
      using some(6) scanned_fields(3) [OF some(2)] by simp
    have "binv {a} ?q2" by (rule take_entry_inv [OF scanned_inv [OF inv_p some(2)] a1])
    then have fin: "broker_inv (dispatch a (wi_worker_id w) (clk 1 + lease) ?q2)"
      by (rule dispatch_inv) (use a1 in simp)
    have "reserve_poll clk order w completed lease q =
        (Inr (Some a), dispatch a (wi_worker_id w) (clk 1 + lease) ?q2)"
      using some(1) by (simp add: reserve_poll_def p_def dispatch_def Let_def upd_obj_def)
    with fin some(2-7) tasks_p show ?thesis unfolding p_def by (intro that(2)) simp_all
  qed
qed

lemma reserve_poll_inv [keeps_inv]:
  assumes "broker_inv q"
  shows "broker_inv (snd (reserve_poll clk order w completed lease q))"
  by (cases rule: reserve_poll_cases [OF assms, of clk order w completed lease]) simp_all

lemma reserve_poll_no_error:
  assumes "broker_inv q"
  shows "\<exists>r q'. reserve_poll clk order w completed lease q = (Inr r, q')"
  by (cases rule: reserve_poll_cases [OF assms, of clk order w completed lease]) simp_all

lemma reserve_poll_tasks [frame_simps]:
  assumes "broker_inv q"
  shows "tasks (snd (reserve_poll clk order w completed lease q)) = tasks q"
    "cancelled (snd (reserve_poll clk order w completed lease q)) = cancelled q"
    "max_depth (snd (reserve_poll clk order w completed lease q)) = max_depth q"
    "dead_letter (snd (reserve_poll clk order w completed lease q)) = dead_letter q"
  by (cases rule: reserve_poll_cases [OF assms, of clk order w completed lease];
      simp add: scanned_fields)+

section \<open>Creating and admitting a task\<close>

lemma alloc_inv [keeps_inv]:
  assumes inv: "binv A q" and a: "a \<notin> ran (map_of (tasks q))"
  shows "binv A (q\<lparr>objs := (objs q)(a := t)\<rparr>)" (is "binv A ?q")
proof -
  have old: "b \<noteq> a" if "dict_get (tasks q) i = Some b" for i b
    using that a by (auto simp: ran_def)
  have same: "objs ?q b = objs q b" if "dict_get (tasks q) i = Some b" for i b
    using old [OF that] by simp
  have "ids_ok ?q" using binvD(3) [OF inv] same by (simp add: ids_ok_def old)
  moreover have "running_ok ?q" using binvD(5) [OF inv] old unfolding running_ok_def by fastforce
  moreover have "dlq_ok ?q" using binvD(6) [OF inv] old unfolding dlq_ok_def by fastforce
  moreover have "entries_ok ?q"
  proof -
    have "entry_ok ?q k e" if "entry_ok q k e" for k e
      using that old by (auto simp: entry_ok_def)
    then show ?thesis using binvD(7) [OF inv] by (simp add: entries_ok_def)
  qed
  moreover have "pending_ok A ?q"
  proof (rule pending_okI)
    fix i b assume b: "dict_get (tasks ?q) i = Some b" "te_status (objs ?q b) \<in> waiting"
      "i \<notin> cancelled ?q" "b \<notin> A"
    then have ne: "b \<noteq> a" using old by simp
    with b have "has_entry q b" using pending_okD [OF binvD(9) [OF inv], of i b] by simp
    then show "has_entry ?q b" by (rule has_entry_other [OF _ ne]) simp_all
  qed
  ultimately show ?thesis
    using inv by (simp add: binv_def dicts_ok_def heaps_ok_def alias_ok_def cancelled_ok_def)
qed

text \<open>The object after \<open>submit\<close>.\<close>

definition queued_as :: "seconds \<Rightarrow> task_envelope \<Rightarrow> task_envelope" where
  "queued_as now t = t\<lparr>te_spec := normalized (te_spec t), te_status := QUEUED,
     te_available_at := now + ts_delay_seconds (normalized (te_spec t))\<rparr>"

definition file_task :: "addr \<Rightarrow> task_envelope \<Rightarrow> broker \<Rightarrow> broker" where
  "file_task a t q = q\<lparr>objs := (objs q)(a := t), tasks := dict_set (te_task_id t) a (tasks q)\<rparr>"

lemma admit_eq: "admit clk a q = push (clk 1) a (file_task a (queued_as (clk 0) (objs q a)) q)"
  by (simp add: admit_def file_task_def queued_as_def upd_obj_def Let_def)

lemma file_task_inv:
  assumes inv: "binv A q" and fresh: "dict_get (tasks q) (te_task_id t) = None"
    and same: "te_task_id (objs q a) = te_task_id t"
    and t: "spec_ok (te_spec t)" "te_status t = QUEUED"
  shows "binv (insert a A) (file_task a t q)" (is "binv _ ?q")
proof -
  have old: "b \<noteq> a \<and> i \<noteq> te_task_id t" if "dict_get (tasks q) i = Some b" for i b
    using that fresh same task_id_of [OF inv that] by auto
  have no_run: "dict_get (inflight q) (te_task_id t) = None"
    using binvD(4) [OF inv] fresh unfolding alias_ok_def by (metis option.exhaust option.distinct(1))
  have tasks_q: "dict_get (tasks ?q) i = (if i = te_task_id t then Some a else dict_get (tasks q) i)" for i
    by (simp add: file_task_def)
  have "dicts_ok ?q" using binvD(1) [OF inv] by (simp add: dicts_ok_def file_task_def)
  moreover have "heaps_ok ?q" using binvD(2) [OF inv] by (simp add: heaps_ok_def file_task_def)
  moreover have "ids_ok ?q"
    using binvD(3) [OF inv] old t by (auto simp: ids_ok_def file_task_def split: if_splits)
  moreover have "alias_ok ?q"
    using binvD(4) [OF inv] old fresh by (auto simp: alias_ok_def file_task_def)
  moreover have "running_ok ?q"
    unfolding running_ok_def
  proof (intro allI impI)
    fix i b assume b: "dict_get (tasks ?q) i = Some b"
    show "(te_status (objs ?q b) = RUNNING) = (dict_get (inflight ?q) i = Some b) \<and>
      (te_status (objs ?q b) = RUNNING \<longrightarrow>
         te_assigned_worker (objs ?q b) \<noteq> None \<and> te_lease_deadline (objs ?q b) \<noteq> None) \<and>
      te_status (objs ?q b) \<noteq> PENDING"
    proof (cases "i = te_task_id t")
      case True
      with b t no_run show ?thesis by (simp add: file_task_def)
    next
      case False
      with b have b': "dict_get (tasks q) i = Some b" by (simp add: file_task_def)
      with old [OF b'] running_okD [OF inv b'] show ?thesis by (simp add: file_task_def)
    qed
  qed
  moreover have "dlq_ok ?q"
    unfolding dlq_ok_def
  proof (intro allI impI)
    fix i b assume b: "dict_get (tasks ?q) i = Some b \<and> te_status (objs ?q b) = DEAD_LETTERED"
    then have "i \<noteq> te_task_id t" using t by (auto simp: file_task_def)
    with b have b': "dict_get (tasks q) i = Some b" by (simp add: file_task_def)
    with b old [OF b'] binvD(6) [OF inv] show "dict_get (dead_letter ?q) i = Some b"
      unfolding dlq_ok_def by (simp add: file_task_def)
  qed
  moreover have "entries_ok ?q"
  proof -
    have "entry_ok ?q k e" if "entry_ok q k e" for k e
      using that old by (fastforce simp: entry_ok_def file_task_def)
    then show ?thesis using binvD(7) [OF inv] by (auto simp: entries_ok_def file_task_def)
  qed
  moreover have "cancelled_ok ?q"
    using binvD(8) [OF inv] by (auto simp: cancelled_ok_def file_task_def)
  moreover have "pending_ok (insert a A) ?q"
  proof (rule pending_okI)
    fix i b assume b: "dict_get (tasks ?q) i = Some b" "te_status (objs ?q b) \<in> waiting"
      "i \<notin> cancelled ?q" "b \<notin> insert a A"
    then have b': "dict_get (tasks q) i = Some b" by (auto simp: tasks_q split: if_splits)
    have ne: "b \<noteq> a" using b(4) by simp
    have "has_entry q b"
      using pending_okD [OF binvD(9) [OF inv] b'] b ne by (simp add: file_task_def)
    then show "has_entry ?q b" by (rule has_entry_other [OF _ ne]) (simp_all add: file_task_def)
  qed
  ultimately show ?thesis by (simp add: binv_def)
qed

lemma admit_inv [keeps_inv]:
  assumes "broker_inv q" "dict_get (tasks q) (te_task_id (objs q a)) = None"
  shows "broker_inv (admit clk a q)"
proof -
  let ?t = "queued_as (clk 0) (objs q a)"
  have "te_task_id ?t = te_task_id (objs q a)" by (simp add: queued_as_def)
  then have "binv {a} (file_task a ?t q)"
    using assms by (intro file_task_inv) (simp_all add: queued_as_def)
  then show ?thesis
    unfolding admit_eq by (rule push_inv) (simp add: file_task_def)
qed

lemma admit_fields [simp]:
  "max_depth (admit clk a q) = max_depth q" "inflight (admit clk a q) = inflight q"
  "dead_letter (admit clk a q) = dead_letter q" "cancelled (admit clk a q) = cancelled q"
  "tasks (admit clk a q) = dict_set (te_task_id (objs q a)) a (tasks q)"
  "objs (admit clk a q) = (objs q)(a := queued_as (clk 0) (objs q a))"
  by (simp_all add: admit_eq file_task_def queued_as_def)

lemma submit_inv [keeps_inv]:
  "broker_inv q \<Longrightarrow> dict_get (tasks q) (te_task_id (objs q a)) = None \<Longrightarrow> broker_inv (snd (submit clk a q))"
  by (simp add: submit_def admit_inv)

text \<open>A batch whose ids are new and different, at different addresses.\<close>

definition fresh_batch :: "addr list \<Rightarrow> broker \<Rightarrow> bool" where
  "fresh_batch as q \<longleftrightarrow> distinct (map (\<lambda>a. te_task_id (objs q a)) as) \<and>
     (\<forall>a \<in> set as. dict_get (tasks q) (te_task_id (objs q a)) = None)"

lemma fresh_batch_step:
  assumes "fresh_batch (a # as) q"
  shows "dict_get (tasks q) (te_task_id (objs q a)) = None" "fresh_batch as (admit clk a q)"
proof -
  have "te_task_id (objs (admit clk a q) b) = te_task_id (objs q b)" for b
    by (simp add: queued_as_def)
  moreover have "te_task_id (objs q b) \<noteq> te_task_id (objs q a)" if "b \<in> set as" for b
    using assms that unfolding fresh_batch_def by (simp add: image_iff) metis
  ultimately show "dict_get (tasks q) (te_task_id (objs q a)) = None" "fresh_batch as (admit clk a q)"
    using assms by (auto simp: fresh_batch_def simp del: admit_fields(6))
qed

lemma submit_many_inv [keeps_inv]:
  "broker_inv q \<Longrightarrow> fresh_batch as q \<Longrightarrow> broker_inv (snd (submit_many clk as q))"
proof (induction clk as q rule: submit_many.induct)
  case (2 clk a as q)
  show ?case
  proof (cases "depth q \<ge> max_depth q")
    case False
    have "broker_inv (snd (submit_many (later 2 clk) as (admit clk a q)))"
      using "2.IH" [OF False] fresh_batch_step [OF "2.prems"(2)] admit_inv [OF "2.prems"(1)] by blast
    with False show ?thesis
      by (cases "submit_many (later 2 clk) as (admit clk a q)") (auto split: sum.split)
  qed (use "2.prems" in simp)
qed simp

section \<open>Retrying and requeueing\<close>

lemma retry_known:
  assumes "broker_inv q" "dict_get (tasks q) tid = Some a"
  shows "fst (retry clk tid reason q) = Inr a"
    "tasks (snd (retry clk tid reason q)) = tasks q"
    "inflight (snd (retry clk tid reason q)) = dict_del tid (inflight q)"
    "cancelled (snd (retry clk tid reason q)) = cancelled q"
    "max_depth (snd (retry clk tid reason q)) = max_depth q"
    "objs (snd (retry clk tid reason q)) = (objs q)(a := retried (clk 0) reason (objs q a))"
  using assms by (simp_all add: retry_eq Let_def)

lemma retry_unknown:
  "broker_inv q \<Longrightarrow> dict_get (tasks q) tid = None \<Longrightarrow> retry clk tid reason q = (Inl (TaskNotFoundError tid), q)"
  by (simp add: retry_eq)

text \<open>Taking the lease away first, as the reaper does, makes no difference to \<open>retry\<close>.\<close>

lemma retry_after_pop:
  assumes inv: "broker_inv q" and a: "dict_get (inflight q) tid = Some a"
  shows "retry clk tid reason (upd_obj a (\<lambda>t. t\<lparr>te_assigned_worker := None\<rparr>)
      (q\<lparr>inflight := dict_del tid (inflight q)\<rparr>)) = retry clk tid reason q"
proof -
  have "dict_get (tasks q) tid = Some a" using binvD(4) [OF inv] a by (simp add: alias_ok_def)
  then show ?thesis
    using a by (simp add: retry_def pop_or_get_def upd_obj_def Let_def)
qed

definition expired_in :: "seconds \<Rightarrow> (string \<times> addr) list \<Rightarrow> broker \<Rightarrow> (string \<times> addr) list" where
  "expired_in now items q = filter (\<lambda>(tid, a). lease_expired now (objs q a)) items"

text \<open>The effect of the reaper's loop on the items it was given.\<close>

definition requeued ::
    "seconds \<Rightarrow> (string \<times> addr) list \<Rightarrow> broker \<Rightarrow> addr list \<Rightarrow> broker \<Rightarrow> bool" where
  "requeued now items q as q' \<longleftrightarrow>
     broker_inv q' \<and> tasks q' = tasks q \<and> cancelled q' = cancelled q \<and> max_depth q' = max_depth q \<and>
     as = map snd (expired_in now items q) \<and>
     (\<forall>tid. dict_get (inflight q') tid =
        (if tid \<in> fst ` set (expired_in now items q) then None else dict_get (inflight q) tid)) \<and>
     (\<forall>a. if a \<in> set as then \<exists>t. objs q' a = retried t ''lease expired'' (objs q a)
          else objs q' a = objs q a)"

definition items_ok :: "(string \<times> addr) list \<Rightarrow> broker \<Rightarrow> bool" where
  "items_ok items q \<longleftrightarrow> distinct (map fst items) \<and>
     (\<forall>(tid, a) \<in> set items. dict_get (inflight q) tid = Some a)"

lemma requeue_loop_spec:
  "broker_inv q \<Longrightarrow> items_ok items q \<Longrightarrow>
     \<exists>as q'. requeue_loop now clk items q = (Inr as, q') \<and> requeued now items q as q'"
proof (induction items arbitrary: clk q)
  case Nil
  then show ?case by (auto simp: requeued_def expired_in_def)
next
  case (Cons item items)
  obtain tid a where item: "item = (tid, a)" by (cases item)
  note inv = Cons.prems(1)
  have a: "dict_get (inflight q) tid = Some a" using Cons.prems(2) item by (simp add: items_ok_def)
  have at: "dict_get (tasks q) tid = Some a" using binvD(4) [OF inv] a by (simp add: alias_ok_def)
  have other: "i \<noteq> tid \<and> b \<noteq> a" if "(i, b) \<in> set items" for i b
  proof -
    have i: "i \<noteq> tid" using that Cons.prems(2) item by (auto simp: items_ok_def image_iff)
    have "dict_get (inflight q) i = Some b" using that Cons.prems(2) by (auto simp: items_ok_def)
    then have "dict_get (tasks q) i = Some b" using binvD(4) [OF inv] by (simp add: alias_ok_def)
    with at i tasks_inj [OF inv] show ?thesis by metis
  qed
  show ?case
  proof (cases "lease_expired now (objs q a)")
    case False
    have "items_ok items q" using Cons.prems(2) item by (simp add: items_ok_def)
    from Cons.IH [OF inv this] False item show ?thesis
      by (fastforce simp: requeued_def expired_in_def)
  next
    case True
    obtain q2 where r: "retry clk tid ''lease expired'' q = (Inr a, q2)"
      using retry_known(1) [OF inv at] by (metis prod.collapse)
    have q2: "broker_inv q2" "tasks q2 = tasks q" "inflight q2 = dict_del tid (inflight q)"
      "cancelled q2 = cancelled q" "max_depth q2 = max_depth q"
      "objs q2 = (objs q)(a := retried (clk 0) ''lease expired'' (objs q a))"
      using retry_inv [OF inv, of clk tid "''lease expired''"]
        retry_known [OF inv at, of clk "''lease expired''"] r by simp_all
    have ok2: "items_ok items q2"
      using Cons.prems(2) other item by (auto simp: items_ok_def q2)
    from Cons.IH [OF q2(1) ok2, of "later (retry_reads (objs q2 a)) clk"] obtain as q3 where
      loop: "requeue_loop now (later (retry_reads (objs q2 a)) clk) items q2 = (Inr as, q3)"
      and rq: "requeued now items q2 as q3" by blast
    have exp: "expired_in now items q2 = expired_in now items q"
      unfolding expired_in_def using other by (intro filter_cong) (auto simp: q2)
    have exp': "expired_in now (item # items) q = (tid, a) # expired_in now items q"
      using True item by (simp add: expired_in_def)
    have as: "as = map snd (expired_in now items q)" using rq exp by (simp add: requeued_def)
    have sub: "set (expired_in now items q) \<subseteq> set items" by (auto simp: expired_in_def)
    have gone: "(i, b) \<notin> set (expired_in now items q)" if "i = tid \<or> b = a" for i b
      using that subsetD [OF sub] other by blast
    then have a_as: "a \<notin> set as" and t_exp: "tid \<notin> fst ` set (expired_in now items q)"
      unfolding as by auto
    have "requeue_loop now clk (item # items) q = (Inr (a # as), q3)"
      using True item loop r retry_after_pop [OF inv a, of clk "''lease expired''"] by (simp add: Let_def)
    moreover have "requeued now (item # items) q (a # as) q3"
      unfolding requeued_def
    proof (intro conjI allI)
      show "broker_inv q3" "tasks q3 = tasks q" "cancelled q3 = cancelled q" "max_depth q3 = max_depth q"
        using rq q2 by (simp_all add: requeued_def)
      show "a # as = map snd (expired_in now (item # items) q)" by (simp add: exp' as)
      fix i
      show "dict_get (inflight q3) i = (if i \<in> fst ` set (expired_in now (item # items) q) then None
          else dict_get (inflight q) i)"
        using rq t_exp by (auto simp: requeued_def exp exp' q2(3))
    next
      fix b
      show "if b \<in> set (a # as) then \<exists>t. objs q3 b = retried t ''lease expired'' (objs q b)
          else objs q3 b = objs q b"
        using rq a_as by (cases "b = a") (auto simp: requeued_def q2(6) split: if_splits)
    qed
    ultimately show ?thesis by blast
  qed
qed

lemma inflight_items_ok: "broker_inv q \<Longrightarrow> items_ok (inflight q) q"
  using binvD(1) [of "{}" q] by (auto simp: items_ok_def dicts_ok_def dict_ok_def)

lemma requeue_spec:
  assumes "broker_inv q"
  shows "\<exists>as q'. requeue_expired_leases clk q = (Inr as, q') \<and> requeued (clk 0) (inflight q) q as q'"
  unfolding requeue_expired_leases_def by (rule requeue_loop_spec [OF assms inflight_items_ok [OF assms]])

lemma requeue_inv [keeps_inv]: "broker_inv q \<Longrightarrow> broker_inv (snd (requeue_expired_leases clk q))"
  using requeue_spec [of q clk] by (auto simp: requeued_def)

lemma snapshot_inv [keeps_inv]: "broker_inv q \<Longrightarrow> broker_inv (snd (snapshot now q))"
  by (simp add: snapshot_def Let_def promote_delayed_inv)

section \<open>The transition system\<close>

text \<open>
  \<open>create\<close> is a caller making a new envelope at an address no task uses yet; the two submitting
  steps take envelopes with new ids (the scheduler makes ids from \<open>uuid4()\<close>); \<open>complete\<close> is given a
  final status, as its callers do.  All other steps are unrestricted.
\<close>

inductive broker_step :: "broker \<Rightarrow> broker \<Rightarrow> bool" where
  create: "a \<notin> ran (map_of (tasks q)) \<Longrightarrow> broker_step q (q\<lparr>objs := (objs q)(a := t)\<rparr>)"
| submit: "dict_get (tasks q) (te_task_id (objs q a)) = None \<Longrightarrow> broker_step q (snd (submit clk a q))"
| submit_many: "fresh_batch as q \<Longrightarrow> broker_step q (snd (submit_many clk as q))"
| poll: "broker_step q (snd (reserve_poll clk order w completed lease q))"
| ack: "broker_step q (snd (ack tid q))"
| complete: "status \<in> terminal \<Longrightarrow> broker_step q (snd (complete tid status error q))"
| retry: "broker_step q (snd (retry clk tid reason q))"
| cancel: "broker_step q (snd (cancel tid q))"
| requeue: "broker_step q (snd (requeue_expired_leases clk q))"
| snapshot: "broker_step q (snd (snapshot now q))"

inductive broker_reachable :: "broker \<Rightarrow> bool" where
  start: "broker_reachable (new_broker d os)"
| step: "broker_reachable q \<Longrightarrow> broker_step q q' \<Longrightarrow> broker_reachable q'"

lemma broker_step_inv [keeps_inv]: "broker_step q q' \<Longrightarrow> broker_inv q \<Longrightarrow> broker_inv q'"
  by (induction rule: broker_step.induct) (auto intro: keeps_inv)

lemma reachable_inv: "broker_reachable q \<Longrightarrow> broker_inv q"
  by (induction rule: broker_reachable.induct) (auto intro: new_broker_inv broker_step_inv)

end
