(* ===== verification/Broker_Props.thy ===== *)
theory Broker_Props
  imports Broker_Steps
begin

text \<open>
  The properties of the broker: consistency of every reachable state, what \<open>reserve\<close> returns and when,
  the retry budget, cancellation, leases, admission control, and three facts about late and repeated
  calls that the users of the queue have to know.
\<close>

section \<open>A small run for the witnesses\<close>

definition demo_task :: "string \<Rightarrow> int \<Rightarrow> task_envelope" where
  "demo_task tid prio = \<lparr>te_spec = (default_spec ''jobs.py:run'')\<lparr>ts_priority := prio\<rparr>, te_task_id = tid,
     te_created_at = 0, te_available_at = 0, te_attempts = 0, te_status = PENDING, te_last_error = None,
     te_assigned_worker = None, te_lease_deadline = None\<rparr>"

definition demo_worker :: worker_info where
  "demo_worker = \<lparr>wi_worker_id = ''w1'', wi_host = ''h'', wi_pid = 1, wi_queues = {''default''},
     wi_capacity = 1, wi_labels = {}, wi_status = IDLE, wi_running_tasks = 0, wi_started_at = 0,
     wi_last_heartbeat = 0\<rparr>"

definition demo_objs :: "addr \<Rightarrow> task_envelope" where
  "demo_objs a = (if a = 0 then demo_task ''a'' 5 else demo_task ''b'' 1)"

definition demo0 :: broker where
  "demo0 = new_broker 2 demo_objs"

definition demo1 :: broker where
  "demo1 = snd (submit (\<lambda>_. 10) 0 demo0)"

definition demo2 :: broker where
  "demo2 = snd (submit (\<lambda>_. 11) 1 demo1)"

text \<open>Evaluation of closed runs.\<close>

lemmas eval_heap = heappush_def heappop_def siftup_def siftdown.simps siftup_hole.simps min_child_def
  heapify_def dd_get_def
lemmas eval_broker = new_broker_def submit_def depth_def admit_def upd_obj_def push_def push_ready_def
  ready_entry_of_def terminal_def normalized_def default_spec_def promote_delayed.simps promote_one_def
  scan_queue.simps pop_eligible_def reserve_poll_def accepts_def pop_or_get_def retry_def complete_def
  cancel_def requeue_expired_leases_def lease_expired_def retry_reads_def
lemmas eval_demo = demo_task_def demo_worker_def demo_objs_def

lemma demo1_val: "demo1 = \<lparr>max_depth = 2, ready = [(''default'', [(5, 0, 1, ''a'')])], delayed = [],
   tasks = [(''a'', 0)], inflight = [], dead_letter = [], cancelled = {}, sequence = 1,
   objs = demo_objs(0 := (demo_task ''a'' 5)\<lparr>te_status := QUEUED, te_available_at := 10\<rparr>)\<rparr>"
  by (simp add: demo1_def demo0_def eval_broker eval_heap eval_demo Let_def fun_eq_iff)

lemma demo2_val: "demo2 = \<lparr>max_depth = 2,
   ready = [(''default'', [(1, 0, 2, ''b''), (5, 0, 1, ''a'')])], delayed = [],
   tasks = [(''a'', 0), (''b'', 1)], inflight = [], dead_letter = [], cancelled = {}, sequence = 2,
   objs = demo_objs(0 := (demo_task ''a'' 5)\<lparr>te_status := QUEUED, te_available_at := 10\<rparr>,
                    1 := (demo_task ''b'' 1)\<lparr>te_status := QUEUED, te_available_at := 11\<rparr>)\<rparr>"
  by (simp add: demo2_def demo1_val eval_broker eval_heap eval_demo Let_def fun_eq_iff)

lemma demo0_reachable: "broker_reachable demo0"
  unfolding demo0_def by (rule broker_reachable.start)

lemma demo1_reachable: "broker_reachable demo1"
  unfolding demo1_def
  by (rule broker_reachable.step [OF demo0_reachable broker_step.submit])
    (simp add: demo0_def new_broker_def)

lemma demo2_reachable: "broker_reachable demo2"
  unfolding demo2_def
  by (rule broker_reachable.step [OF demo1_reachable broker_step.submit])
    (simp add: demo1_val eval_demo)

section \<open>Consistency\<close>

text \<open>
  C8. In every state the broker can reach, whatever the order in which threads call it, a task is filed
  under its own id with a normalised specification, is running exactly when it is in the in-flight
  dictionary, then has a worker and a lease deadline, and is in the dead-letter dictionary when its
  status says so; every entry of a ready heap names a known task and carries that task's queue,
  priority and creation time.
\<close>

theorem reachable_consistent:
  assumes "broker_reachable q"
  shows "(\<forall>tid a. dict_get (tasks q) tid = Some a \<longrightarrow>
      te_task_id (objs q a) = tid \<and> normalized (te_spec (objs q a)) = te_spec (objs q a) \<and>
      (te_status (objs q a) = RUNNING \<longleftrightarrow> dict_get (inflight q) tid = Some a) \<and>
      (te_status (objs q a) = RUNNING \<longrightarrow>
        te_assigned_worker (objs q a) \<noteq> None \<and> te_lease_deadline (objs q a) \<noteq> None) \<and>
      (te_status (objs q a) = DEAD_LETTERED \<longrightarrow> dict_get (dead_letter q) tid = Some a)) \<and>
    (\<forall>k. \<forall>e \<in> set (dd_get (ready q) k). \<exists>a. dict_get (tasks q) (entry_id e) = Some a \<and>
      ts_queue (te_spec (objs q a)) = k \<and> fst e = ts_priority (te_spec (objs q a)) \<and>
      fst (snd e) = te_created_at (objs q a))"
proof -
  have inv: "broker_inv q" by (rule reachable_inv [OF assms])
  have "\<exists>a. dict_get (tasks q) (entry_id e) = Some a \<and>
      ts_queue (te_spec (objs q a)) = k \<and> fst e = ts_priority (te_spec (objs q a)) \<and>
      fst (snd e) = te_created_at (objs q a)" if "e \<in> set (dd_get (ready q) k)" for k e
    using that binvD(7) [OF inv] unfolding entries_ok_def entry_ok_def by blast
  moreover have "normalized (te_spec (objs q a)) = te_spec (objs q a)"
    if "dict_get (tasks q) tid = Some a" for tid a
    using that binvD(3) [OF inv] unfolding ids_ok_def normalized_fixed_iff by blast
  ultimately show ?thesis
    using task_id_of [OF inv] running_okD [OF inv] binvD(6) [OF inv, unfolded dlq_ok_def] by blast
qed

theorem reachable_consistent_witness:
  "broker_reachable demo2 \<and> te_task_id (objs demo2 1) = ''b''"
proof -
  have "dict_get (tasks demo2) ''b'' = Some 1" by (simp add: demo2_val)
  with reachable_consistent [OF demo2_reachable] demo2_reachable show ?thesis by blast
qed

section \<open>Reserving\<close>

text \<open>After promotion no entry that is due remains in the delayed heap.\<close>

lemma promote_delayed_due:
  "is_heap (delayed q) \<Longrightarrow> e \<in> set (delayed (promote_delayed now q)) \<Longrightarrow> now < fst e"
proof (induction now q rule: promote_delayed.induct)
  case (1 now q)
  show ?case
  proof (cases "delayed q \<noteq> [] \<and> fst (hd (delayed q)) \<le> now")
    case True
    have "is_heap (delayed (promote_one q))"
      using True hq.invar_pop [OF "1.prems"(1)] by (simp add: delayed_promote_one)
    with "1.IH" [OF True] "1.prems"(2) True show ?thesis
      by (simp add: promote_delayed.simps [of now q])
  next
    case False
    then have e: "e \<in> set (delayed q)" and hd: "now < fst (hd (delayed q))"
      using "1.prems"(2) by (auto simp: promote_delayed.simps [of now q])
    have "hd (delayed q) \<le> e" by (rule hq.head_le [OF "1.prems"(1) e])
    then have "fst (hd (delayed q)) \<le> fst e" by (auto simp: less_eq_prod_def)
    with hd show ?thesis by simp
  qed
qed

lemma due_task_ready:
  assumes inv: "broker_inv q" and a: "dict_get (tasks q) tid = Some a"
    and st: "te_status (objs q a) \<in> waiting" "tid \<notin> cancelled q" "te_available_at (objs q a) \<le> now"
  shows "\<exists>e \<in> set (dd_get (ready (promote_delayed now q)) (ts_queue (te_spec (objs q a)))). entry_id e = tid"
proof -
  let ?p = "promote_delayed now q"
  have "binv {} ?p" by (rule promote_delayed_inv [OF inv])
  from pending_okD [OF binvD(9) [OF this], of tid a] a st have "has_entry ?p a" by simp
  then show ?thesis
  proof (unfold has_entry_def, elim disjE bexE conjE)
    fix e assume "e \<in> set (delayed ?p)" "fst e = te_available_at (objs ?p a)"
    then show ?thesis
      using promote_delayed_due [of q e now] binvD(2) [OF inv] st(3) by (simp add: heaps_ok_def)
  qed (use task_id_of [OF inv a] in auto)
qed

lemma due_task_candidate:
  assumes inv: "broker_inv q" and a: "dict_get (tasks q) tid = Some a"
    and st: "te_status (objs q a) \<in> waiting" "tid \<notin> cancelled q" "te_available_at (objs q a) \<le> now"
    and w: "accepts w (objs q a)" "ts_depends_on (te_spec (objs q a)) \<subseteq> completed"
    and k: "ts_queue (te_spec (objs q a)) \<in> K"
  shows "\<exists>e \<in> candidates K (promote_delayed now q) w completed. entry_id e = tid \<and>
    fst e = ts_priority (te_spec (objs q a)) \<and> fst (snd e) = te_created_at (objs q a)"
proof -
  let ?p = "promote_delayed now q"
  from due_task_ready [OF inv a st] obtain e where
    e: "e \<in> set (dd_get (ready ?p) (ts_queue (te_spec (objs q a))))" "entry_id e = tid" by blast
  have "entry_ok ?p (ts_queue (te_spec (objs q a))) e"
    using binvD(7) [OF promote_delayed_inv [OF inv, of now]] e(1) unfolding entries_ok_def by blast
  then have "fst e = ts_priority (te_spec (objs q a))" "fst (snd e) = te_created_at (objs q a)"
    using a e(2) by (auto simp: entry_ok_def)
  moreover have "runnable ?p w completed e" using a e(2) st(2) w by (simp add: runnable_def)
  then have "e \<in> candidates K ?p w completed" unfolding candidates_def using k e(1) by blast
  ultimately show ?thesis using e(2) by blast
qed

lemma poll_some:
  assumes inv: "broker_inv q" and "dict_get (tasks q) tid = Some a"
    and "te_status (objs q a) \<in> {QUEUED, RETRYING}" and "tid \<notin> cancelled q"
    and "te_available_at (objs q a) \<le> clk 0"
    and "accepts w (objs q a)" and "ts_depends_on (te_spec (objs q a)) \<subseteq> completed"
    and "set order = wi_queues w"
  shows "\<exists>b q'. reserve_poll clk order w completed lease q = (Inr (Some b), q')"
proof -
  have "ts_queue (te_spec (objs q a)) \<in> set order" using assms(6,8) by (simp add: accepts_def)
  from due_task_candidate [OF inv assms(2) _ assms(4,5,6,7) this] assms(3)
  have "candidates (set order) (promote_delayed (clk 0) q) w completed \<noteq> {}"
    unfolding waiting_def by blast
  then show ?thesis
    by (cases rule: reserve_poll_cases [OF inv, of clk order w completed lease]) auto
qed

text \<open>
  C1. No waiting task is lost: in every reachable state, when a task is queued or retrying, was never
  cancelled, is due, and the polling worker may run it (its queue, its labels, its status, the completed
  dependencies), then the poll returns a task.  In particular a fruitless poll means that no such task
  exists.
\<close>

theorem poll_finds_work:
  assumes "broker_reachable q" and "dict_get (tasks q) tid = Some a"
    and "te_status (objs q a) \<in> {QUEUED, RETRYING}" and "tid \<notin> cancelled q"
    and "te_available_at (objs q a) \<le> clk 0"
    and "accepts w (objs q a)" and "ts_depends_on (te_spec (objs q a)) \<subseteq> completed"
    and "set order = wi_queues w"
  shows "\<exists>b q'. reserve_poll clk order w completed lease q = (Inr (Some b), q')"
  using reachable_inv [OF assms(1)] assms(2-) by (rule poll_some)

theorem poll_finds_work_witness:
  "\<exists>b q'. reserve_poll (\<lambda>_. 20) [''default''] demo_worker {} 30 demo2 = (Inr (Some b), q')"
  by (rule poll_finds_work [OF demo2_reachable, of "''a''" 0])
    (simp_all add: demo2_val eval_demo accepts_def default_spec_def)

lemma poll_best:
  assumes inv: "broker_inv q"
    and "reserve_poll clk order w completed lease q = (Inr (Some a), q')"
    and "set order = wi_queues w"
  shows "(\<exists>tid. dict_get (tasks q) tid = Some a \<and> tid \<notin> cancelled q \<and> dict_get (inflight q') tid = Some a) \<and>
    accepts w (objs q a) \<and> ts_depends_on (te_spec (objs q a)) \<subseteq> completed \<and>
    objs q' a = (objs q a)\<lparr>te_status := RUNNING, te_assigned_worker := Some (wi_worker_id w),
      te_lease_deadline := Some (clk 1 + lease)\<rparr> \<and>
    (\<forall>tid b. dict_get (tasks q) tid = Some b \<and> te_status (objs q b) \<in> {QUEUED, RETRYING} \<and>
       tid \<notin> cancelled q \<and> te_available_at (objs q b) \<le> clk 0 \<and> accepts w (objs q b) \<and>
       ts_depends_on (te_spec (objs q b)) \<subseteq> completed \<longrightarrow>
       (ts_priority (te_spec (objs q a)), te_created_at (objs q a))
         \<le> (ts_priority (te_spec (objs q b)), te_created_at (objs q b)))"
proof -
  let ?p = "promote_delayed (clk 0) q"
  from inv show ?thesis
  proof (cases rule: reserve_poll_cases [of q clk order w completed lease])
    case (none q1)
    with assms(2) show ?thesis by simp
  next
    case (some q1 e k a')
    have a: "a' = a" and q': "q' = dispatch a (wi_worker_id w) (clk 1 + lease) (take_entry k e q1)"
      using assms(2) some(1) by auto
    have at: "dict_get (tasks q) (entry_id e) = Some a" using some(6) a by simp
    have id_a: "te_task_id (objs q a) = entry_id e" by (rule task_id_of [OF inv at])
    have same: "objs q1 = objs q" "inflight q1 = inflight q"
      using scanned_fields [OF some(2)] by simp_all
    have run: "accepts w (objs q a)" "ts_depends_on (te_spec (objs q a)) \<subseteq> completed" "entry_id e \<notin> cancelled q"
      using some(5) at by (simp_all add: runnable_def)
    have "entry_ok ?p k e"
      using binvD(7) [OF promote_delayed_inv [OF inv, of "clk 0"]] some(4) unfolding entries_ok_def by blast
    then have key: "fst e = ts_priority (te_spec (objs q a))" "fst (snd e) = te_created_at (objs q a)"
      using at by (auto simp: entry_ok_def)
    have least: "(ts_priority (te_spec (objs q a)), te_created_at (objs q a))
        \<le> (ts_priority (te_spec (objs q b)), te_created_at (objs q b))"
      if b: "dict_get (tasks q) tid = Some b" "te_status (objs q b) \<in> {QUEUED, RETRYING}"
        "tid \<notin> cancelled q" "te_available_at (objs q b) \<le> clk 0" "accepts w (objs q b)"
        "ts_depends_on (te_spec (objs q b)) \<subseteq> completed" for tid b
    proof -
      have "ts_queue (te_spec (objs q b)) \<in> set order" using b(5) assms(3) by (simp add: accepts_def)
      from due_task_candidate [OF inv b(1) _ b(3-6) this] b(2) obtain e' where
        "e' \<in> candidates (set order) ?p w completed"
        "fst e' = ts_priority (te_spec (objs q b))" "fst (snd e') = te_created_at (objs q b)"
        unfolding waiting_def by blast
      with some(7) have "e \<le> e'" by blast
      with key \<open>fst e' = _\<close> \<open>fst (snd e') = _\<close> show ?thesis
        by (auto simp: less_eq_prod_def)
    qed
    have "dict_get (inflight q') (entry_id e) = Some a" and obj: "objs q' a = (objs q a)\<lparr>te_status := RUNNING,
        te_assigned_worker := Some (wi_worker_id w), te_lease_deadline := Some (clk 1 + lease)\<rparr>"
      using id_a by (simp_all add: q' same)
    with at run(3) have ex: "\<exists>tid. dict_get (tasks q) tid = Some a \<and> tid \<notin> cancelled q \<and>
        dict_get (inflight q') tid = Some a" by blast
    show ?thesis
      by (intro conjI ex run(1,2) obj allI impI) (elim conjE, rule least)
  qed
qed

text \<open>
  C7. The task a poll returns is right and best: the worker accepts it, its dependencies are complete,
  it was not cancelled; it is now running, assigned to the worker, leased until \<open>lease\<close> seconds after
  the second reading of the clock, and in flight; and no other waiting, due task that the worker could
  have run comes before it in the order of priority, then age.
\<close>

theorem poll_returns_best:
  assumes "broker_reachable q"
    and "reserve_poll clk order w completed lease q = (Inr (Some a), q')"
    and "set order = wi_queues w"
  shows "(\<exists>tid. dict_get (tasks q) tid = Some a \<and> tid \<notin> cancelled q \<and> dict_get (inflight q') tid = Some a) \<and>
    accepts w (objs q a) \<and> ts_depends_on (te_spec (objs q a)) \<subseteq> completed \<and>
    objs q' a = (objs q a)\<lparr>te_status := RUNNING, te_assigned_worker := Some (wi_worker_id w),
      te_lease_deadline := Some (clk 1 + lease)\<rparr> \<and>
    (\<forall>tid b. dict_get (tasks q) tid = Some b \<and> te_status (objs q b) \<in> {QUEUED, RETRYING} \<and>
       tid \<notin> cancelled q \<and> te_available_at (objs q b) \<le> clk 0 \<and> accepts w (objs q b) \<and>
       ts_depends_on (te_spec (objs q b)) \<subseteq> completed \<longrightarrow>
       (ts_priority (te_spec (objs q a)), te_created_at (objs q a))
         \<le> (ts_priority (te_spec (objs q b)), te_created_at (objs q b)))"
  by (rule poll_best [OF reachable_inv [OF assms(1)] assms(2,3)])

theorem poll_returns_best_witness:
  "\<exists>q'. reserve_poll (\<lambda>_. 20) [''default''] demo_worker {} 30 demo2 = (Inr (Some 1), q') \<and>
     te_status (objs q' 1) = RUNNING"
proof -
  have "fst (reserve_poll (\<lambda>_. 20) [''default''] demo_worker {} 30 demo2) = Inr (Some 1)"
    by code_simp
  then obtain q' where q': "reserve_poll (\<lambda>_. 20) [''default''] demo_worker {} 30 demo2 = (Inr (Some 1), q')"
    by (metis prod.collapse)
  from poll_returns_best [OF demo2_reachable q'] have "te_status (objs q' 1) = RUNNING"
    by (simp add: demo_worker_def)
  with q' show ?thesis by blast
qed

text \<open>
  \<open>worker.queues\<close> is a set, whose iteration order Python leaves open: the task that a poll returns
  does not depend on it.
\<close>

theorem poll_order_independent:
  assumes "broker_reachable q" and "set order1 = set order2"
  shows "fst (reserve_poll clk order1 w completed lease q) = fst (reserve_poll clk order2 w completed lease q)"
proof -
  have inv: "broker_inv q" by (rule reachable_inv [OF assms(1)])
  note cases1 = reserve_poll_cases [of q clk order1 w completed lease]
  note cases2 = reserve_poll_cases [of q clk order2 w completed lease]
  have in_cand: "e \<in> candidates K p w completed"
    if "k \<in> K" "e \<in> set (dd_get (ready p) k)" "runnable p w completed e" for e k K p
    using that unfolding candidates_def by blast
  from inv show ?thesis
  proof (cases rule: cases1)
    case (none q1)
    note n1 = none
    from inv show ?thesis
    proof (cases rule: cases2)
      case (none q2)
      with n1 show ?thesis by simp
    next
      case (some q2 e k a)
      with n1 assms(2) in_cand [OF some(3-5)] show ?thesis by simp
    qed
  next
    case (some q1 e1 k1 a1)
    note s1 = some
    from inv show ?thesis
    proof (cases rule: cases2)
      case (none q2)
      with s1 assms(2) in_cand [OF s1(3-5)] show ?thesis by simp
    next
      case (some q2 e2 k2 a2)
      have "e1 \<le> e2" using s1(7) in_cand [OF some(3-5)] assms(2) by simp
      moreover have "e2 \<le> e1" using some(7) in_cand [OF s1(3-5)] assms(2) by simp
      ultimately have "e1 = e2" by simp
      with s1(1,6) some(1,6) show ?thesis by simp
    qed
  qed
qed

theorem poll_order_independent_witness:
  "broker_reachable demo2 \<and> set [''x'', ''default''] = set [''default'', ''x''] \<and>
   fst (reserve_poll (\<lambda>_. 20) [''x'', ''default''] demo_worker {} 30 demo2) =
     fst (reserve_poll (\<lambda>_. 20) [''default'', ''x''] demo_worker {} 30 demo2)"
proof -
  have eq: "set [''x'', ''default''] = set [''default'', ''x'']" by auto
  show ?thesis using poll_order_independent [OF demo2_reachable eq] demo2_reachable eq by blast
qed

section \<open>Waiting in reserve\<close>

lemma reserve_loop_returns:
  "n \<in> set turns \<Longrightarrow> d \<le> tn_monotonic n \<Longrightarrow>
     fst (reserve_loop live lease timeout (Some d) turns q) \<noteq> None"
  by (induction live lease timeout "Some d" turns q rule: reserve_loop.induct)
    (auto split: prod.split sum.split option.split)

text \<open>
  C24. \<open>reserve\<close> with a timeout comes back: whatever other threads do while it waits, once the monotonic
  clock has reached the start plus the timeout in some round, that round or an earlier one returns.
\<close>

theorem reserve_times_out:
  assumes "n \<in> set turns" and "start + t \<le> tn_monotonic n"
  shows "fst (reserve start completed lease (Some t) turns q) \<noteq> None"
  using reserve_loop_returns [OF assms] by (simp add: reserve_def)

definition demo_turn :: turn where
  "demo_turn = \<lparr>tn_clk = (\<lambda>_. 20), tn_order = [''default''], tn_worker = demo_worker, tn_completed = {},
     tn_monotonic = 7, tn_others = (\<lambda>q. q)\<rparr>"

theorem reserve_times_out_witness:
  "demo_turn \<in> set [demo_turn] \<and> (5::real) + 1 \<le> tn_monotonic demo_turn \<and>
   fst (reserve 5 None 30 (Some 1) [demo_turn] demo0) \<noteq> None"
proof -
  have "demo_turn \<in> set [demo_turn]" and "(5::real) + 1 \<le> tn_monotonic demo_turn"
    by (simp_all add: demo_turn_def)
  with reserve_times_out [OF this] show ?thesis by blast
qed

lemma reserve_poll_deps:
  assumes "broker_inv q" "reserve_poll clk order w completed lease q = (Inr (Some a), q')"
  shows "ts_depends_on (te_spec (objs q a)) \<subseteq> completed"
  using assms(1)
proof (cases rule: reserve_poll_cases [of q clk order w completed lease])
  case (some q1 e k a')
  with assms(2) show ?thesis by (simp add: runnable_def)
qed (use assms(2) in simp)

lemma reserve_loop_stale:
  assumes "\<And>n q. n \<in> set turns \<Longrightarrow> broker_inv q \<Longrightarrow> broker_inv (tn_others n q)"
  shows "broker_inv q \<Longrightarrow> reserve_loop False lease timeout deadline turns q = (Some (Inr (Some a)), q') \<Longrightarrow>
    ts_depends_on (te_spec (objs q' a)) = {}"
  using assms
proof (induction turns arbitrary: q)
  case (Cons n ns)
  let ?r = "reserve_poll (tn_clk n) (tn_order n) (tn_worker n) {} lease q"
  obtain r q1 where poll: "?r = (r, q1)" by fastforce
  show ?case
  proof (cases r)
    case (Inl e)
    with Cons.prems poll show ?thesis by simp
  next
    case (Inr x)
    show ?thesis
    proof (cases x)
      case None
      have "broker_inv q1" using reserve_poll_inv [OF Cons.prems(1)] poll by (metis snd_conv)
      then have "broker_inv (tn_others n q1)" using Cons.prems(3) by simp
      with Cons None Inr poll show ?thesis by (simp split: if_splits)
    next
      case (Some b)
      with Cons.prems(2) poll Inr have b: "b = a" "q1 = q'" by simp_all
      with poll Some Inr have r: "?r = (Inr (Some a), q')" by simp
      have "te_spec (objs q' a) = te_spec (objs q a)"
        using Cons.prems(1)
      proof (cases rule: reserve_poll_cases [of q "tn_clk n" "tn_order n" "tn_worker n" "{}" lease])
        case (some q2 e k a')
        with r scanned_fields(8) [OF some(2)] show ?thesis by auto
      qed (use r in simp)
      with reserve_poll_deps [OF Cons.prems(1) r] show ?thesis by simp
    qed
  qed
qed simp

text \<open>
  A caller whose set of completed tasks is empty when it calls \<open>reserve\<close> waits with a private empty
  set (\<open>completed_dependencies or set()\<close>): however long it waits and whatever completes meanwhile, it is
  never handed a task with a dependency.
\<close>

theorem reserve_ignores_late_completions:
  assumes "broker_reachable q"
    and "\<And>n q. n \<in> set turns \<Longrightarrow> broker_inv q \<Longrightarrow> broker_inv (tn_others n q)"
    and "reserve start (Some {}) lease timeout turns q = (Some (Inr (Some a)), q')"
  shows "ts_depends_on (te_spec (objs q' a)) = {}"
proof (rule reserve_loop_stale [OF assms(2) reachable_inv [OF assms(1)]])
  show "reserve_loop False lease timeout (map_option (\<lambda>t. start + t) timeout) turns q = (Some (Inr (Some a)), q')"
    using assms(3) by (simp add: reserve_def)
qed

theorem reserve_ignores_late_completions_witness:
  "\<exists>q'. reserve 5 (Some {}) 30 (Some 1) [demo_turn] demo2 = (Some (Inr (Some 1)), q') \<and>
     ts_depends_on (te_spec (objs q' 1)) = {}"
proof -
  have "fst (reserve 5 (Some {}) 30 (Some 1) [demo_turn] demo2) = Some (Inr (Some 1))"
    by code_simp
  then obtain q' where q': "reserve 5 (Some {}) 30 (Some 1) [demo_turn] demo2 = (Some (Inr (Some 1)), q')"
    by (metis prod.collapse)
  from reserve_ignores_late_completions [OF demo2_reachable _ q']
  have "ts_depends_on (te_spec (objs q' 1)) = {}" by (simp add: demo_turn_def)
  with q' show ?thesis by blast
qed

section \<open>Admission and depth\<close>

lemma length_filter_dict_fresh:
  "dict_get d k = None \<Longrightarrow> length (filter P (dict_set k v d)) = length (filter P d) + (if P (k, v) then 1 else 0)"
  by (simp add: dict_set_fresh)

lemma depth_admit:
  assumes "broker_inv q" and fresh: "dict_get (tasks q) (te_task_id (objs q a)) = None"
  shows "depth (admit clk a q) = depth q + 1"
proof -
  have ne: "b \<noteq> a" if "(i, b) \<in> set (tasks q)" for i b
  proof -
    have "dict_get (tasks q) i = Some b"
      using that binvD(1) [OF assms(1)] by (simp add: dicts_ok_def dict_get_mem)
    then show ?thesis using task_id_of [OF assms(1)] fresh by fastforce
  qed
  have "filter (\<lambda>(i, b). te_status (objs (admit clk a q) b) \<in> terminal) (tasks q) =
      filter (\<lambda>(i, b). te_status (objs q b) \<in> terminal) (tasks q)"
    using ne by (intro filter_cong) auto
  then show ?thesis
    using fresh by (simp add: depth_def dict_set_fresh queued_as_def terminal_def)
qed

text \<open>
  Admission control: \<open>submit\<close> of a new id fails exactly when the depth has reached the maximum, and
  then changes nothing; otherwise the depth grows by one and stays within the maximum, and the task is
  queued under its id with a normalised specification, due \<open>delay_seconds\<close> after the reading of the
  clock.
\<close>

theorem submit_admission:
  assumes "broker_reachable q" and "dict_get (tasks q) (te_task_id (objs q a)) = None"
    and "submit clk a q = (r, q')"
  shows "if max_depth q \<le> depth q then r = Inl (QueueFullError (depth q) (max_depth q)) \<and> q' = q
    else r = Inr a \<and> depth q' = depth q + 1 \<and> depth q' \<le> max_depth q' \<and>
      dict_get (tasks q') (te_task_id (objs q a)) = Some a \<and> te_status (objs q' a) = QUEUED \<and>
      te_spec (objs q' a) = normalized (te_spec (objs q a)) \<and>
      te_available_at (objs q' a) = clk 0 + max 0 (ts_delay_seconds (te_spec (objs q a)))"
  using assms(3) depth_admit [OF reachable_inv [OF assms(1)] assms(2), of clk]
  by (auto simp: submit_def queued_as_def normalized_def)

theorem submit_admission_witness:
  "depth (snd (submit (\<lambda>_. 11) 1 demo1)) = depth demo1 + 1"
proof -
  have "dict_get (tasks demo1) (te_task_id (objs demo1 1)) = None"
    by (simp add: demo1_val eval_demo)
  from submit_admission [OF demo1_reachable this, of "\<lambda>_. 11" "fst (submit (\<lambda>_. 11) 1 demo1)"
      "snd (submit (\<lambda>_. 11) 1 demo1)"]
  show ?thesis by (simp add: demo1_val depth_def eval_demo terminal_def)
qed

text \<open>
  A batch is admitted as far as there is room: with new, different ids, \<open>submit_many\<close> returns all
  envelopes and the depth grows by their number when they fit; otherwise it raises, and the envelopes
  before the limit stay queued, so that the depth is exactly the maximum.
\<close>

theorem submit_many_partial:
  assumes "broker_reachable q" and "fresh_batch as q" and "depth q \<le> max_depth q"
  shows "if depth q + int (length as) \<le> max_depth q
    then fst (submit_many clk as q) = Inr as \<and>
      depth (snd (submit_many clk as q)) = depth q + int (length as)
    else fst (submit_many clk as q) = Inl (QueueFullError (max_depth q) (max_depth q)) \<and>
      depth (snd (submit_many clk as q)) = max_depth q"
proof -
  have "broker_inv q" by (rule reachable_inv [OF assms(1)])
  then show ?thesis
    using assms(2,3)
  proof (induction clk as q rule: submit_many.induct)
    case (2 clk a as q)
    show ?case
    proof (cases "depth q \<ge> max_depth q")
      case True
      with "2.prems" show ?thesis by auto
    next
      case False
      let ?q = "admit clk a q"
      note f = fresh_batch_step [OF "2.prems"(2)]
      have d: "depth ?q = depth q + 1" by (rule depth_admit [OF "2.prems"(1) f(1)])
      note IH = "2.IH" [OF False admit_inv [OF "2.prems"(1) f(1)] f(2)]
      show ?thesis
        using IH d False
        by (cases "submit_many (later 2 clk) as ?q"; cases "fst (submit_many (later 2 clk) as ?q)")
          (auto split: if_splits)
    qed
  qed simp
qed

theorem submit_many_partial_witness:
  "fst (submit_many (\<lambda>_. 10) [0, 1] demo0) = Inr [0, 1] \<and>
   depth (snd (submit_many (\<lambda>_. 10) [0, 1] demo0)) = depth demo0 + 2"
proof -
  have "fresh_batch [0, 1] demo0" "depth demo0 \<le> max_depth demo0" "depth demo0 + 2 \<le> max_depth demo0"
    by (simp_all add: fresh_batch_def demo0_def new_broker_def eval_demo depth_def)
  with submit_many_partial [OF demo0_reachable this(1,2), of "\<lambda>_. 10"] show ?thesis by simp
qed

section \<open>Retrying\<close>

text \<open>
  C12. \<open>retry\<close> on every branch: an unknown id raises and changes nothing; a known task leaves the
  in-flight dictionary with one more attempt, its error recorded, no worker and no lease; with budget
  left it is retrying and due after \<open>backoff * attempts\<close> seconds, otherwise it is dead-lettered, filed
  as such, and no heap changes.  No other task is touched.
\<close>

theorem retry_branches:
  assumes "broker_reachable q" and "retry clk tid reason q = (r, q')"
  shows "case dict_get (tasks q) tid of
      None \<Rightarrow> r = Inl (TaskNotFoundError tid) \<and> q' = q
    | Some a \<Rightarrow> r = Inr a \<and> dict_get (inflight q') tid = None \<and>
        te_attempts (objs q' a) = te_attempts (objs q a) + 1 \<and>
        te_last_error (objs q' a) = Some reason \<and> te_assigned_worker (objs q' a) = None \<and>
        te_lease_deadline (objs q' a) = None \<and> (\<forall>b. b \<noteq> a \<longrightarrow> objs q' b = objs q b) \<and>
        (if te_attempts (objs q' a) \<le> ts_max_retries (te_spec (objs q a))
         then te_status (objs q' a) = RETRYING \<and> te_available_at (objs q' a) =
           clk 0 + ts_retry_backoff_seconds (te_spec (objs q a)) * of_int (te_attempts (objs q' a))
         else te_status (objs q' a) = DEAD_LETTERED \<and> dict_get (dead_letter q') tid = Some a \<and>
           ready q' = ready q \<and> delayed q' = delayed q)"
proof -
  have inv: "broker_inv q" by (rule reachable_inv [OF assms(1)])
  show ?thesis
    using assms(2) by (cases "dict_get (tasks q) tid")
      (auto simp: retry_eq [OF inv] Let_def retried_def exhausted_def split: if_splits)
qed

theorem retry_branches_witness:
  "te_status (objs (snd (retry (\<lambda>_. 20) ''a'' ''boom'' demo1)) 0) = RETRYING"
  using retry_branches [OF demo1_reachable, of "\<lambda>_. 20" "''a''" "''boom''"
      "fst (retry (\<lambda>_. 20) ''a'' ''boom'' demo1)" "snd (retry (\<lambda>_. 20) ''a'' ''boom'' demo1)"]
  by (simp add: demo1_val eval_demo default_spec_def split: if_splits)

text \<open>Retrying the same task again and again.\<close>

definition retry_again :: "clock \<Rightarrow> string \<Rightarrow> string \<Rightarrow> nat \<Rightarrow> broker \<Rightarrow> broker" where
  "retry_again clk tid reason n = ((\<lambda>q. snd (retry clk tid reason q)) ^^ n)"

lemma retry_again_fields:
  assumes "broker_inv q" "dict_get (tasks q) tid = Some a"
  shows "broker_inv (retry_again clk tid reason n q) \<and> tasks (retry_again clk tid reason n q) = tasks q \<and>
    te_spec (objs (retry_again clk tid reason n q) a) = te_spec (objs q a) \<and>
    te_attempts (objs (retry_again clk tid reason n q) a) = te_attempts (objs q a) + int n \<and>
    (0 < n \<longrightarrow> te_status (objs (retry_again clk tid reason n q) a) =
      (if te_attempts (objs q a) + int n > ts_max_retries (te_spec (objs q a)) then DEAD_LETTERED else RETRYING))"
proof (induction n)
  case 0
  with assms show ?case by (simp add: retry_again_def)
next
  case (Suc n)
  let ?q = "retry_again clk tid reason n q"
  have step: "retry_again clk tid reason (Suc n) q = snd (retry clk tid reason ?q)"
    by (simp add: retry_again_def)
  have inv: "broker_inv ?q" and a: "dict_get (tasks ?q) tid = Some a" using Suc assms by simp_all
  show ?case
    unfolding step using Suc retry_inv [OF inv, of clk tid reason] retry_known [OF inv a, of clk reason]
    by (auto simp: retried_def exhausted_def)
qed

text \<open>
  The retry budget is exact: a task with no attempts yet survives exactly \<open>max_retries\<close> failures.
  After \<open>n\<close> retries in a row it is retrying when \<open>n \<le> max_retries\<close> and dead-lettered afterwards.
\<close>

theorem retry_budget:
  assumes "broker_reachable q" and "dict_get (tasks q) tid = Some a" and "te_attempts (objs q a) = 0"
    and "0 < n"
  shows "te_status (objs (retry_again clk tid reason n q) a) =
    (if int n \<le> ts_max_retries (te_spec (objs q a)) then RETRYING else DEAD_LETTERED)"
  using retry_again_fields [OF reachable_inv [OF assms(1)] assms(2), of clk reason n] assms(3,4) by auto

theorem retry_budget_witness:
  "te_status (objs (retry_again (\<lambda>_. 20) ''a'' ''boom'' 4 demo1) 0) = DEAD_LETTERED"
proof -
  have "dict_get (tasks demo1) ''a'' = Some 0" "te_attempts (objs demo1 0) = 0"
    by (simp_all add: demo1_val eval_demo)
  from retry_budget [OF demo1_reachable this, of 4] show ?thesis
    by (simp add: demo1_val eval_demo default_spec_def)
qed

text \<open>
  A task that a retry has dead-lettered cannot be brought back by \<open>retry\<close>: any number of further
  retries leaves it dead-lettered and pushes no entry.
\<close>

theorem dead_letter_not_revived:
  assumes "broker_reachable q" and "dict_get (tasks q) tid = Some a"
    and "te_status (objs q a) = DEAD_LETTERED"
    and "ts_max_retries (te_spec (objs q a)) < te_attempts (objs q a)"
  shows "te_status (objs (retry_again clk tid reason n q) a) = DEAD_LETTERED \<and>
    ready (retry_again clk tid reason n q) = ready q \<and> delayed (retry_again clk tid reason n q) = delayed q"
proof (induction n)
  case 0
  with assms(3) show ?case by (simp add: retry_again_def)
next
  case (Suc n)
  let ?q = "retry_again clk tid reason n q"
  note f = retry_again_fields [OF reachable_inv [OF assms(1)] assms(2), of clk reason n]
  have "exhausted (objs ?q a)" using f assms(4) by (simp add: exhausted_def)
  moreover have inv: "broker_inv ?q" and "dict_get (tasks ?q) tid = Some a" using f assms(2) by simp_all
  ultimately have "snd (retry clk tid reason ?q) = settle a tid (retried (clk 0) reason) ?q"
    and "te_status (retried (clk 0) reason (objs ?q a)) = DEAD_LETTERED"
    by (simp_all add: retry_eq [OF inv] retried_def)
  moreover have "retry_again clk tid reason (Suc n) q = snd (retry clk tid reason ?q)"
    by (simp add: retry_again_def)
  ultimately show ?case using Suc by simp
qed

definition demo_dead :: broker where
  "demo_dead = retry_again (\<lambda>_. 20) ''a'' ''boom'' 4 demo1"

lemma retry_again_reachable: "broker_reachable q \<Longrightarrow> broker_reachable (retry_again clk tid reason n q)"
  by (induction n) (auto simp: retry_again_def intro: broker_reachable.step broker_step.retry)

theorem dead_letter_not_revived_witness:
  "te_status (objs (retry_again (\<lambda>_. 30) ''a'' ''again'' 7 demo_dead) 0) = DEAD_LETTERED"
proof -
  have a: "dict_get (tasks demo1) ''a'' = Some 0" by (simp add: demo1_val)
  have r: "broker_reachable demo_dead"
    unfolding demo_dead_def by (rule retry_again_reachable [OF demo1_reachable])
  have "dict_get (tasks demo_dead) ''a'' = Some 0" "te_status (objs demo_dead 0) = DEAD_LETTERED"
    "ts_max_retries (te_spec (objs demo_dead 0)) < te_attempts (objs demo_dead 0)"
    by code_simp+
  from dead_letter_not_revived [OF r this] show ?thesis by blast
qed

section \<open>Cancelling\<close>

lemma submit_many_cancelled: "cancelled (snd (submit_many clk as q)) = cancelled q"
proof (induction clk as q rule: submit_many.induct)
  case (2 clk a as q)
  show ?case
  proof (cases "depth q \<ge> max_depth q")
    case False
    obtain r q' where "submit_many (later 2 clk) as (admit clk a q) = (r, q')" by fastforce
    with "2.IH" [OF False] False show ?thesis by (cases r) (simp_all del: later_apply)
  qed simp
qed simp

lemma broker_step_cancelled:
  assumes "broker_step q q'" "broker_inv q"
  shows "cancelled q \<subseteq> cancelled q'"
  using assms
proof (induction rule: broker_step.induct)
  case (retry q clk tid reason)
  then show ?case by (cases "dict_get (tasks q) tid") (simp_all add: retry_eq Let_def)
next
  case (requeue q clk)
  then show ?case using requeue_spec [of q clk] by (auto simp: requeued_def)
qed (auto simp: submit_def submit_many_cancelled reserve_poll_tasks ack_eq complete_eq cancel_eq snapshot_def
    Let_def split: option.split)

lemma broker_steps_inv: "broker_step\<^sup>*\<^sup>* q q' \<Longrightarrow> broker_inv q \<Longrightarrow> broker_inv q' \<and> cancelled q \<subseteq> cancelled q'"
  by (induction rule: rtranclp_induct) (auto intro: broker_step_inv dest: broker_step_cancelled)

lemma poll_not_cancelled:
  assumes "broker_inv q" "reserve_poll clk order w completed lease q = (Inr (Some a), q')"
  shows "te_task_id (objs q a) \<notin> cancelled q"
  using assms(1)
proof (cases rule: reserve_poll_cases [of q clk order w completed lease])
  case (some q1 e k a')
  with assms(2) task_id_of [OF assms(1) some(6)] show ?thesis by (simp add: runnable_def)
qed (use assms(2) in simp)

text \<open>
  C11. Cancellation is final for dispatch: after \<open>cancel\<close> succeeded, no sequence of broker calls, retries
  included, leads to a poll that hands the task to a worker.
\<close>

theorem cancelled_never_dispatched:
  assumes "broker_reachable q" and "cancel tid q = (Inr a, q1)" and "broker_step\<^sup>*\<^sup>* q1 q2"
    and "reserve_poll clk order w completed lease q2 = (Inr (Some b), q3)"
  shows "te_task_id (objs q2 b) \<noteq> tid"
proof -
  have inv: "broker_inv q" by (rule reachable_inv [OF assms(1)])
  have inv1: "broker_inv q1" using cancel_inv [OF inv, of tid] assms(2) by simp
  have "tid \<in> cancelled q1" using assms(2) by (auto simp: cancel_eq [OF inv] split: option.splits)
  with broker_steps_inv [OF assms(3) inv1] have "broker_inv q2" "tid \<in> cancelled q2" by auto
  with poll_not_cancelled [OF _ assms(4)] show ?thesis by blast
qed

definition demo_cancelled :: broker where
  "demo_cancelled = snd (cancel ''a'' demo2)"

lemma demo_cancelled_eq: "cancel ''a'' demo2 = (Inr 0, demo_cancelled)"
  by (simp add: demo_cancelled_def cancel_def demo2_val)

theorem cancelled_never_dispatched_witness:
  "\<exists>q3. reserve_poll (\<lambda>_. 20) [''default''] demo_worker {} 30 demo_cancelled = (Inr (Some 1), q3) \<and>
     te_task_id (objs demo_cancelled 1) \<noteq> ''a''"
proof -
  have "fst (reserve_poll (\<lambda>_. 20) [''default''] demo_worker {} 30 demo_cancelled) = Inr (Some 1)"
    by code_simp
  then obtain q3 where q3: "reserve_poll (\<lambda>_. 20) [''default''] demo_worker {} 30 demo_cancelled = (Inr (Some 1), q3)"
    by (metis prod.collapse)
  from cancelled_never_dispatched [OF demo2_reachable demo_cancelled_eq rtranclp.rtrancl_refl q3] q3
  show ?thesis by blast
qed

text \<open>The steps that do not name the task \<open>tid\<close>: everything but a report, a retry or a cancel call for it.\<close>

inductive step_besides :: "string \<Rightarrow> broker \<Rightarrow> broker \<Rightarrow> bool" for tid where
  create: "a \<notin> ran (map_of (tasks q)) \<Longrightarrow> step_besides tid q (q\<lparr>objs := (objs q)(a := t)\<rparr>)"
| submit: "dict_get (tasks q) (te_task_id (objs q a)) = None \<Longrightarrow> step_besides tid q (snd (submit clk a q))"
| submit_many: "fresh_batch as q \<Longrightarrow> step_besides tid q (snd (submit_many clk as q))"
| poll: "step_besides tid q (snd (reserve_poll clk order w completed lease q))"
| ack: "i \<noteq> tid \<Longrightarrow> step_besides tid q (snd (ack i q))"
| complete: "i \<noteq> tid \<Longrightarrow> status \<in> terminal \<Longrightarrow> step_besides tid q (snd (complete i status error q))"
| retry: "i \<noteq> tid \<Longrightarrow> step_besides tid q (snd (retry clk i reason q))"
| cancel: "i \<noteq> tid \<Longrightarrow> step_besides tid q (snd (cancel i q))"
| requeue: "step_besides tid q (snd (requeue_expired_leases clk q))"
| snapshot: "step_besides tid q (snd (snapshot now q))"

lemma besides_broker_step: "step_besides tid q q' \<Longrightarrow> broker_step q q'"
  by (induction rule: step_besides.induct) (auto intro: broker_step.intros)

lemma fresh_other: "binv A q \<Longrightarrow> dict_get (tasks q) tid = Some a \<Longrightarrow> dict_get (tasks q) (te_task_id (objs q b)) = None \<Longrightarrow> b \<noteq> a"
  using task_id_of [of A q tid a] by auto

lemma submit_many_others:
  "broker_inv q \<Longrightarrow> fresh_batch as q \<Longrightarrow> dict_get (tasks q) tid = Some a \<Longrightarrow>
     dict_get (tasks (snd (submit_many clk as q))) tid = Some a
     \<and> objs (snd (submit_many clk as q)) a = objs q a"
proof (induction clk as q rule: submit_many.induct)
  case (2 clk b as q)
  show ?case
  proof (cases "depth q \<ge> max_depth q")
    case False
    note fresh = fresh_batch_step [OF "2.prems"(2)]
    have ne: "b \<noteq> a" by (rule fresh_other [OF "2.prems"(1,3) fresh(1)])
    have "dict_get (tasks (admit clk b q)) tid = Some a" using "2.prems"(3) fresh(1) by auto
    from "2.IH" [OF False admit_inv [OF "2.prems"(1) fresh(1)] fresh(2) this] ne False show ?thesis
      by (cases "submit_many (later 2 clk) as (admit clk b q)") (auto simp del: later_apply split: sum.split)
  qed (use "2.prems" in simp)
qed simp

lemma besides_keeps:
  assumes "step_besides tid q q'" "broker_inv q" "dict_get (tasks q) tid = Some a"
    and "te_status (objs q a) \<noteq> RUNNING" "tid \<in> cancelled q"
  shows "dict_get (tasks q') tid = Some a \<and> objs q' a = objs q a"
  using assms
proof (induction rule: step_besides.induct)
  case (create b q t)
  then have "a \<in> ran (map_of (tasks q))" by (auto simp: ran_def)
  with create show ?case by auto
next
  case (submit q b clk)
  then show ?case using fresh_other [OF submit(2,3,1)] by (auto simp: submit_def)
next
  case (submit_many as q clk)
  then show ?case by (intro submit_many_others)
next
  case (poll q clk order w completed lease)
  note inv = poll(1) and at = poll(2)
  from inv show ?case
  proof (cases rule: reserve_poll_cases [of q clk order w completed lease])
    case (none q1)
    with at show ?thesis by (simp add: scanned_fields)
  next
    case (some q1 e k b)
    have "entry_id e \<noteq> tid" using some(5) poll(4) by (auto simp: runnable_def)
    then have "b \<noteq> a" using tasks_inj [OF inv some(6), of tid] at by auto
    with at some(1) show ?thesis by (simp add: scanned_fields [OF some(2)])
  qed
next
  case (ack i q)
  then show ?case using tasks_inj [OF ack(2,3), of i] by (auto simp: ack_eq split: option.split)
next
  case (complete i status q error)
  then show ?case using tasks_inj [OF complete(3,4), of i] by (auto simp: complete_eq split: option.split)
next
  case (retry i q clk reason)
  then show ?case
    using tasks_inj [OF retry(2,3), of i] retry_known [OF retry(2), of i _ clk reason]
    by (cases "dict_get (tasks q) i") (auto simp: retry_unknown)
next
  case (cancel i q)
  then show ?case using tasks_inj [OF cancel(2,3), of i] by (auto simp: cancel_eq split: option.split)
next
  case (requeue q clk)
  note inv = requeue(1)
  obtain as q' where rq: "requeue_expired_leases clk q = (Inr as, q')" "requeued (clk 0) (inflight q) q as q'"
    using requeue_spec [OF inv, of clk] by blast
  have "a \<notin> set as"
  proof
    assume "a \<in> set as"
    then obtain i where "(i, a) \<in> set (inflight q)" using rq(2) by (auto simp: requeued_def expired_in_def)
    then have "dict_get (inflight q) i = Some a" using binvD(1) [OF inv] by (simp add: dicts_ok_def dict_get_mem)
    moreover from this have "dict_get (tasks q) i = Some a" using binvD(4) [OF inv] by (simp add: alias_ok_def)
    ultimately show False using running_okD(1) [OF inv] requeue(3) by blast
  qed
  with rq requeue(2) show ?case by (simp add: requeued_def)
next
  case (snapshot q now)
  then show ?case by (simp add: snapshot_def Let_def)
qed

lemma besides_steps:
  assumes "(step_besides tid)\<^sup>*\<^sup>* q q'" "broker_inv q" "dict_get (tasks q) tid = Some a"
    and "te_status (objs q a) \<noteq> RUNNING" "tid \<in> cancelled q"
  shows "broker_inv q' \<and> tid \<in> cancelled q' \<and> dict_get (tasks q') tid = Some a \<and> objs q' a = objs q a"
  using assms
proof (induction rule: rtranclp_induct)
  case (step p q')
  then have p: "broker_inv p \<and> tid \<in> cancelled p \<and> dict_get (tasks p) tid = Some a \<and> objs p a = objs q a" by blast
  note s = besides_broker_step [OF step(2)]
  from p besides_keeps [OF step(2), of a] step.prems(3) broker_step_inv [OF s] broker_step_cancelled [OF s]
  show ?case by auto
qed simp

lemma depth_live: "depth q = int (length (filter (\<lambda>(tid, a). te_status (objs q a) \<notin> terminal) (tasks q)))"
  using sum_length_filter_compl [of "\<lambda>x. te_status (objs q (snd x)) \<in> terminal" "tasks q"]
  unfolding depth_def case_prod_beta by linarith

lemma depth_pos:
  assumes "dict_get (tasks q) tid = Some a" "te_status (objs q a) \<notin> terminal"
  shows "0 < depth q"
proof -
  have "(tid, a) \<in> set (filter (\<lambda>(tid, a). te_status (objs q a) \<notin> terminal) (tasks q))"
    using dict_mem_get [OF assms(1)] assms(2) by simp
  then have "0 < length (filter (\<lambda>(tid, a). te_status (objs q a) \<notin> terminal) (tasks q))" by (rule length_pos_if_in_set)
  then show ?thesis unfolding depth_live by linarith
qed

text \<open>
  C26. Retrying a cancelled task loses it.  While its budget lasts (fewer attempts than \<open>max_retries\<close>), the
  retry succeeds and the task is retrying again; but from then on it is stuck: as long as nobody reports,
  retries or cancels this very task, no sequence of other calls, requeue passes included, changes it, no
  poll hands it out, and it goes on counting in the depth that admission control compares with the maximum.
\<close>

theorem retry_after_cancel_is_lost:
  assumes "broker_reachable q" and "cancel tid q = (Inr a, q1)"
    and "te_attempts (objs q a) < ts_max_retries (te_spec (objs q a))"
    and "retry clk tid reason q1 = (r, q2)" and "(step_besides tid)\<^sup>*\<^sup>* q2 q3"
  shows "r = Inr a \<and> te_status (objs q2 a) = RETRYING \<and> dict_get (tasks q3) tid = Some a
    \<and> objs q3 a = objs q2 a \<and> 0 < depth q3
    \<and> fst (reserve_poll clk' order w completed lease q3) \<noteq> Inr (Some a)"
proof -
  have inv: "broker_inv q" by (rule reachable_inv [OF assms(1)])
  have at: "dict_get (tasks q) tid = Some a"
    using assms(2) by (auto simp: cancel_eq [OF inv] split: option.splits)
  have q1: "broker_inv q1" "dict_get (tasks q1) tid = Some a" "tid \<in> cancelled q1"
    "te_attempts (objs q1 a) = te_attempts (objs q a)" "te_spec (objs q1 a) = te_spec (objs q a)"
    using cancel_inv [OF inv, of tid] assms(2) at by (auto simp: cancel_eq [OF inv])
  note known = retry_known [OF q1(1,2), of clk reason]
  have st: "te_status (objs q2 a) = RETRYING" and r: "r = Inr a"
    using assms(3,4) q1 known by (simp_all add: retried_def exhausted_def)
  have q2: "broker_inv q2" "dict_get (tasks q2) tid = Some a" "tid \<in> cancelled q2"
    using retry_inv [OF q1(1), of clk tid reason] assms(4) q1 known by simp_all
  from besides_steps [OF assms(5) q2(1,2) _ q2(3)] st
  have q3: "broker_inv q3" "tid \<in> cancelled q3" "dict_get (tasks q3) tid = Some a" "objs q3 a = objs q2 a" by simp_all
  have "fst (reserve_poll clk' order w completed lease q3) \<noteq> Inr (Some a)"
  proof
    assume "fst (reserve_poll clk' order w completed lease q3) = Inr (Some a)"
    then obtain q4 where "reserve_poll clk' order w completed lease q3 = (Inr (Some a), q4)" by (metis prod.collapse)
    from poll_not_cancelled [OF q3(1) this] task_id_of [OF q3(1,3)] q3(2) show False by simp
  qed
  with r st q3 depth_pos [OF q3(3)] show ?thesis by (simp add: terminal_def)
qed

definition demo_lost :: broker where
  "demo_lost = snd (retry (\<lambda>_. 20) ''a'' ''manual retry'' demo_cancelled)"

theorem retry_after_cancel_is_lost_witness:
  "te_status (objs demo_lost 0) = RETRYING \<and> 0 < depth demo_lost
   \<and> fst (reserve_poll (\<lambda>_. 90) [''default''] demo_worker {} 30 demo_lost) \<noteq> Inr (Some 0)"
proof -
  have budget: "te_attempts (objs demo2 0) < ts_max_retries (te_spec (objs demo2 0))"
    by (simp add: demo2_val eval_demo default_spec_def)
  have retry: "retry (\<lambda>_. 20) ''a'' ''manual retry'' demo_cancelled =
      (fst (retry (\<lambda>_. 20) ''a'' ''manual retry'' demo_cancelled), demo_lost)"
    by (simp add: demo_lost_def)
  from retry_after_cancel_is_lost [OF demo2_reachable demo_cancelled_eq budget retry rtranclp.rtrancl_refl]
  show ?thesis by blast
qed

end
