(* ===== verification/Broker_Leases.thy ===== *)
theory Broker_Leases
  imports Broker_Props
begin

text \<open>
  Leases, completion and the queue snapshot: which tasks the reaper takes back, what \<open>complete\<close> leaves
  behind in the heaps, and what the snapshot's numbers mean.
\<close>

section \<open>Expired leases\<close>

lemma lease_expired_iff: "lease_expired now t \<longleftrightarrow> (\<exists>d. te_lease_deadline t = Some d \<and> d < now)"
  by (simp add: lease_expired_def split: option.split)

lemma requeue_effect:
  assumes "broker_reachable q"
  shows "\<exists>as q'. requeue_expired_leases clk q = (Inr as, q') \<and> distinct as \<and>
    set as = {a. \<exists>tid. dict_get (inflight q) tid = Some a \<and> lease_expired (clk 0) (objs q a)} \<and>
    (\<forall>tid a. dict_get (inflight q') tid = Some a \<longleftrightarrow>
       dict_get (inflight q) tid = Some a \<and> \<not> lease_expired (clk 0) (objs q a)) \<and>
    (\<forall>a. if a \<in> set as
         then te_attempts (objs q' a) = te_attempts (objs q a) + 1 \<and> te_assigned_worker (objs q' a) = None \<and>
           te_status (objs q' a) =
             (if te_attempts (objs q' a) \<le> ts_max_retries (te_spec (objs q a)) then RETRYING else DEAD_LETTERED)
         else objs q' a = objs q a)"
proof -
  have inv: "broker_inv q" by (rule reachable_inv [OF assms])
  from requeue_spec [OF inv, of clk] obtain as q' where
    r: "requeue_expired_leases clk q = (Inr as, q')" and rq: "requeued (clk 0) (inflight q) q as q'" by blast
  let ?exp = "expired_in (clk 0) (inflight q) q"
  have ok: "dict_ok (inflight q)" using binvD(1) [OF inv] by (simp add: dicts_ok_def)
  have exp: "(tid, a) \<in> set ?exp \<longleftrightarrow> dict_get (inflight q) tid = Some a \<and> lease_expired (clk 0) (objs q a)" for tid a
    by (simp add: expired_in_def dict_get_mem [OF ok])
  have as: "as = map snd ?exp" using rq by (simp add: requeued_def)
  have "inj_on snd (set (inflight q))"
  proof (rule inj_onI, clarsimp)
    fix t1 t2 a assume "(t1, a) \<in> set (inflight q)" "(t2, a) \<in> set (inflight q)"
    then have "dict_get (tasks q) t1 = Some a" "dict_get (tasks q) t2 = Some a"
      using binvD(4) [OF inv] by (simp_all add: dict_get_mem [OF ok] alias_ok_def)
    then show "t1 = t2" by (rule tasks_inj [OF inv])
  qed
  moreover have "set ?exp \<subseteq> set (inflight q)" by (auto simp: expired_in_def)
  moreover have "distinct ?exp"
    using ok by (auto simp: expired_in_def dict_ok_def distinct_map)
  ultimately have "distinct as" unfolding as distinct_map by (blast intro: inj_on_subset)
  moreover have set_as: "set as = {a. \<exists>tid. dict_get (inflight q) tid = Some a \<and> lease_expired (clk 0) (objs q a)}"
    unfolding as using exp by force
  moreover have "dict_get (inflight q') tid = Some a \<longleftrightarrow>
      dict_get (inflight q) tid = Some a \<and> \<not> lease_expired (clk 0) (objs q a)" for tid a
  proof -
    have "tid \<in> fst ` set ?exp \<longleftrightarrow>
        (\<exists>b. dict_get (inflight q) tid = Some b \<and> lease_expired (clk 0) (objs q b))"
      using exp by force
    then show ?thesis using rq by (auto simp: requeued_def)
  qed
  moreover have "if a \<in> set as
         then te_attempts (objs q' a) = te_attempts (objs q a) + 1 \<and> te_assigned_worker (objs q' a) = None \<and>
           te_status (objs q' a) =
             (if te_attempts (objs q' a) \<le> ts_max_retries (te_spec (objs q a)) then RETRYING else DEAD_LETTERED)
         else objs q' a = objs q a" for a
  proof -
    have "if a \<in> set as then \<exists>t. objs q' a = retried t ''lease expired'' (objs q a) else objs q' a = objs q a"
      using rq by (simp add: requeued_def)
    then show ?thesis
    proof (cases "a \<in> set as")
      case True
      with \<open>if a \<in> set as then _ else _\<close> obtain t where "objs q' a = retried t ''lease expired'' (objs q a)"
        by auto
      with True show ?thesis by (simp add: retried_def exhausted_def)
    qed simp
  qed
  ultimately show ?thesis using r by blast
qed

text \<open>
  C9. The lease reaper takes back exactly the expired leases: it never raises; it returns the in-flight
  tasks whose deadline lies strictly before the first reading of the clock, each once; those leave the
  in-flight dictionary with one more attempt, no worker, and status retrying or dead-lettered; every
  other task and lease is untouched.
\<close>

theorem requeue_exact:
  assumes "broker_reachable q"
  shows "\<exists>as q'. requeue_expired_leases clk q = (Inr as, q') \<and> distinct as \<and>
    set as = {a. \<exists>tid. dict_get (inflight q) tid = Some a \<and> (\<exists>d. te_lease_deadline (objs q a) = Some d \<and> d < clk 0)} \<and>
    (\<forall>tid a. dict_get (inflight q') tid = Some a \<longleftrightarrow>
       dict_get (inflight q) tid = Some a \<and> \<not> (\<exists>d. te_lease_deadline (objs q a) = Some d \<and> d < clk 0)) \<and>
    (\<forall>a. if a \<in> set as
         then te_attempts (objs q' a) = te_attempts (objs q a) + 1 \<and> te_assigned_worker (objs q' a) = None \<and>
           te_status (objs q' a) =
             (if te_attempts (objs q' a) \<le> ts_max_retries (te_spec (objs q a)) then RETRYING else DEAD_LETTERED)
         else objs q' a = objs q a)"
  by (rule requeue_effect [OF assms, unfolded lease_expired_iff])

definition demo_running :: broker where
  "demo_running = snd (reserve_poll (\<lambda>_. 20) [''default''] demo_worker {} 30 demo1)"

lemma demo_running_reachable: "broker_reachable demo_running"
  unfolding demo_running_def by (rule broker_reachable.step [OF demo1_reachable broker_step.poll])

theorem requeue_exact_witness:
  "\<exists>as q'. requeue_expired_leases (\<lambda>_. 60) demo_running = (Inr as, q') \<and> set as = {0}"
proof -
  have "{a. \<exists>tid. dict_get (inflight demo_running) tid = Some a \<and> (\<exists>d. te_lease_deadline (objs demo_running a) = Some d \<and> d < 60)} = {0}"
  proof -
    have "inflight demo_running = [(''a'', 0)]" "te_lease_deadline (objs demo_running 0) = Some 50" by code_simp+
    then show ?thesis by auto
  qed
  with requeue_exact [OF demo_running_reachable, of "\<lambda>_. 60"] show ?thesis by auto
qed

section \<open>Completion\<close>

text \<open>
  Reporting success does not take a task out of the heaps: when a lease has expired and the task was
  requeued, a late success report marks it succeeded, but its heap entry stays, in the ready heap of its
  queue or in the delayed heap.
\<close>

theorem late_success_keeps_entry:
  assumes "broker_reachable q" and "dict_get (inflight q) tid = Some a"
    and "lease_expired (clk 0) (objs q a)" and "tid \<notin> cancelled q"
    and "te_attempts (objs q a) < ts_max_retries (te_spec (objs q a))"
    and "requeue_expired_leases clk q = (r, q1)" and "complete tid SUCCEEDED None q1 = (r', q2)"
  shows "r' = Inr a \<and> te_status (objs q2 a) = SUCCEEDED \<and>
    ((\<exists>e \<in> set (dd_get (ready q2) (ts_queue (te_spec (objs q2 a)))). entry_id e = tid) \<or>
     (\<exists>e \<in> set (delayed q2). delayed_id e = tid))"
proof -
  have inv: "broker_inv q" by (rule reachable_inv [OF assms(1)])
  have at: "dict_get (tasks q) tid = Some a" using binvD(4) [OF inv] assms(2) by (simp add: alias_ok_def)
  from requeue_spec [OF inv, of clk] assms(6) obtain as where
    rq: "requeued (clk 0) (inflight q) q as q1" by auto
  have "(tid, a) \<in> set (expired_in (clk 0) (inflight q) q)"
    using assms(2,3) dict_mem_get [OF assms(2)] by (simp add: expired_in_def)
  then have "a \<in> set as" using rq by (force simp: requeued_def)
  moreover have "if a \<in> set as then \<exists>t. objs q1 a = retried t ''lease expired'' (objs q a) else objs q1 a = objs q a"
    using rq unfolding requeued_def by blast
  ultimately obtain t where t: "objs q1 a = retried t ''lease expired'' (objs q a)" by auto
  have inv1: "broker_inv q1" and at1: "dict_get (tasks q1) tid = Some a" and nc: "tid \<notin> cancelled q1"
    using rq at assms(4) by (simp_all add: requeued_def)
  have "te_status (objs q1 a) \<in> waiting"
    using assms(5) by (simp add: t retried_def exhausted_def waiting_def)
  then have e: "has_entry q1 a" using pending_okD [OF binvD(9) [OF inv1] at1 _ nc] by simp
  have q2: "r' = Inr a" "ready q2 = ready q1" "delayed q2 = delayed q1" "te_status (objs q2 a) = SUCCEEDED"
    "te_spec (objs q2 a) = te_spec (objs q1 a)"
    using assms(7) at1 by (auto simp: complete_eq [OF inv1])
  with e task_id_of [OF inv1 at1] show ?thesis by (auto simp: has_entry_def)
qed

theorem late_success_keeps_entry_witness:
  "te_status (objs (snd (complete ''a'' SUCCEEDED None (snd (requeue_expired_leases (\<lambda>_. 60) demo_running)))) 0)
     = SUCCEEDED"
proof -
  have a: "dict_get (inflight demo_running) ''a'' = Some 0" "lease_expired 60 (objs demo_running 0)"
    "''a'' \<notin> cancelled demo_running"
    "te_attempts (objs demo_running 0) < ts_max_retries (te_spec (objs demo_running 0))"
    by code_simp+
  show ?thesis
    using late_success_keeps_entry [OF demo_running_reachable a(1) _ a(3,4), of "\<lambda>_. 60"] a(2)
    by (metis prod.collapse)
qed

section \<open>The snapshot\<close>

text \<open>
  The snapshot's numbers: \<open>inflight\<close> counts the running tasks and \<open>dead_lettered\<close> at least the
  dead-lettered ones; every entry it counts as delayed is due only later; taking it changes no task; and
  the pressure is the share of the active entries in the maximal depth, never negative.
\<close>

theorem snapshot_counts:
  assumes "broker_reachable q" and "snapshot now q = (s, q')"
  shows "qs_inflight s = int (card {tid. \<exists>a. dict_get (tasks q) tid = Some a \<and> te_status (objs q a) = RUNNING}) \<and>
    int (card {tid. \<exists>a. dict_get (tasks q) tid = Some a \<and> te_status (objs q a) = DEAD_LETTERED})
      \<le> qs_dead_lettered s \<and>
    (\<forall>e \<in> set (delayed q'). now < fst e) \<and> qs_delayed s = int (length (delayed q')) \<and>
    tasks q' = tasks q \<and> objs q' = objs q \<and> 0 \<le> qs_pressure s \<and>
    qs_pressure s * of_int (max 1 (max_depth q)) = of_int (qs_queued s + qs_delayed s + qs_inflight s)"
proof -
  have inv: "broker_inv q" by (rule reachable_inv [OF assms(1)])
  have card: "card (dom (map_of d)) = length d" if "dict_ok d" for d :: "(string, addr) dict"
    using that by (simp add: dict_ok_def dom_map_of_conv_image_fst distinct_card flip: set_map)
  have "{tid. \<exists>a. dict_get (tasks q) tid = Some a \<and> te_status (objs q a) = RUNNING} = dom (map_of (inflight q))"
  proof -
    have "dict_get (tasks q) tid = Some a \<and> te_status (objs q a) = RUNNING \<longleftrightarrow> dict_get (inflight q) tid = Some a" for tid a
      using running_okD(1) [OF inv] binvD(4) [OF inv] unfolding alias_ok_def by blast
    then show ?thesis by auto
  qed
  then have run: "int (card {tid. \<exists>a. dict_get (tasks q) tid = Some a \<and> te_status (objs q a) = RUNNING}) =
      int (length (inflight q))"
    using card binvD(1) [OF inv] by (simp add: dicts_ok_def)
  have "{tid. \<exists>a. dict_get (tasks q) tid = Some a \<and> te_status (objs q a) = DEAD_LETTERED} \<subseteq>
      dom (map_of (dead_letter q))"
    using binvD(6) [OF inv] by (auto simp: dlq_ok_def)
  then have dead: "card {tid. \<exists>a. dict_get (tasks q) tid = Some a \<and> te_status (objs q a) = DEAD_LETTERED}
      \<le> length (dead_letter q)"
  proof (rule order_trans [OF card_mono [OF finite_dom_map_of]])
    show "card (dom (map_of (dead_letter q))) \<le> length (dead_letter q)"
      using card [of "dead_letter q"] binvD(1) [OF inv] by (simp add: dicts_ok_def)
  qed
  have q': "q' = promote_delayed now q" and s: "qs_inflight s = int (length (inflight q))"
    "qs_dead_lettered s = int (length (dead_letter q))" "qs_delayed s = int (length (delayed q'))"
    "0 \<le> qs_queued s"
    "qs_pressure s = of_int (qs_queued s + qs_delayed s + qs_inflight s) / of_int (max 1 (max_depth q))"
    using assms(2) by (auto simp: snapshot_def Let_def)
  have due: "now < fst e" if "e \<in> set (delayed q')" for e
    using promote_delayed_due [of q e now] that binvD(2) [OF inv] by (simp add: q' heaps_ok_def)
  have pos: "(0::real) < of_int (max 1 (max_depth q))" by simp
  have "0 \<le> qs_queued s + qs_delayed s + qs_inflight s" using s by simp
  then have "0 \<le> qs_pressure s" unfolding s(5) using pos by (intro divide_nonneg_pos) simp_all
  moreover have "qs_pressure s * of_int (max 1 (max_depth q)) = of_int (qs_queued s + qs_delayed s + qs_inflight s)"
    unfolding s(5) times_divide_eq_left
    by (rule nonzero_mult_div_cancel_right) (use pos in linarith)
  moreover have "tasks q' = tasks q" "objs q' = objs q" by (simp_all add: q')
  ultimately show ?thesis
    using run dead due s(1-3) by (intro conjI ballI) simp_all
qed

theorem snapshot_counts_witness:
  "qs_inflight (fst (snapshot 25 demo_running)) = 1"
proof -
  have "{tid. \<exists>a. dict_get (tasks demo_running) tid = Some a \<and> te_status (objs demo_running a) = RUNNING} = {''a''}"
  proof -
    have "tasks demo_running = [(''a'', 0)]" "te_status (objs demo_running 0) = RUNNING" by code_simp+
    then show ?thesis by auto
  qed
  with snapshot_counts [OF demo_running_reachable, of 25 "fst (snapshot 25 demo_running)"
      "snd (snapshot 25 demo_running)"] show ?thesis by simp
qed

end
