(* ===== verification/Broker_Spec.thy ===== *)
theory Broker_Spec
  imports Broker_Leases
begin

text \<open>
  What the broker promises, without its heaps, counters, object addresses and the two extra dictionaries: a
  finite map from task ids to tasks, the set of cancelled ids and the capacity.  Every method of the
  detailed model is a function on this abstract state, or a relation where the answer depends on an order
  or on entries that the abstract state does not have (a poll, a requeue pass, a batch, the snapshot).
\<close>

section \<open>The abstract broker\<close>

record board =
  bd_tasks :: "string \<Rightarrow> task_envelope option"
  bd_cancelled :: "string set"
  bd_capacity :: int

definition board_of :: "broker \<Rightarrow> board" where
  "board_of q = \<lparr>bd_tasks = (\<lambda>tid. map_option (objs q) (dict_get (tasks q) tid)),
     bd_cancelled = cancelled q, bd_capacity = max_depth q\<rparr>"

text \<open>The answer of a call, with the object for its address.\<close>

definition outcome :: "('e + addr) \<times> broker \<Rightarrow> ('e + task_envelope) \<times> board" where
  "outcome r = (case r of (x, q) \<Rightarrow> (map_sum id (objs q) x, board_of q))"

definition outcomes :: "('e + addr list) \<times> broker \<Rightarrow> ('e + task_envelope list) \<times> board" where
  "outcomes r = (case r of (x, q) \<Rightarrow> (map_sum id (map (objs q)) x, board_of q))"

definition active_count :: "board \<Rightarrow> int" where
  "active_count b = int (card {tid. \<exists>t. bd_tasks b tid = Some t \<and> te_status t \<notin> terminal})"

definition put_task :: "string \<Rightarrow> task_envelope \<Rightarrow> board \<Rightarrow> board" where
  "put_task tid t b = b\<lparr>bd_tasks := (bd_tasks b)(tid \<mapsto> t)\<rparr>"

section \<open>Its operations\<close>

definition board_submit :: "seconds \<Rightarrow> task_envelope \<Rightarrow> board \<Rightarrow> (broker_error + task_envelope) \<times> board" where
  "board_submit now t b =
     (if active_count b \<ge> bd_capacity b then (Inl (QueueFullError (active_count b) (bd_capacity b)), b)
      else (Inr (queued_as now t), put_task (te_task_id t) (queued_as now t) b))"

text \<open>A batch is submitted task by task, up to the first that does not fit.\<close>

fun board_submit_many ::
    "clock \<Rightarrow> task_envelope list \<Rightarrow> board \<Rightarrow> (broker_error + task_envelope list) \<times> board" where
  "board_submit_many clk [] b = (Inr [], b)"
| "board_submit_many clk (t # ts) b =
     (case board_submit (clk 0) t b of
        (Inl x, b1) \<Rightarrow> (Inl x, b1)
      | (Inr u, b1) \<Rightarrow>
          (case board_submit_many (later 2 clk) ts b1 of
             (Inl x, b2) \<Rightarrow> (Inl x, b2)
           | (Inr us, b2) \<Rightarrow> (Inr (u # us), b2)))"

definition board_get :: "string \<Rightarrow> board \<Rightarrow> broker_error + task_envelope" where
  "board_get tid b = (case bd_tasks b tid of None \<Rightarrow> Inl (TaskNotFoundError tid) | Some t \<Rightarrow> Inr t)"

text \<open>The queued tasks with a batch key, each once in some order, cut as the slice says.\<close>

definition board_batch :: "string \<Rightarrow> int \<Rightarrow> board \<Rightarrow> task_envelope list \<Rightarrow> bool" where
  "board_batch k n b ts \<longleftrightarrow> (\<exists>ids. distinct ids
     \<and> set ids = {tid. \<exists>t. bd_tasks b tid = Some t \<and> ts_batch_key (te_spec t) = Some k \<and> te_status t = QUEUED}
     \<and> ts = py_take n (map (\<lambda>tid. the (bd_tasks b tid)) ids))"

definition board_update ::
    "string \<Rightarrow> (task_envelope \<Rightarrow> task_envelope) \<Rightarrow> board \<Rightarrow> (broker_error + task_envelope) \<times> board" where
  "board_update tid f b =
     (case bd_tasks b tid of
        None \<Rightarrow> (Inl (TaskNotFoundError tid), b)
      | Some t \<Rightarrow> (Inr (f t), put_task tid (f t) b))"

definition acked :: "task_envelope \<Rightarrow> task_envelope" where
  "acked t = t\<lparr>te_status := ACKED, te_lease_deadline := None\<rparr>"

definition completed_as :: "task_status \<Rightarrow> string option \<Rightarrow> task_envelope \<Rightarrow> task_envelope" where
  "completed_as st err t = t\<lparr>te_status := st, te_last_error := err, te_lease_deadline := None\<rparr>"

definition board_cancel :: "string \<Rightarrow> board \<Rightarrow> (broker_error + task_envelope) \<times> board" where
  "board_cancel tid b =
     (case board_update tid (\<lambda>t. t\<lparr>te_status := CANCELLED\<rparr>) b of
        (Inl x, b1) \<Rightarrow> (Inl x, b1)
      | (Inr t, b1) \<Rightarrow> (Inr t, b1\<lparr>bd_cancelled := insert tid (bd_cancelled b1)\<rparr>))"

text \<open>
  A poll hands out one task that may run, unless no waiting task that is due may run: then it finds nothing
  and changes nothing.  No waiting task that is due and may run comes before the one it hands out.
  (That one need not be waiting: the entries of a finished task can outlive it.)
\<close>

definition dispatched :: "worker_info \<Rightarrow> seconds \<Rightarrow> task_envelope \<Rightarrow> task_envelope" where
  "dispatched w deadline t = t\<lparr>te_status := RUNNING, te_assigned_worker := Some (wi_worker_id w),
     te_lease_deadline := Some deadline\<rparr>"

definition may_run :: "worker_info \<Rightarrow> string set \<Rightarrow> board \<Rightarrow> string \<Rightarrow> task_envelope \<Rightarrow> bool" where
  "may_run w completed b tid t \<longleftrightarrow> bd_tasks b tid = Some t \<and> tid \<notin> bd_cancelled b \<and> accepts w t
     \<and> ts_depends_on (te_spec t) \<subseteq> completed"

definition due_waiting :: "seconds \<Rightarrow> task_envelope \<Rightarrow> bool" where
  "due_waiting now t \<longleftrightarrow> te_status t \<in> {QUEUED, RETRYING} \<and> te_available_at t \<le> now"

definition urgency :: "task_envelope \<Rightarrow> int \<times> seconds" where
  "urgency t = (ts_priority (te_spec t), te_created_at t)"

inductive board_poll ::
    "worker_info \<Rightarrow> string set \<Rightarrow> seconds \<Rightarrow> seconds \<Rightarrow> board \<Rightarrow> task_envelope option \<Rightarrow> board \<Rightarrow> bool"
  for w completed now deadline where
  nothing: "(\<And>tid t. may_run w completed b tid t \<Longrightarrow> \<not> due_waiting now t) \<Longrightarrow> board_poll w completed now deadline b None b"
| found: "may_run w completed b tid t \<Longrightarrow>
    (\<And>i u. may_run w completed b i u \<Longrightarrow> due_waiting now u \<Longrightarrow> urgency t \<le> urgency u) \<Longrightarrow>
    board_poll w completed now deadline b (Some (dispatched w deadline t)) (put_task tid (dispatched w deadline t) b)"

text \<open>
  A requeue pass retries exactly the running tasks whose lease is over, at times of its own, and answers
  with these tasks as they are afterwards.
\<close>

definition lease_over :: "seconds \<Rightarrow> task_envelope \<Rightarrow> bool" where
  "lease_over now t \<longleftrightarrow> te_status t = RUNNING \<and> (\<exists>d. te_lease_deadline t = Some d \<and> d < now)"

definition board_requeue :: "seconds \<Rightarrow> board \<Rightarrow> broker_error + task_envelope list \<Rightarrow> board \<Rightarrow> bool" where
  "board_requeue now b r b' \<longleftrightarrow> bd_cancelled b' = bd_cancelled b \<and> bd_capacity b' = bd_capacity b \<and>
     (\<forall>tid. case bd_tasks b tid of
         None \<Rightarrow> bd_tasks b' tid = None
       | Some t \<Rightarrow> if lease_over now t then \<exists>u. bd_tasks b' tid = Some (retried u ''lease expired'' t)
                   else bd_tasks b' tid = Some t) \<and>
     (\<exists>ids. distinct ids \<and> set ids = {tid. \<exists>t. bd_tasks b tid = Some t \<and> lease_over now t}
        \<and> r = Inr (map (\<lambda>tid. the (bd_tasks b' tid)) ids))"

text \<open>
  The snapshot: as many in flight as tasks run; at least the dead-lettered tasks among the dead letters, and
  at least the waiting tasks among the queued and delayed entries (entries and dead letters can outlive
  their tasks' states); and the share of all these entries in the capacity.
\<close>

definition board_snapshot :: "board \<Rightarrow> queue_snapshot \<Rightarrow> bool" where
  "board_snapshot b s \<longleftrightarrow>
     qs_inflight s = int (card {tid. \<exists>t. bd_tasks b tid = Some t \<and> te_status t = RUNNING})
     \<and> int (card {tid. \<exists>t. bd_tasks b tid = Some t \<and> te_status t = DEAD_LETTERED}) \<le> qs_dead_lettered s
     \<and> int (card {tid. \<exists>t. bd_tasks b tid = Some t \<and> te_status t \<in> {QUEUED, RETRYING} \<and> tid \<notin> bd_cancelled b})
         \<le> qs_queued s + qs_delayed s
     \<and> qs_pressure s = of_int (qs_queued s + qs_delayed s + qs_inflight s) / of_int (max 1 (bd_capacity b))"

section \<open>The detailed broker implements it\<close>

lemma board_of_upd:
  assumes "binv A q" "dict_get (tasks q) tid = Some a" "tasks q' = tasks q" "cancelled q' = cancelled q"
    "max_depth q' = max_depth q" "objs q' = (objs q)(a := t)"
  shows "board_of q' = put_task tid t (board_of q)"
proof -
  have "map_option (objs q') (dict_get (tasks q') i) = (if i = tid then Some t else map_option (objs q) (dict_get (tasks q) i))" for i
    using tasks_inj [OF assms(1,2), of i] assms(2,3,6) by (cases "dict_get (tasks q) i") auto
  then show ?thesis using assms(4,5) by (simp add: board_of_def put_task_def fun_eq_iff)
qed

lemma board_tasks_some: "dict_get (tasks q) tid = Some a \<Longrightarrow> bd_tasks (board_of q) tid = Some (objs q a)"
  by (simp add: board_of_def)

lemma board_tasks_none: "dict_get (tasks q) tid = None \<Longrightarrow> bd_tasks (board_of q) tid = None"
  by (simp add: board_of_def)

lemma board_fields [simp]: "bd_cancelled (board_of q) = cancelled q" "bd_capacity (board_of q) = max_depth q"
  by (simp_all add: board_of_def)

lemma settle_outcome:
  assumes "broker_inv q" "dict_get (tasks q) tid = Some a"
  shows "outcome (Inr a, settle a tid f q) = board_update tid f (board_of q)"
  using board_of_upd [OF assms, of "settle a tid f q" "f (objs q a)"] board_tasks_some [OF assms(2)]
  by (simp add: outcome_def board_update_def)

lemma unknown_outcome:
  "dict_get (tasks q) tid = None \<Longrightarrow> outcome (Inl (TaskNotFoundError tid), q) = board_update tid f (board_of q)"
  by (simp add: outcome_def board_update_def board_tasks_none)

lemma ack_refines: "broker_inv q \<Longrightarrow> outcome (ack tid q) = board_update tid acked (board_of q)"
  by (cases "dict_get (tasks q) tid")
    (simp_all add: ack_eq unknown_outcome [where f = acked] settle_outcome acked_def [abs_def])

lemma complete_refines: "broker_inv q \<Longrightarrow> outcome (complete tid st err q) = board_update tid (completed_as st err) (board_of q)"
  by (cases "dict_get (tasks q) tid")
    (simp_all add: complete_eq unknown_outcome [where f = "completed_as st err"] settle_outcome completed_as_def [abs_def])

lemma retry_refines: "broker_inv q \<Longrightarrow> outcome (retry clk tid reason q) = board_update tid (retried (clk 0) reason) (board_of q)"
proof (cases "dict_get (tasks q) tid")
  case (Some a)
  assume inv: "broker_inv q"
  show ?thesis
    using board_of_upd [OF inv Some, of "snd (retry clk tid reason q)" "retried (clk 0) reason (objs q a)"]
      board_tasks_some [OF Some] Some
    by (simp add: retry_eq [OF inv] outcome_def board_update_def Let_def)
qed (simp add: retry_eq unknown_outcome [where f = "retried (clk 0) reason"])

lemma cancel_refines: "broker_inv q \<Longrightarrow> outcome (cancel tid q) = board_cancel tid (board_of q)"
proof (cases "dict_get (tasks q) tid")
  case (Some a)
  assume inv: "broker_inv q"
  let ?f = "\<lambda>t. t\<lparr>te_status := CANCELLED\<rparr>"
  have "board_of (settle a tid ?f q) = put_task tid (?f (objs q a)) (board_of q)"
    by (rule board_of_upd [OF inv Some]) simp_all
  then show ?thesis
    using Some board_tasks_some [OF Some]
    by (simp add: cancel_eq [OF inv] outcome_def board_cancel_def board_update_def board_of_def put_task_def)
qed (simp add: cancel_eq outcome_def board_cancel_def board_update_def board_tasks_none)

lemma depth_active:
  assumes "broker_inv q"
  shows "depth q = active_count (board_of q)"
proof -
  let ?live = "filter (\<lambda>(tid, a). te_status (objs q a) \<notin> terminal) (tasks q)"
  have ok: "dict_ok (tasks q)" using binvD(1) [OF assms] by (simp add: dicts_ok_def)
  have "{tid. \<exists>t. bd_tasks (board_of q) tid = Some t \<and> te_status t \<notin> terminal} = fst ` set ?live"
    using dict_get_mem [OF ok] by (force simp: board_of_def)
  moreover have "card (fst ` set ?live) = length ?live"
  proof -
    have "distinct (map fst ?live)" using ok by (simp add: dict_ok_def distinct_map_filter)
    then show ?thesis using distinct_card [of "map fst ?live"] by simp
  qed
  ultimately show ?thesis by (simp add: active_count_def depth_live)
qed

lemma submit_refines:
  assumes inv: "broker_inv q" and fresh: "dict_get (tasks q) (te_task_id (objs q a)) = None"
  shows "outcome (submit clk a q) = board_submit (clk 0) (objs q a) (board_of q)"
proof (cases "depth q \<ge> max_depth q")
  case True
  then show ?thesis using depth_active [OF inv] by (simp add: submit_def outcome_def board_submit_def)
next
  case False
  let ?t = "queued_as (clk 0) (objs q a)"
  have other: "b \<noteq> a" if "dict_get (tasks q) i = Some b" for i b
    using that fresh task_id_of [OF inv that] by auto
  have id: "te_task_id ?t = te_task_id (objs q a)" by (simp add: queued_as_def)
  have "map_option ((objs q)(a := ?t)) (dict_get (tasks q) i) = map_option (objs q) (dict_get (tasks q) i)" for i
    using other by (cases "dict_get (tasks q) i") auto
  then have "board_of (admit clk a q) = put_task (te_task_id (objs q a)) ?t (board_of q)"
    by (simp add: admit_eq board_of_def put_task_def file_task_def id fun_eq_iff)
  moreover have "objs (admit clk a q) a = ?t" by (simp add: admit_eq file_task_def)
  ultimately show ?thesis
    using False depth_active [OF inv] by (simp add: submit_def outcome_def board_submit_def)
qed

lemma submit_many_refines:
  "broker_inv q \<Longrightarrow> fresh_batch as q \<Longrightarrow>
     outcomes (submit_many clk as q) = board_submit_many clk (map (objs q) as) (board_of q)"
proof (induction clk as q rule: submit_many.induct)
  case (1 clk q)
  then show ?case by (simp add: outcomes_def)
next
  case (2 clk a as q)
  note fresh = fresh_batch_step [OF "2.prems"(2)]
  note one = submit_refines [OF "2.prems"(1) fresh(1), of clk]
  show ?case
  proof (cases "depth q \<ge> max_depth q")
    case True
    with one show ?thesis by (auto simp: submit_def outcome_def outcomes_def split: prod.splits sum.splits)
  next
    case False
    let ?q = "admit clk a q"
    have one': "board_submit (clk 0) (objs q a) (board_of q) = (Inr (objs ?q a), board_of ?q)"
      using one False by (simp add: submit_def outcome_def)
    have "a \<notin> set as" using "2.prems"(2) by (auto simp: fresh_batch_def)
    then have same: "map (objs ?q) as = map (objs q) as" by auto
    note inv = admit_inv [OF "2.prems"(1) fresh(1), of clk]
    obtain r q' where r: "submit_many (later 2 clk) as ?q = (r, q')" by fastforce
    have "objs (snd (submit_many (later 2 clk) as ?q)) a = objs ?q a"
      by (rule conjunct2 [OF submit_many_others [OF inv fresh(2), of "te_task_id (objs q a)"]]) simp
    then have kept: "objs q' a = objs ?q a" unfolding r snd_conv .
    from "2.IH" [OF False inv fresh(2)]
    have ih: "board_submit_many (later 2 clk) (map (objs q) as) (board_of ?q) = (map_sum id (map (objs q')) r, board_of q')"
      unfolding same r by (simp only: outcomes_def prod.case)
    have "submit_many clk (a # as) q = (case r of Inl e \<Rightarrow> (Inl e, q') | Inr bs \<Rightarrow> (Inr (a # bs), q'))"
      using False r by (cases r) (simp_all del: later_apply)
    then show ?thesis
      unfolding list.map board_submit_many.simps one' prod.case sum.case ih
      using kept by (cases r) (simp_all add: outcomes_def)
  qed
qed

lemma py_take_map: "map f (py_take n xs) = py_take n (map f xs)"
  by (simp add: py_take_def take_map)

lemma batch_refines:
  assumes inv: "broker_inv q"
  shows "board_batch k n (board_of q) (map (objs q) (batch k n q))"
proof -
  let ?sel = "filter (\<lambda>(i, a). ts_batch_key (te_spec (objs q a)) = Some k \<and> te_status (objs q a) = QUEUED) (tasks q)"
  let ?ids = "map fst ?sel"
  have ok: "dict_ok (tasks q)" using binvD(1) [OF inv] by (simp add: dicts_ok_def)
  have "distinct ?ids" using ok by (simp add: dict_ok_def distinct_map_filter)
  moreover have "set ?ids = {tid. \<exists>t. bd_tasks (board_of q) tid = Some t \<and> ts_batch_key (te_spec t) = Some k
      \<and> te_status t = QUEUED}"
    using dict_get_mem [OF ok] by (force simp: board_of_def)
  moreover have "map (objs q) (batch k n q) = py_take n (map (\<lambda>tid. the (bd_tasks (board_of q) tid)) ?ids)"
  proof -
    have "map (objs q) (map snd ?sel) = map (\<lambda>tid. the (bd_tasks (board_of q) tid)) ?ids"
      using dict_get_mem [OF ok] by (auto simp: board_of_def)
    moreover have "batch k n q = py_take n (map snd ?sel)"
      by (simp add: batch_def filter_map comp_def case_prod_unfold)
    ultimately show ?thesis by (simp only: py_take_map)
  qed
  ultimately show ?thesis unfolding board_batch_def by blast
qed

lemma get_refines: "map_sum id (objs q) (get tid q) = board_get tid (board_of q)"
  by (simp add: get_def board_get_def board_of_def split: option.split)

lemma may_run_board:
  "may_run w completed (board_of q) tid t \<longleftrightarrow> (\<exists>a. dict_get (tasks q) tid = Some a \<and> t = objs q a
     \<and> tid \<notin> cancelled q \<and> accepts w t \<and> ts_depends_on (te_spec t) \<subseteq> completed)"
  by (auto simp: may_run_def board_of_def)

lemma poll_refines:
  assumes inv: "broker_inv q" and p: "reserve_poll clk order w completed lease q = (r, q')" and order: "set order = wi_queues w"
  shows "\<exists>x. r = Inr x \<and> board_poll w completed (clk 0) (clk 1 + lease) (board_of q) (map_option (objs q') x) (board_of q')"
  using inv
proof (cases rule: reserve_poll_cases [of q clk order w completed lease])
  case (none q1)
  have "board_of q1 = board_of q" using scanned_fields [OF none(2)] by (simp add: board_of_def)
  moreover have "\<not> due_waiting (clk 0) t" if "may_run w completed (board_of q) tid t" for tid t
    using that poll_some [OF inv, of tid _ clk w completed order lease] order none(1)
    by (auto simp: may_run_board due_waiting_def)
  then have "board_poll w completed (clk 0) (clk 1 + lease) (board_of q) None (board_of q)" by (rule board_poll.nothing)
  ultimately show ?thesis using p none(1) by auto
next
  case (some q1 e k a)
  let ?t = "dispatched w (clk 1 + lease) (objs q a)"
  have r: "r = Inr (Some a)" "q' = dispatch a (wi_worker_id w) (clk 1 + lease) (take_entry k e q1)"
    using p some(1) by simp_all
  note same = scanned_fields [OF some(2)]
  have objs: "objs q' = (objs q)(a := ?t)" using r(2) same by (simp add: dispatched_def take_entry_def)
  have "board_of q' = put_task (entry_id e) ?t (board_of q)"
    by (rule board_of_upd [OF inv some(6)]) (use r(2) same objs in \<open>simp_all add: take_entry_def\<close>)
  moreover have "board_poll w completed (clk 0) (clk 1 + lease) (board_of q) (Some ?t) (put_task (entry_id e) ?t (board_of q))"
  proof (rule board_poll.found)
    show "may_run w completed (board_of q) (entry_id e) (objs q a)"
      using some(5,6) by (simp add: may_run_board runnable_def)
    fix i u assume "may_run w completed (board_of q) i u" "due_waiting (clk 0) u"
    then show "urgency (objs q a) \<le> urgency u"
      using poll_best [OF inv, of clk order w completed lease a q'] p r(1) order
      by (auto simp: may_run_board due_waiting_def urgency_def)
  qed
  ultimately show ?thesis using r(1) objs by simp
qed

lemma requeue_refines:
  assumes inv: "broker_inv q"
  shows "case outcomes (requeue_expired_leases clk q) of (r, b') \<Rightarrow> board_requeue (clk 0) (board_of q) r b'"
proof -
  obtain as q' where rq: "requeue_expired_leases clk q = (Inr as, q')" "requeued (clk 0) (inflight q) q as q'"
    using requeue_spec [OF inv] by blast
  let ?exp = "expired_in (clk 0) (inflight q) q"
  have same: "tasks q' = tasks q" "cancelled q' = cancelled q" "max_depth q' = max_depth q"
    and as: "as = map snd ?exp"
    and objs: "\<And>a. if a \<in> set as then \<exists>t. objs q' a = retried t ''lease expired'' (objs q a) else objs q' a = objs q a"
    using rq(2) unfolding requeued_def by blast+
  have ok: "dict_ok (inflight q)" using binvD(1) [OF inv] by (simp add: dicts_ok_def)
  have filed: "dict_get (tasks q) i = Some a \<and> lease_over (clk 0) (objs q a)" if "(i, a) \<in> set ?exp" for i a
  proof -
    have f: "dict_get (inflight q) i = Some a" "lease_expired (clk 0) (objs q a)"
      using that by (simp_all add: dict_get_mem [OF ok] expired_in_def)
    then have "dict_get (tasks q) i = Some a" using binvD(4) [OF inv] by (simp add: alias_ok_def)
    with f running_okD(1) [OF inv this] show ?thesis by (simp add: lease_over_def lease_expired_iff)
  qed
  have found: "(i, a) \<in> set ?exp" if "dict_get (tasks q) i = Some a" "lease_over (clk 0) (objs q a)" for i a
    using that running_okD(1) [OF inv that(1)]
    by (auto simp: lease_over_def lease_expired_iff expired_in_def dict_get_mem [OF ok])
  have mem: "a \<in> set as \<longleftrightarrow> lease_over (clk 0) (objs q a)" if a: "dict_get (tasks q) tid = Some a" for tid a
  proof
    assume "a \<in> set as"
    then obtain i where "(i, a) \<in> set ?exp" unfolding as by auto
    then show "lease_over (clk 0) (objs q a)" using filed by blast
  next
    assume "lease_over (clk 0) (objs q a)"
    from found [OF a this] show "a \<in> set as" unfolding as by (simp add: rev_image_eqI)
  qed
  have "case bd_tasks (board_of q) tid of
      None \<Rightarrow> bd_tasks (board_of q') tid = None
    | Some t \<Rightarrow> if lease_over (clk 0) t
        then \<exists>u. bd_tasks (board_of q') tid = Some (retried u ''lease expired'' t)
        else bd_tasks (board_of q') tid = Some t" for tid
  proof (cases "dict_get (tasks q) tid")
    case (Some a)
    then show ?thesis using objs [of a] mem [OF Some] by (auto simp: board_of_def same)
  qed (simp add: board_of_def same)
  moreover have "\<exists>ids. distinct ids \<and> set ids = {tid. \<exists>t. bd_tasks (board_of q) tid = Some t \<and> lease_over (clk 0) t}
      \<and> (Inr (map (objs q') as) :: broker_error + task_envelope list)
        = Inr (map (\<lambda>tid. the (bd_tasks (board_of q') tid)) ids)"
  proof (intro exI conjI)
    show "distinct (map fst ?exp)" using ok by (simp add: expired_in_def dict_ok_def distinct_map_filter)
    show "set (map fst ?exp) = {tid. \<exists>t. bd_tasks (board_of q) tid = Some t \<and> lease_over (clk 0) t}"
    proof (intro set_eqI iffI)
      fix i assume "i \<in> set (map fst ?exp)"
      then obtain a where "(i, a) \<in> set ?exp" by auto
      from filed [OF this] show "i \<in> {tid. \<exists>t. bd_tasks (board_of q) tid = Some t \<and> lease_over (clk 0) t}"
        by (simp add: board_of_def)
    next
      fix i assume "i \<in> {tid. \<exists>t. bd_tasks (board_of q) tid = Some t \<and> lease_over (clk 0) t}"
      then obtain a where "dict_get (tasks q) i = Some a" "lease_over (clk 0) (objs q a)" by (auto simp: board_of_def)
      from found [OF this] show "i \<in> set (map fst ?exp)" by (simp add: rev_image_eqI)
    qed
    have "the (bd_tasks (board_of q') (fst x)) = objs q' (snd x)" if "x \<in> set ?exp" for x
      using filed [of "fst x" "snd x"] that same by (simp add: board_of_def)
    then show "(Inr (map (objs q') as) :: broker_error + task_envelope list)
        = Inr (map (\<lambda>tid. the (bd_tasks (board_of q') tid)) (map fst ?exp))"
      by (simp add: as cong: map_cong)
  qed
  ultimately show ?thesis using same unfolding board_requeue_def rq(1) outcomes_def by simp
qed

lemma waiting_entries:
  assumes inv: "broker_inv q"
  shows "card {tid. \<exists>a. dict_get (tasks q) tid = Some a \<and> te_status (objs q a) \<in> {QUEUED, RETRYING} \<and> tid \<notin> cancelled q}
    \<le> sum_list (map (\<lambda>(k, h). length h) (ready q)) + length (delayed q)" (is "card ?W \<le> _")
proof -
  let ?all = "map entry_id (concat (map snd (ready q))) @ map delayed_id (delayed q)"
  have "?W \<subseteq> set ?all"
  proof
    fix tid assume "tid \<in> ?W"
    then obtain a where a: "dict_get (tasks q) tid = Some a" "te_status (objs q a) \<in> waiting" "tid \<notin> cancelled q"
      by (auto simp: waiting_def)
    then have "has_entry q a" using pending_okD [OF binvD(9) [OF inv]] by simp
    then show "tid \<in> set ?all"
      unfolding has_entry_def task_id_of [OF inv a(1)]
    proof (elim disjE bexE conjE)
      fix e assume e: "e \<in> set (dd_get (ready q) (ts_queue (te_spec (objs q a))))" "entry_id e = tid"
      then obtain h where "dict_get (ready q) (ts_queue (te_spec (objs q a))) = Some h" "e \<in> set h"
        by (cases "dict_get (ready q) (ts_queue (te_spec (objs q a)))") (auto simp: dd_get_def)
      then show ?thesis using dict_mem_get [of "ready q"] e(2) by force
    qed auto
  qed
  then have "card ?W \<le> card (set ?all)" by (intro card_mono) simp_all
  also have "\<dots> \<le> length ?all" by (rule card_length)
  also have "\<dots> = sum_list (map (\<lambda>(k, h). length h) (ready q)) + length (delayed q)"
    by (simp add: length_concat comp_def case_prod_unfold)
  finally show ?thesis .
qed

lemma snapshot_refines:
  assumes reach: "broker_reachable q"
  shows "board_snapshot (board_of q) (fst (snapshot now q)) \<and> board_of (snd (snapshot now q)) = board_of q"
proof -
  obtain s q' where s: "snapshot now q = (s, q')" by fastforce
  have q': "q' = promote_delayed now q" and fields:
    "qs_queued s = int (sum_list (map (\<lambda>(k, h). length h) (ready q')))" "qs_delayed s = int (length (delayed q'))"
    "qs_pressure s = of_int (qs_queued s + qs_delayed s + qs_inflight s) / of_int (max 1 (max_depth q))"
    using s by (auto simp: snapshot_def Let_def)
  have look: "(\<exists>t. bd_tasks (board_of q) tid = Some t \<and> P t) \<longleftrightarrow> (\<exists>a. dict_get (tasks q) tid = Some a \<and> P (objs q a))" for tid P
    by (auto simp: board_of_def)
  have "broker_inv q'" unfolding q' by (rule promote_delayed_inv [OF reachable_inv [OF reach]])
  from waiting_entries [OF this]
  have "int (card {tid. \<exists>a. dict_get (tasks q) tid = Some a \<and> te_status (objs q a) \<in> {QUEUED, RETRYING} \<and> tid \<notin> cancelled q})
      \<le> qs_queued s + qs_delayed s"
    unfolding fields(1,2) by (simp add: q')
  with snapshot_counts [OF reach s] fields(3) show ?thesis
    by (simp add: s board_snapshot_def look q') (simp add: board_of_def)
qed

text \<open>
  C5. The broker refines its specification: from every reachable state, each of its methods (\<open>submit\<close> and
  \<open>submit_many\<close> with new ids, \<open>ack\<close>, \<open>complete\<close>, \<open>retry\<close>, \<open>cancel\<close>, a poll, \<open>requeue_expired_leases\<close>, \<open>batch\<close>,
  \<open>get\<close>, \<open>snapshot\<close>) does to the abstract state, the tasks by their ids, the cancelled ids and the capacity,
  what the specification says, and answers what the specification allows, the exceptions included: a poll
  answers nothing only when no waiting, due task may run, and otherwise with one that no such task comes
  before; a requeue pass answers with the lease_over tasks; a batch with the queued tasks of its key.
\<close>
theorem broker_refines_board:
  assumes "broker_reachable q"
  shows "(dict_get (tasks q) (te_task_id (objs q a)) = None \<longrightarrow>
       outcome (submit clk a q) = board_submit (clk 0) (objs q a) (board_of q))
    \<and> (fresh_batch as q \<longrightarrow>
       outcomes (submit_many clk as q) = board_submit_many clk (map (objs q) as) (board_of q))
    \<and> outcome (ack tid q) = board_update tid acked (board_of q)
    \<and> outcome (complete tid st err q) = board_update tid (completed_as st err) (board_of q)
    \<and> outcome (retry clk tid reason q) = board_update tid (retried (clk 0) reason) (board_of q)
    \<and> outcome (cancel tid q) = board_cancel tid (board_of q)
    \<and> (set order = wi_queues w \<longrightarrow> (case reserve_poll clk order w completed lease q of (r, q') \<Rightarrow>
         \<exists>x. r = Inr x \<and>
           board_poll w completed (clk 0) (clk 1 + lease) (board_of q) (map_option (objs q') x) (board_of q')))
    \<and> (case outcomes (requeue_expired_leases clk q) of (r, b') \<Rightarrow> board_requeue (clk 0) (board_of q) r b')
    \<and> board_batch k n (board_of q) (map (objs q) (batch k n q))
    \<and> map_sum id (objs q) (get tid q) = board_get tid (board_of q)
    \<and> board_snapshot (board_of q) (fst (snapshot now q)) \<and> board_of (snd (snapshot now q)) = board_of q"
proof -
  have inv: "broker_inv q" by (rule reachable_inv [OF assms])
  have "set order = wi_queues w \<longrightarrow> (case reserve_poll clk order w completed lease q of (r, q') \<Rightarrow>
      \<exists>x. r = Inr x \<and>
        board_poll w completed (clk 0) (clk 1 + lease) (board_of q) (map_option (objs q') x) (board_of q'))"
    using poll_refines [OF inv, of clk order w completed lease] by (auto split: prod.split)
  then show ?thesis
    by (intro conjI impI submit_refines submit_many_refines ack_refines complete_refines retry_refines cancel_refines
        requeue_refines batch_refines get_refines snapshot_refines [THEN conjunct1] snapshot_refines [THEN conjunct2]
        inv assms) simp_all
qed

text \<open>On a queue with two waiting tasks.\<close>

theorem broker_refines_board_witness:
  "outcome (ack ''a'' demo2) = board_update ''a'' acked (board_of demo2)
   \<and> (case outcomes (requeue_expired_leases (\<lambda>_. 60) demo2) of (r, b') \<Rightarrow> board_requeue 60 (board_of demo2) r b')
   \<and> board_snapshot (board_of demo2) (fst (snapshot 60 demo2))
   \<and> fst (outcome (cancel ''zz'' demo2)) = Inl (TaskNotFoundError ''zz'')"
proof -
  have "fst (cancel ''zz'' demo2) = Inl (TaskNotFoundError ''zz'')" by code_simp
  then have "fst (outcome (cancel ''zz'' demo2)) = Inl (TaskNotFoundError ''zz'')"
    by (cases "cancel ''zz'' demo2") (simp add: outcome_def)
  then show ?thesis using broker_refines_board [OF demo2_reachable, where clk = "\<lambda>_. 60" and now = 60 and tid = "''a''" and a = 0 and as = "[]"
      and st = SUCCEEDED and err = None and reason = "[]" and order = "[]" and w = demo_worker and completed = "{}"
      and lease = 30 and k = "[]" and n = 0]
    by - (elim conjE, intro conjI; assumption)
qed

end
