(* ===== verification/Broker_Exclusive.thy ===== *)
theory Broker_Exclusive
  imports Broker_Leases
begin

text \<open>
  Exclusive leases.  The heaps may hold several entries of one task, and a poll looks at entries, not at the
  status of the task they name.  This theory counts the entries, shows when a running task has none, so
  that nobody else can be given it, and what happens when a task is retried that does not run.
\<close>

section \<open>The entries of a task\<close>

text \<open>The entries with the id \<open>tid\<close> in the ready heap \<open>k\<close> and in the delayed heap.\<close>

definition copies :: "broker \<Rightarrow> string \<Rightarrow> string \<Rightarrow> nat" where
  "copies q tid k = size (filter_mset (\<lambda>e. entry_id e = tid) (mset (dd_get (ready q) k)))
     + size (filter_mset (\<lambda>e. delayed_id e = tid) (mset (delayed q)))"

definition single :: "broker \<Rightarrow> bool" where
  "single q \<longleftrightarrow> (\<forall>tid k. copies q tid k \<le> (if dict_get (inflight q) tid = None then 1 else 0))"

lemma singleD:
  assumes "single q"
  shows "copies q tid k \<le> 1" "0 < copies q tid k \<Longrightarrow> dict_get (inflight q) tid = None"
  using assms [unfolded single_def, rule_format, of tid k] by (auto split: if_splits)

lemma single_mono:
  assumes "single q" "\<And>tid k. copies q' tid k \<le> copies q tid k"
    and "\<And>tid. dict_get (inflight q) tid = None \<Longrightarrow> dict_get (inflight q') tid = None"
  shows "single q'"
  unfolding single_def
proof (intro allI)
  fix tid k
  show "copies q' tid k \<le> (if dict_get (inflight q') tid = None then 1 else 0)"
    using assms(1)[unfolded single_def, rule_format, of tid k] assms(2)[of tid k] assms(3)[of tid]
    by (auto split: if_splits)
qed

lemma copies_cong: "ready q' = ready q \<Longrightarrow> delayed q' = delayed q \<Longrightarrow> copies q' tid k = copies q tid k"
  by (simp add: copies_def)

lemma copies_upd_obj [simp]: "copies (upd_obj a f q) tid k = copies q tid k"
  by (simp add: copies_def)

lemma copies_settle [simp]: "copies (settle a i f q) tid k = copies q tid k"
  by (simp add: copies_def)

lemma entry_id_of [simp]: "entry_id (ready_entry_of n t) = te_task_id t"
  by (simp add: ready_entry_of_def)

lemma copies_push_ready:
  "copies (push_ready k e q) tid j = copies q tid j + (if j = k \<and> entry_id e = tid then 1 else 0)"
  by (simp add: copies_def push_ready_def hq.mset_push)

lemma copies_push:
  "copies (push now a q) tid k = copies q tid k +
     (if tid = te_task_id (objs q a) \<and> (te_available_at (objs q a) > now \<or> k = ts_queue (te_spec (objs q a))) then 1 else 0)"
proof -
  have "copies (q\<lparr>sequence := n\<rparr>) tid k = copies q tid k" for n by (simp add: copies_def)
  moreover have "copies (q\<lparr>sequence := n, delayed := heappush (t, n, i) (delayed q)\<rparr>) tid k
      = copies q tid k + (if tid = i then 1 else 0)" for n t i
    by (simp add: copies_def hq.mset_push)
  ultimately show ?thesis by (auto simp: push_def Let_def copies_push_ready)
qed

lemma filter_mset_none: "(\<And>x. x \<in> set xs \<Longrightarrow> \<not> P x) \<Longrightarrow> filter_mset P (mset xs) = {#}"
  by (simp add: filter_False flip: mset_filter)

text \<open>An entry counts only in the heap of its task's queue, and unknown tasks have none.\<close>

lemma copies_unknown: "binv A q \<Longrightarrow> dict_get (tasks q) tid = None \<Longrightarrow> copies q tid k = 0"
  using binvD(7) [of A q] unfolding copies_def entries_ok_def entry_ok_def
  by (subst (1 2) filter_mset_none) fastforce+

lemma ready_elsewhere:
  "binv A q \<Longrightarrow> dict_get (tasks q) tid = Some a \<Longrightarrow> k \<noteq> ts_queue (te_spec (objs q a)) \<Longrightarrow>
     filter_mset (\<lambda>e. entry_id e = tid) (mset (dd_get (ready q) k)) = {#}"
  using binvD(7) [of A q] unfolding entries_ok_def entry_ok_def by (intro filter_mset_none) fastforce

lemma copies_own_queue:
  assumes "binv A q" "dict_get (tasks q) tid = Some a"
  shows "copies q tid k \<le> copies q tid (ts_queue (te_spec (objs q a)))"
proof (cases "k = ts_queue (te_spec (objs q a))")
  case False
  show ?thesis unfolding copies_def ready_elsewhere [OF assms False] by simp
qed simp



section \<open>What a poll does to the entries\<close>

lemma copies_promote_one:
  assumes inv: "binv A q" and ne: "delayed q \<noteq> []"
  shows "copies (promote_one q) tid k \<le> copies q tid k"
proof -
  obtain e rest where pop: "heappop (delayed q) = (e, rest)" by fastforce
  have m: "mset (delayed q) = add_mset e (mset rest)" using hq.mset_pop [OF ne] pop by simp
  have c: "copies (q\<lparr>delayed := rest\<rparr>) tid k + (if delayed_id e = tid then 1 else 0) = copies q tid k"
    by (simp add: copies_def m)
  show ?thesis
  proof (cases "dict_get (tasks q) (delayed_id e)")
    case None
    then show ?thesis using c by (simp add: promote_one_def pop)
  next
    case (Some a)
    have "te_task_id (objs q a) = delayed_id e" by (rule task_id_of [OF inv Some])
    then show ?thesis using c Some
      by (cases "delayed_id e = tid") (auto simp: promote_one_def pop copies_push_ready Let_def)
  qed
qed

lemma copies_promote:
  assumes "broker_inv q"
  shows "copies (promote_delayed now q) tid k \<le> copies q tid k"
proof -
  have "broker_inv (promote_delayed now q) \<and> copies (promote_delayed now q) tid k \<le> copies q tid k"
  proof (rule promote_delayed_rule [where P = "\<lambda>p. broker_inv p \<and> copies p tid k \<le> copies q tid k"])
    fix p assume p: "broker_inv p \<and> copies p tid k \<le> copies q tid k" "delayed p \<noteq> []"
    then have "broker_inv (promote_one p)" by (blast intro: promote_one_inv)
    with p show "broker_inv (promote_one p) \<and> copies (promote_one p) tid k \<le> copies q tid k"
      using copies_promote_one [of "{}" p tid k] by fastforce
  qed (use assms in simp)
  then show ?thesis by blast
qed

lemma copies_scanned:
  assumes "scanned K q q'"
  shows "copies q' tid k \<le> copies q tid k"
proof -
  have m: "mset (dd_get (ready q') k) = (if k \<in> K then filter_mset (live_entry q) (mset (dd_get (ready q) k))
      else mset (dd_get (ready q) k))"
    using assms by (simp add: scanned_def)
  have "size (filter_mset (\<lambda>e. entry_id e = tid) (filter_mset (live_entry q) (mset h)))
      \<le> size (filter_mset (\<lambda>e. entry_id e = tid) (mset h))" for h
    by (intro size_mset_mono multiset_filter_mono) simp
  then show ?thesis unfolding copies_def m scanned_fields [OF assms] by simp
qed

lemma copies_take_entry:
  assumes "e \<in> set (dd_get (ready q) k)"
  shows "copies (take_entry k e q) tid j + (if j = k \<and> entry_id e = tid then 1 else 0) = copies q tid j"
proof (cases "j = k")
  case True
  have m: "mset (dd_get (ready q) k) = add_mset e (mset (heapify (remove1 e (dd_get (ready q) k))))"
    using assms by (simp add: hq.mset_build)
  have "size (filter_mset (\<lambda>e. entry_id e = tid) (mset (dd_get (ready q) k)))
      = size (filter_mset (\<lambda>e. entry_id e = tid) (mset (heapify (remove1 e (dd_get (ready q) k)))))
        + (if entry_id e = tid then 1 else 0)"
    unfolding m by simp
  then show ?thesis using True by (simp add: copies_def take_entry_def)
next
  case False
  then show ?thesis by (simp add: copies_def take_entry_def)
qed

lemma copies_dispatch [simp]: "copies (dispatch a w d q) tid k = copies q tid k"
  by (simp add: copies_def)

text \<open>A poll that returns a task removes one entry of it; without a second one the task has none left.\<close>

lemma poll_single:
  assumes inv: "broker_inv q" and one: "single q"
  shows "single (snd (reserve_poll clk order w completed lease q))"
    and "reserve_poll clk order w completed lease q = (Inr (Some a), q') \<Longrightarrow>
      dict_get (inflight q) (te_task_id (objs q a)) = None
      \<and> (\<forall>b. b \<noteq> a \<longrightarrow> objs q' b = objs q b)"
proof -
  have le: "copies (promote_delayed (clk 0) q) tid k \<le> copies q tid k" for tid k by (rule copies_promote [OF inv])
  have "single (snd (reserve_poll clk order w completed lease q)) \<and>
    (reserve_poll clk order w completed lease q = (Inr (Some a), q') \<longrightarrow>
      dict_get (inflight q) (te_task_id (objs q a)) = None \<and> (\<forall>b. b \<noteq> a \<longrightarrow> objs q' b = objs q b))"
    using inv
  proof (cases rule: reserve_poll_cases [of q clk order w completed lease])
    case (none q1)
    have "single q1"
      by (rule single_mono [OF one order_trans [OF copies_scanned [OF none(2)] le]]) (simp add: scanned_fields [OF none(2)])
    then show ?thesis by (simp add: none(1))
  next
    case (some q1 e k b)
    let ?p = "promote_delayed (clk 0) q" and ?d = "dispatch b (wi_worker_id w) (clk 1 + lease) (take_entry k e q1)"
    note same = scanned_fields [OF some(2)]
    have id_b: "te_task_id (objs q b) = entry_id e" by (rule task_id_of [OF inv some(6)])
    have e1: "e \<in> set (dd_get (ready q1) k)"
      using some(3-5) by (auto simp: scanned_set [OF some(2)] runnable_def live_entry_def)
    have le1: "copies q1 tid j \<le> copies q tid j" for tid j
      using copies_scanned [OF some(2), of tid j] le [of tid j] by simp
    note taken = copies_take_entry [OF e1]
    have pos: "0 < copies q (entry_id e) k" using taken [of "entry_id e" k] le1 [of "entry_id e" k] by simp
    have free: "dict_get (inflight q) (entry_id e) = None" by (rule singleD(2) [OF one pos])
    have inv1: "broker_inv q1" by (rule scanned_inv [OF promote_delayed_inv [OF inv] some(2)])
    have b1: "dict_get (tasks q1) (entry_id e) = Some b" using some(6) same by simp
    have k: "k = ts_queue (te_spec (objs q1 b))"
      using binvD(7) [OF inv1] e1 b1 unfolding entries_ok_def entry_ok_def by fastforce
    have gone: "copies ?d (entry_id e) j = 0" for j
    proof -
      have "copies ?d (entry_id e) j \<le> copies ?d (entry_id e) (ts_queue (te_spec (objs ?d b)))"
        by (rule copies_own_queue [OF some(8)]) (use b1 in simp)
      also have "\<dots> = copies (take_entry k e q1) (entry_id e) k" by (simp add: k)
      also have "\<dots> = 0"
        using taken [of "entry_id e" k] le1 [of "entry_id e" k] singleD(1) [OF one, of "entry_id e" k] by simp
      finally show ?thesis by simp
    qed
    have "single ?d"
      unfolding single_def
    proof (intro allI)
      fix tid j
      show "copies ?d tid j \<le> (if dict_get (inflight ?d) tid = None then 1 else 0)"
      proof (cases "tid = entry_id e")
        case True
        then show ?thesis using gone by simp
      next
        case False
        have "copies ?d tid j \<le> copies q tid j" using taken [of tid j] le1 [of tid j] by simp
        then show ?thesis
          using one [unfolded single_def, rule_format, of tid j] False id_b same by simp
      qed
    qed
    then show ?thesis using free id_b same by (auto simp: some(1))
  qed
  then show "single (snd (reserve_poll clk order w completed lease q))"
    and "reserve_poll clk order w completed lease q = (Inr (Some a), q') \<Longrightarrow>
      dict_get (inflight q) (te_task_id (objs q a)) = None \<and> (\<forall>b. b \<noteq> a \<longrightarrow> objs q' b = objs q b)" by blast+
qed

text \<open>
  The entries of a task that is neither cancelled nor dead-lettered survive promotion and scanning, so a
  poll at a time when one of them is due finds it, whatever the status of the task is.
\<close>

lemma copies_promote_one_live:
  assumes inv: "binv A q" and ne: "delayed q \<noteq> []" and a: "dict_get (tasks q) tid = Some a"
    and st: "te_status (objs q a) \<notin> {CANCELLED, DEAD_LETTERED}"
  shows "copies (promote_one q) tid (ts_queue (te_spec (objs q a))) = copies q tid (ts_queue (te_spec (objs q a)))"
proof -
  let ?k = "ts_queue (te_spec (objs q a))"
  obtain e rest where pop: "heappop (delayed q) = (e, rest)" by fastforce
  have m: "mset (delayed q) = add_mset e (mset rest)" using hq.mset_pop [OF ne] pop by simp
  have c: "copies (q\<lparr>delayed := rest\<rparr>) tid ?k + (if delayed_id e = tid then 1 else 0) = copies q tid ?k"
    by (simp add: copies_def m)
  show ?thesis
  proof (cases "dict_get (tasks q) (delayed_id e)")
    case None
    with a have "delayed_id e \<noteq> tid" by auto
    then show ?thesis using c None by (simp add: promote_one_def pop)
  next
    case (Some b)
    have id: "te_task_id (objs q b) = delayed_id e" by (rule task_id_of [OF inv Some])
    show ?thesis
    proof (cases "delayed_id e = tid")
      case True
      with Some a have "b = a" by simp
      then show ?thesis using c Some st id True by (simp add: promote_one_def pop copies_push_ready Let_def)
    next
      case False
      then show ?thesis using c Some id by (auto simp: promote_one_def pop copies_push_ready Let_def)
    qed
  qed
qed

lemma copies_promote_live:
  assumes "broker_inv q" "dict_get (tasks q) tid = Some a" "te_status (objs q a) \<notin> {CANCELLED, DEAD_LETTERED}"
  shows "copies (promote_delayed now q) tid (ts_queue (te_spec (objs q a))) = copies q tid (ts_queue (te_spec (objs q a)))"
proof -
  let ?k = "ts_queue (te_spec (objs q a))"
  let ?P = "\<lambda>p :: broker. broker_inv p \<and> tasks p = tasks q \<and> objs p = objs q \<and> copies p tid ?k = copies q tid ?k"
  have "?P (promote_delayed now q)"
  proof (rule promote_delayed_rule [where P = ?P])
    fix p :: broker assume p: "?P p" "delayed p \<noteq> []"
    with copies_promote_one_live [of "{}" p tid a] assms show "?P (promote_one p)" by (auto intro: promote_one_inv)
  qed (use assms in simp)
  then show ?thesis by blast
qed

lemma delayed_promote_subset: "set (delayed (promote_delayed now q)) \<subseteq> set (delayed q)"
proof (rule promote_delayed_rule [where P = "\<lambda>p. set (delayed p) \<subseteq> set (delayed q)"])
  fix p :: broker assume p: "set (delayed p) \<subseteq> set (delayed q)" "delayed p \<noteq> []"
  then show "set (delayed (promote_one p)) \<subseteq> set (delayed q)"
    using hq.pop_set [OF p(2)] by (auto simp: delayed_promote_one)
qed simp

lemma copies_scanned_live:
  assumes "scanned K q q'" "tid \<notin> cancelled q"
  shows "copies q' tid k = copies q tid k"
proof -
  have m: "mset (dd_get (ready q') k) = (if k \<in> K then filter_mset (live_entry q) (mset (dd_get (ready q) k))
      else mset (dd_get (ready q) k))"
    using assms(1) by (simp add: scanned_def)
  have "filter_mset (\<lambda>e. entry_id e = tid) (filter_mset (live_entry q) M) = filter_mset (\<lambda>e. entry_id e = tid) M" for M
    unfolding filter_filter_mset by (rule filter_mset_cong) (use assms(2) in \<open>auto simp: live_entry_def\<close>)
  then show ?thesis unfolding copies_def m scanned_fields [OF assms(1)] by simp
qed

definition entry_due :: "seconds \<Rightarrow> string \<Rightarrow> string \<Rightarrow> broker \<Rightarrow> bool" where
  "entry_due now tid k q \<longleftrightarrow> (\<exists>e \<in> set (dd_get (ready q) k). entry_id e = tid)
     \<or> (\<exists>e \<in> set (delayed q). delayed_id e = tid \<and> fst e \<le> now)"

lemma entry_due_promote_one:
  assumes "binv A q" "delayed q \<noteq> []" "dict_get (tasks q) tid = Some a"
    and "te_status (objs q a) \<notin> {CANCELLED, DEAD_LETTERED}" "entry_due now tid (ts_queue (te_spec (objs q a))) q"
  shows "entry_due now tid (ts_queue (te_spec (objs q a))) (promote_one q)"
proof -
  let ?k = "ts_queue (te_spec (objs q a))"
  obtain e rest where pop: "heappop (delayed q) = (e, rest)" by fastforce
  have d: "set (delayed q) = insert e (set rest)" using hq.pop_set [OF assms(2)] pop by simp
  have mono: "set (dd_get (ready q) ?k) \<subseteq> set (dd_get (ready (promote_one q)) ?k)"
    by (auto simp: promote_one_def pop Let_def set_ready_push_ready split: option.split)
  have rest: "delayed (promote_one q) = rest" by (simp add: delayed_promote_one pop)
  have "\<exists>r \<in> set (dd_get (ready (promote_one q)) ?k). entry_id r = tid" if "delayed_id e = tid"
    using assms(3,4) that task_id_of [OF assms(1,3)]
    by (simp add: promote_one_def pop Let_def set_ready_push_ready)
  with assms(5) [unfolded entry_due_def d] mono show ?thesis unfolding entry_due_def rest by blast
qed

lemma entry_due_ready:
  assumes inv: "broker_inv q" and a: "dict_get (tasks q) tid = Some a"
    and st: "te_status (objs q a) \<notin> {CANCELLED, DEAD_LETTERED}" and due: "entry_due now tid (ts_queue (te_spec (objs q a))) q"
  shows "\<exists>e \<in> set (dd_get (ready (promote_delayed now q)) (ts_queue (te_spec (objs q a)))). entry_id e = tid"
proof -
  let ?k = "ts_queue (te_spec (objs q a))"
  let ?P = "\<lambda>p. broker_inv p \<and> tasks p = tasks q \<and> objs p = objs q \<and> entry_due now tid ?k p"
  have "?P (promote_delayed now q)"
  proof (rule promote_delayed_rule [where P = ?P])
    fix p :: broker assume p: "?P p" "delayed p \<noteq> []"
    with entry_due_promote_one [of "{}" p tid a now] a st show "?P (promote_one p)" by (auto intro: promote_one_inv)
  qed (use assms in simp)
  moreover have "now < fst e" if "e \<in> set (delayed (promote_delayed now q))" for e
    using promote_delayed_due [of q e now] that binvD(2) [OF inv] by (simp add: heaps_ok_def)
  ultimately show ?thesis unfolding entry_due_def by fastforce
qed

text \<open>No other task that the worker might be given comes before this one, or level with it.\<close>

definition foremost :: "worker_info \<Rightarrow> string set \<Rightarrow> broker \<Rightarrow> addr \<Rightarrow> bool" where
  "foremost w completed q a \<longleftrightarrow> (\<forall>i b. dict_get (tasks q) i = Some b \<and> b \<noteq> a \<and> i \<notin> cancelled q \<and>
     accepts w (objs q b) \<and> ts_depends_on (te_spec (objs q b)) \<subseteq> completed \<longrightarrow>
     (ts_priority (te_spec (objs q a)), te_created_at (objs q a))
       < (ts_priority (te_spec (objs q b)), te_created_at (objs q b)))"

lemma foremost_cong:
  assumes "tasks q' = tasks q" "cancelled q' = cancelled q"
    and "\<And>b. te_spec (objs q' b) = te_spec (objs q b) \<and> te_created_at (objs q' b) = te_created_at (objs q b)"
  shows "foremost w completed q' a = foremost w completed q a"
  by (simp add: foremost_def accepts_def assms)

lemma poll_hands_out:
  assumes inv: "broker_inv q" and a: "dict_get (tasks q) tid = Some a"
    and st: "te_status (objs q a) \<notin> {CANCELLED, DEAD_LETTERED}" and nc: "tid \<notin> cancelled q"
    and due: "entry_due (clk 0) tid (ts_queue (te_spec (objs q a))) q"
    and w: "accepts w (objs q a)" "ts_depends_on (te_spec (objs q a)) \<subseteq> completed" "set order = wi_queues w"
    and first: "foremost w completed q a"
  shows "\<exists>q'. reserve_poll clk order w completed lease q = (Inr (Some a), q') \<and> broker_inv q'
    \<and> objs q' = (objs q)(a := (objs q a)\<lparr>te_status := RUNNING, te_assigned_worker := Some (wi_worker_id w),
        te_lease_deadline := Some (clk 1 + lease)\<rparr>)
    \<and> tasks q' = tasks q \<and> cancelled q' = cancelled q
    \<and> copies q' tid (ts_queue (te_spec (objs q a))) + 1 = copies q tid (ts_queue (te_spec (objs q a)))
    \<and> set (delayed q') \<subseteq> set (delayed q)"
proof -
  let ?p = "promote_delayed (clk 0) q" and ?k = "ts_queue (te_spec (objs q a))"
  obtain r where r: "r \<in> set (dd_get (ready ?p) ?k)" "entry_id r = tid" using entry_due_ready [OF inv a st due] by blast
  have known: "entry_ok ?p j e" if "e \<in> set (dd_get (ready ?p) j)" for j e
    using that binvD(7) [OF promote_delayed_inv [OF inv, of "clk 0"]] unfolding entries_ok_def by blast
  have "?k \<in> set order" using w by (simp add: accepts_def)
  moreover have "runnable ?p w completed r" using a r(2) nc w(1,2) by (simp add: runnable_def)
  ultimately have cand: "r \<in> candidates (set order) ?p w completed" unfolding candidates_def using r(1) by blast
  from inv show ?thesis
  proof (cases rule: reserve_poll_cases [of q clk order w completed lease])
    case (none q1)
    with cand show ?thesis by simp
  next
    case (some q1 e k b)
    note same = scanned_fields [OF some(2)]
    have key_e: "fst e = ts_priority (te_spec (objs q b))" "fst (snd e) = te_created_at (objs q b)"
      "ts_queue (te_spec (objs q b)) = k"
      using known [OF some(4)] some(6) by (auto simp: entry_ok_def)
    have "fst r = ts_priority (te_spec (objs q a))" "fst (snd r) = te_created_at (objs q a)"
      using known [OF r(1)] a r(2) by (auto simp: entry_ok_def)
    then have le: "(ts_priority (te_spec (objs q b)), te_created_at (objs q b))
        \<le> (ts_priority (te_spec (objs q a)), te_created_at (objs q a))"
      using some(7) [OF cand] key_e by (auto simp: less_eq_prod_def)
    have ba: "b = a"
    proof (rule ccontr)
      assume "b \<noteq> a"
      with first some(5,6) have "(ts_priority (te_spec (objs q a)), te_created_at (objs q a))
          < (ts_priority (te_spec (objs q b)), te_created_at (objs q b))"
        unfolding foremost_def runnable_def by auto
      then show False by (rule notE [OF leD [OF le]])
    qed
    then have id: "entry_id e = tid" and k: "k = ?k"
      using tasks_inj [OF inv some(6), of tid] a key_e(3) by simp_all
    have e1: "e \<in> set (dd_get (ready q1) k)"
      using some(3-5) by (auto simp: scanned_set [OF some(2)] runnable_def live_entry_def)
    have "copies (take_entry k e q1) tid k + 1 = copies q tid k"
      using copies_take_entry [OF e1, of tid k] copies_scanned_live [OF some(2), of tid k] nc id
        copies_promote_live [OF inv a st, of "clk 0"] k by simp
    moreover have "set (delayed (take_entry k e q1)) \<subseteq> set (delayed q)"
      using delayed_promote_subset [of "clk 0" q] same by (simp add: take_entry_def)
    ultimately show ?thesis
      using some(1,8) ba k same by (auto simp: take_entry_def)
  qed
qed

section \<open>What the other methods do to them\<close>

lemma copies_retry:
  assumes inv: "broker_inv q" and a: "dict_get (tasks q) tid = Some a"
  shows "copies (snd (retry clk tid reason q)) i (ts_queue (te_spec (objs q a)))
    = copies q i (ts_queue (te_spec (objs q a))) + (if i = tid \<and> \<not> exhausted (objs q a) then 1 else 0)"
    and "i \<noteq> tid \<Longrightarrow> copies (snd (retry clk tid reason q)) i k = copies q i k"
  using task_id_of [OF inv a] by (simp_all add: retry_eq [OF inv] a Let_def copies_push retried_def)

lemma retry_single:
  assumes inv: "broker_inv q" and one: "single q"
    and run: "\<And>a. dict_get (tasks q) tid = Some a \<Longrightarrow> te_status (objs q a) = RUNNING"
  shows "single (snd (retry clk tid reason q))"
proof (cases "dict_get (tasks q) tid")
  case None
  then show ?thesis using one by (simp add: retry_unknown [OF inv])
next
  case (Some a)
  let ?q = "snd (retry clk tid reason q)"
  have r: "dict_get (inflight q) tid = Some a" using running_okD(1) [OF inv Some] run [OF Some] by simp
  have fl: "dict_get (inflight ?q) i = (if i = tid then None else dict_get (inflight q) i)" for i
    using retry_known(3) [OF inv Some] by simp
  have t: "dict_get (tasks ?q) tid = Some a" "te_spec (objs ?q a) = te_spec (objs q a)"
    using retry_known(2,6) [OF inv Some] Some by (simp_all add: retried_def)
  show ?thesis
    unfolding single_def
  proof (intro allI)
    fix i k
    show "copies ?q i k \<le> (if dict_get (inflight ?q) i = None then 1 else 0)"
    proof (cases "i = tid")
      case True
      have "copies ?q tid k \<le> copies ?q tid (ts_queue (te_spec (objs ?q a)))"
        by (rule copies_own_queue [OF retry_inv [OF inv] t(1)])
      also have "\<dots> \<le> copies q tid (ts_queue (te_spec (objs q a))) + 1"
        unfolding t(2) by (simp add: copies_retry(1) [OF inv Some])
      also have "\<dots> = 1" using one [unfolded single_def, rule_format, of tid "ts_queue (te_spec (objs q a))"] r by simp
      finally show ?thesis using True fl by simp
    next
      case False
      then show ?thesis
        using one [unfolded single_def, rule_format, of i k] fl copies_retry(2) [OF inv Some False] by simp
    qed
  qed
qed

lemma requeue_loop_single:
  "broker_inv q \<Longrightarrow> single q \<Longrightarrow> items_ok items q \<Longrightarrow> single (snd (requeue_loop now clk items q))"
proof (induction items arbitrary: clk q)
  case (Cons item items)
  obtain tid a where item: "item = (tid, a)" by (cases item)
  note inv = Cons.prems(1)
  have a: "dict_get (inflight q) tid = Some a" using Cons.prems(3) item by (simp add: items_ok_def)
  have at: "dict_get (tasks q) tid = Some a" using binvD(4) [OF inv] a by (simp add: alias_ok_def)
  show ?case
  proof (cases "lease_expired now (objs q a)")
    case False
    have "items_ok items q" using Cons.prems(3) item by (simp add: items_ok_def)
    with Cons.IH [OF inv Cons.prems(2)] False item show ?thesis by simp
  next
    case True
    obtain q2 where r: "retry clk tid ''lease expired'' q = (Inr a, q2)"
      using retry_known(1) [OF inv at] by (metis prod.collapse)
    have run: "te_status (objs q b) = RUNNING" if "dict_get (tasks q) tid = Some b" for b
      using that at a running_okD(1) [OF inv at] by simp
    have "single (snd (retry clk tid ''lease expired'' q))"
      by (rule retry_single [OF inv Cons.prems(2)]) (rule run)
    then have "single q2" "broker_inv q2" "inflight q2 = dict_del tid (inflight q)"
      using retry_inv [OF inv, of clk tid "''lease expired''"]
        retry_known(3) [OF inv at, of clk "''lease expired''"] r by simp_all
    moreover from this(3) have "items_ok items q2"
      using Cons.prems(3) item unfolding items_ok_def by (fastforce simp: image_iff)
    ultimately have "single (snd (requeue_loop now (later (retry_reads (objs q2 a)) clk) items q2))"
      by (intro Cons.IH)
    then show ?thesis
      using True item r retry_after_pop [OF inv a, of clk "''lease expired''"]
      by (auto simp: Let_def split: prod.split sum.split)
  qed
qed simp

lemma admit_single:
  assumes inv: "broker_inv q" and one: "single q" and fresh: "dict_get (tasks q) (te_task_id (objs q a)) = None"
  shows "single (admit clk a q)"
proof -
  let ?i = "te_task_id (objs q a)"
  have "copies (file_task a t q) i k = copies q i k" for t i k by (simp add: copies_def file_task_def)
  then have c: "copies (admit clk a q) i k \<le> copies q i k + (if i = ?i then 1 else 0)" for i k
    by (simp add: admit_eq copies_push) (simp add: file_task_def queued_as_def)
  have "copies q ?i k = 0" for k by (rule copies_unknown [OF inv fresh])
  moreover have "dict_get (inflight q) ?i = None"
    using binvD(4) [OF inv] fresh unfolding alias_ok_def by (metis option.exhaust option.distinct(1))
  ultimately have "copies (admit clk a q) i k \<le> (if dict_get (inflight (admit clk a q)) i = None then 1 else 0)" for i k
    using c [of i k] one [unfolded single_def, rule_format, of i k] by (auto split: if_splits)
  then show ?thesis by (simp add: single_def)
qed

lemma submit_many_single:
  "broker_inv q \<Longrightarrow> single q \<Longrightarrow> fresh_batch as q \<Longrightarrow> single (snd (submit_many clk as q))"
proof (induction clk as q rule: submit_many.induct)
  case (2 clk a as q)
  show ?case
  proof (cases "depth q \<ge> max_depth q")
    case False
    note fresh = fresh_batch_step [OF "2.prems"(3)]
    have "single (snd (submit_many (later 2 clk) as (admit clk a q)))"
      by (rule "2.IH" [OF False admit_inv [OF "2.prems"(1) fresh(1)] admit_single [OF "2.prems"(1,2) fresh(1)] fresh(2)])
    with False show ?thesis
      by (cases "submit_many (later 2 clk) as (admit clk a q)") (auto split: sum.split)
  qed (use "2.prems" in simp)
qed simp

section \<open>Careful runs\<close>

text \<open>
  The runs in which only running tasks are retried: no worker reports a failure of a task that was taken
  away from it, and nobody retries a waiting or finished task by hand.  All other calls are free.
\<close>

inductive careful_step :: "broker \<Rightarrow> broker \<Rightarrow> bool" where
  create: "a \<notin> ran (map_of (tasks q)) \<Longrightarrow> careful_step q (q\<lparr>objs := (objs q)(a := t)\<rparr>)"
| submit: "dict_get (tasks q) (te_task_id (objs q a)) = None \<Longrightarrow> careful_step q (snd (submit clk a q))"
| submit_many: "fresh_batch as q \<Longrightarrow> careful_step q (snd (submit_many clk as q))"
| poll: "careful_step q (snd (reserve_poll clk order w completed lease q))"
| ack: "careful_step q (snd (ack tid q))"
| complete: "status \<in> terminal \<Longrightarrow> careful_step q (snd (complete tid status error q))"
| retry: "(\<And>a. dict_get (tasks q) tid = Some a \<Longrightarrow> te_status (objs q a) = RUNNING) \<Longrightarrow>
    careful_step q (snd (retry clk tid reason q))"
| cancel: "careful_step q (snd (cancel tid q))"
| requeue: "careful_step q (snd (requeue_expired_leases clk q))"
| snapshot: "careful_step q (snd (snapshot now q))"

inductive careful_reachable :: "broker \<Rightarrow> bool" where
  start: "careful_reachable (new_broker d os)"
| step: "careful_reachable q \<Longrightarrow> careful_step q q' \<Longrightarrow> careful_reachable q'"

lemma careful_broker_step: "careful_step q q' \<Longrightarrow> broker_step q q'"
  by (induction rule: careful_step.induct) (auto intro: broker_step.intros)

lemma careful_broker_reachable: "careful_reachable q \<Longrightarrow> broker_reachable q"
  by (induction rule: careful_reachable.induct) (auto intro: broker_reachable.intros careful_broker_step)

lemma settled_single: "single q \<Longrightarrow> single (settle a tid f q)"
  by (erule single_mono) simp_all

lemma careful_step_single:
  assumes "careful_step q q'" "broker_inv q" "single q"
  shows "single q'"
  using assms
proof (induction rule: careful_step.induct)
  case (create a q t)
  then show ?case by (auto intro: single_mono simp: copies_def)
next
  case (submit q a clk)
  then show ?case by (simp add: submit_def admit_single)
next
  case (cancel tid q)
  have "single (q'\<lparr>cancelled := c\<rparr>)" if "single q'" for q' c
    using that by (auto simp: single_def copies_def)
  then show ?case using cancel by (auto simp: cancel_eq settled_single split: option.split)
next
  case (requeue clk q)
  then show ?case
    unfolding requeue_expired_leases_def by (intro requeue_loop_single inflight_items_ok)
next
  case (snapshot now q)
  then show ?case by (auto simp: snapshot_def Let_def intro: single_mono [OF _ copies_promote])
qed (simp_all add: submit_many_single poll_single(1) retry_single ack_eq complete_eq settled_single split: option.split)

lemma new_single: "single (new_broker d os)"
  by (simp add: single_def copies_def new_broker_def)

lemma careful_single: "careful_reachable q \<Longrightarrow> single q"
  by (induction rule: careful_reachable.induct)
    (auto intro: new_single careful_step_single reachable_inv careful_broker_reachable)

section \<open>Exclusive leases\<close>

text \<open>
  C2. A lease is exclusive in every careful run.  A poll that hands out a task picks one that nobody runs,
  makes it running, assigns it to the worker and leases it until \<open>lease\<close> seconds after the second reading of
  the clock, and changes no other task, waiting, running or finished; a fruitless poll changes no task at
  all.  In either case every lease that was held is still held by the same worker, and the task of
  none of them is handed out.
\<close>
theorem exclusive_lease:
  assumes "careful_reachable q" and "reserve_poll clk order w completed lease q = (r, q')"
  shows "(case r of
       Inl x \<Rightarrow> False
     | Inr None \<Rightarrow> objs q' = objs q \<and> inflight q' = inflight q
     | Inr (Some a) \<Rightarrow> te_status (objs q a) \<noteq> RUNNING
         \<and> objs q' = (objs q)(a := (objs q a)\<lparr>te_status := RUNNING,
              te_assigned_worker := Some (wi_worker_id w), te_lease_deadline := Some (clk 1 + lease)\<rparr>))
    \<and> tasks q' = tasks q
    \<and> (\<forall>tid b. dict_get (inflight q) tid = Some b \<longrightarrow>
          r \<noteq> Inr (Some b) \<and> dict_get (inflight q') tid = Some b \<and> objs q' b = objs q b)"
proof -
  have inv: "broker_inv q" by (rule reachable_inv [OF careful_broker_reachable [OF assms(1)]])
  from inv show ?thesis
  proof (cases rule: reserve_poll_cases [of q clk order w completed lease])
    case (none q1)
    with assms(2) scanned_fields [OF none(2)] show ?thesis by auto
  next
    case (some q1 e k a)
    have r: "r = Inr (Some a)" "q' = dispatch a (wi_worker_id w) (clk 1 + lease) (take_entry k e q1)"
      using assms(2) some(1) by simp_all
    note same = scanned_fields [OF some(2)]
    have free: "dict_get (inflight q) (te_task_id (objs q a)) = None"
      using poll_single(2) [OF inv careful_single [OF assms(1)], of clk order w completed lease a q'] assms(2) r(1) by simp
    have id: "te_task_id (objs q a) = entry_id e" by (rule task_id_of [OF inv some(6)])
    have "te_status (objs q a) \<noteq> RUNNING" using running_okD(1) [OF inv some(6)] free id by simp
    moreover have objs: "objs q' = (objs q)(a := (objs q a)\<lparr>te_status := RUNNING,
        te_assigned_worker := Some (wi_worker_id w), te_lease_deadline := Some (clk 1 + lease)\<rparr>)"
      and fl: "inflight q' = dict_set (entry_id e) a (inflight q)" and ts: "tasks q' = tasks q"
      using r(2) same id by (simp_all add: take_entry_def)
    moreover have "r \<noteq> Inr (Some b) \<and> dict_get (inflight q') tid = Some b \<and> objs q' b = objs q b"
      if b: "dict_get (inflight q) tid = Some b" for tid b
    proof -
      have "dict_get (tasks q) tid = Some b" using binvD(4) [OF inv] b by (simp add: alias_ok_def)
      then have "te_task_id (objs q b) = tid" by (rule task_id_of [OF inv])
      then have "b \<noteq> a \<and> tid \<noteq> entry_id e" using free b id by auto
      then show ?thesis using b r(1) objs fl by simp
    qed
    ultimately show ?thesis using r(1) by simp
  qed
qed

lemma demo_careful: "careful_reachable demo1" "careful_reachable demo2"
proof -
  have "careful_reachable demo0" unfolding demo0_def by (rule careful_reachable.start)
  then show d1: "careful_reachable demo1"
    unfolding demo1_def
    by (rule careful_reachable.step [OF _ careful_step.submit]) (simp add: demo0_def new_broker_def)
  show "careful_reachable demo2"
    unfolding demo2_def
    by (rule careful_reachable.step [OF d1 careful_step.submit]) (simp add: demo1_val eval_demo)
qed

definition demo_first :: broker where
  "demo_first = snd (reserve_poll (\<lambda>_. 20) [''default''] demo_worker {} 30 demo2)"

lemma demo_first_careful: "careful_reachable demo_first"
  unfolding demo_first_def by (rule careful_reachable.step [OF demo_careful(2) careful_step.poll])

theorem exclusive_lease_witness:
  "\<exists>q'. reserve_poll (\<lambda>_. 21) [''default''] demo_worker {} 30 demo_first = (Inr (Some 0), q')
     \<and> dict_get (inflight q') ''b'' = Some 1 \<and> objs q' 1 = objs demo_first 1"
proof -
  have "fst (reserve_poll (\<lambda>_. 21) [''default''] demo_worker {} 30 demo_first) = Inr (Some 0)"
    and b: "dict_get (inflight demo_first) ''b'' = Some 1" by code_simp+
  then obtain q' where r: "reserve_poll (\<lambda>_. 21) [''default''] demo_worker {} 30 demo_first = (Inr (Some 0), q')"
    by (metis prod.collapse)
  show ?thesis using exclusive_lease [OF demo_first_careful r] b r by simp
qed

section \<open>Late reports\<close>







definition demo_requeued :: broker where
  "demo_requeued = snd (requeue_expired_leases (\<lambda>_. 60) demo_running)"




text \<open>
  C25. Nor does a success that is reported late take a task out of the queue: \<open>complete\<close> leaves the entries of
  a task that waits (because its lease expired, say) where they are, and no poll looks at the status.  So
  when its entry is due and the task is the next for a polling worker, a task that has succeeded is handed
  out and runs once more.
\<close>
theorem succeeded_task_runs_again:
  assumes "broker_reachable q" and "dict_get (tasks q) tid = Some a" and "tid \<notin> cancelled q"
    and "te_status (objs q a) \<in> {QUEUED, RETRYING}"
    and "complete tid SUCCEEDED err q = (r, q1)"
    and "accepts w (objs q a)" "ts_depends_on (te_spec (objs q a)) \<subseteq> completed" "set order = wi_queues w"
    and "foremost w completed q a" and "te_available_at (objs q a) \<le> clk 0"
    and "reserve_poll clk order w completed lease q1 = (p, q2)"
  shows "r = Inr a \<and> te_status (objs q1 a) = SUCCEEDED \<and> p = Inr (Some a)
    \<and> te_status (objs q2 a) = RUNNING \<and> te_assigned_worker (objs q2 a) = Some (wi_worker_id w)
    \<and> te_attempts (objs q2 a) = te_attempts (objs q a)"
proof -
  have inv: "broker_inv q" by (rule reachable_inv [OF assms(1)])
  have e: "has_entry q a" using pending_okD [OF binvD(9) [OF inv] assms(2)] assms(3,4) by (simp add: waiting_def)
  have q1: "r = Inr a" "ready q1 = ready q" "delayed q1 = delayed q" "tasks q1 = tasks q" "cancelled q1 = cancelled q"
    "objs q1 = (objs q)(a := (objs q a)\<lparr>te_status := SUCCEEDED, te_last_error := err, te_lease_deadline := None\<rparr>)"
    using assms(2,5) by (auto simp: complete_eq [OF inv])
  have inv1: "broker_inv q1" using complete_inv [OF inv, of SUCCEEDED tid err] assms(5) by (simp add: terminal_def)
  have "entry_due (clk 0) tid (ts_queue (te_spec (objs q1 a))) q1"
    using e assms(10) task_id_of [OF inv assms(2)] unfolding has_entry_def entry_due_def by (auto simp: q1)
  moreover have "foremost w completed q1 a"
    using assms(9) foremost_cong [of q1 q w completed a] q1(4-6) by auto
  ultimately obtain q' where "reserve_poll clk order w completed lease q1 = (Inr (Some a), q')"
    "objs q' = (objs q1)(a := (objs q1 a)\<lparr>te_status := RUNNING, te_assigned_worker := Some (wi_worker_id w),
        te_lease_deadline := Some (clk 1 + lease)\<rparr>)"
    using poll_hands_out [OF inv1, of tid a clk w completed order lease] assms(2,3,6-8) q1(4-6)
    by (auto simp: accepts_def)
  with assms(11) q1(1,6) show ?thesis by auto
qed

theorem succeeded_task_runs_again_witness:
  "let q1 = snd (complete ''a'' SUCCEEDED None demo_requeued);
       (p, q2) = reserve_poll (\<lambda>_. 70) [''default''] demo_worker {} 30 q1
   in te_status (objs q1 0) = SUCCEEDED \<and> p = Inr (Some 0) \<and> te_status (objs q2 0) = RUNNING"
proof -
  have reach: "broker_reachable demo_requeued"
    unfolding demo_requeued_def by (rule broker_reachable.step [OF demo_running_reachable broker_step.requeue])
  have a: "dict_get (tasks demo_requeued) ''a'' = Some 0" "''a'' \<notin> cancelled demo_requeued"
    "te_status (objs demo_requeued 0) \<in> {QUEUED, RETRYING}" "te_available_at (objs demo_requeued 0) \<le> 70"
    by code_simp+
  have w: "accepts demo_worker (objs demo_requeued 0)" "ts_depends_on (te_spec (objs demo_requeued 0)) \<subseteq> {}"
    "set [''default''] = wi_queues demo_worker"
    by code_simp+
  have "tasks demo_requeued = [(''a'', 0)]" by code_simp
  then have f: "foremost demo_worker {} demo_requeued 0" by (auto simp: foremost_def)
  obtain r q1 where c: "complete ''a'' SUCCEEDED None demo_requeued = (r, q1)" by fastforce
  obtain p q2 where p: "reserve_poll (\<lambda>_. 70) [''default''] demo_worker {} 30 q1 = (p, q2)" by fastforce
  from succeeded_task_runs_again [OF reach a(1-3) c w f _ p] a(4) c p show ?thesis by simp
qed

end
