(* ===== verification/Store.thy ===== *)
theory Store
  imports Models
begin

text \<open>
  \<open>taskrunner/database/store.py\<close>: the SQLite store.  A table is the list of its rows in rowid order;
  an upsert that conflicts rewrites the row in place.  Columns that hold JSON text hold here the value
  the text denotes; a status column holds the \<open>StrEnum\<close> member, which is its string.

  What SQLite and its binding contribute: an integer parameter outside 64 bits raises
  \<open>OverflowError\<close> before the statement runs, a negative \<open>LIMIT\<close> is no limit, and rows that agree on
  the \<open>ORDER BY\<close> key come in an order SQL leaves open.  That order is the parameter \<open>scan\<close> of the
  queries, a rearrangement of the table made before a stable sort.
\<close>

section \<open>Tables\<close>

record task_row =
  rt_task_id :: string
  rt_status :: task_status
  rt_queue :: string
  rt_priority :: int
  rt_attempts :: int
  rt_target :: string
  rt_payload_json :: pyval
  rt_spec_json :: pyval
  rt_result_json :: "pyval option"
  rt_error :: "string option"
  rt_assigned_worker :: "string option"
  rt_created_at :: seconds
  rt_updated_at :: seconds

record worker_row =
  rw_worker_id :: string
  rw_host :: string
  rw_pid :: int
  rw_queues_json :: pyval
  rw_labels_json :: pyval
  rw_capacity :: int
  rw_running_tasks :: int
  rw_status :: worker_status
  rw_started_at :: seconds
  rw_last_heartbeat :: seconds

record log_row =
  rl_id :: nat
  rl_entity_id :: string
  rl_level :: string
  rl_message :: string
  rl_created_at :: seconds

record store =
  db_tasks :: "task_row list"
  db_workers :: "worker_row list"
  db_logs :: "log_row list"
  db_log_seq :: nat

text \<open>\<open>initialize\<close> on a new file; on an existing one \<open>IF NOT EXISTS\<close> leaves the tables as they are.\<close>

definition new_store :: store where
  "new_store = \<lparr>db_tasks = [], db_workers = [], db_logs = [], db_log_seq = 0\<rparr>"

datatype store_error = OverflowError int

definition int64 :: "int \<Rightarrow> bool" where
  "int64 i \<longleftrightarrow> - (2 ^ 63) \<le> i \<and> i < 2 ^ 63"

text \<open>Binding the integer parameters of a statement, in order.\<close>

fun bind_ints :: "int list \<Rightarrow> store_error option" where
  "bind_ints [] = None"
| "bind_ints (i # is) = (if int64 i then bind_ints is else Some (OverflowError i))"

lemma bind_ints_None: "bind_ints is = None \<longleftrightarrow> (\<forall>i \<in> set is. int64 i)"
  by (induction "is") auto

section \<open>Tasks\<close>

text \<open>\<open>INSERT ... ON CONFLICT(key) DO UPDATE\<close>: rewrite the row with the key, or append a new one.\<close>

definition upsert :: "('r \<Rightarrow> 'k) \<Rightarrow> ('r \<Rightarrow> 'r) \<Rightarrow> 'r \<Rightarrow> 'r list \<Rightarrow> 'r list" where
  "upsert key merge r rs =
     (if key r \<in> key ` set rs then map (\<lambda>x. if key x = key r then merge x else x) rs else rs @ [r])"

definition task_row_of :: "seconds \<Rightarrow> task_envelope \<Rightarrow> task_result option \<Rightarrow> task_row" where
  "task_row_of now t res = \<lparr>
     rt_task_id = te_task_id t,
     rt_status = te_status t,
     rt_queue = ts_queue (te_spec t),
     rt_priority = ts_priority (te_spec t),
     rt_attempts = te_attempts t,
     rt_target = ts_target (te_spec t),
     rt_payload_json = PDict (ts_payload (te_spec t)),
     rt_spec_json = PDict (spec_to_dict (te_spec t)),
     rt_result_json = map_option (\<lambda>r. PDict (result_to_dict r)) res,
     rt_error = te_last_error t,
     rt_assigned_worker = te_assigned_worker t,
     rt_created_at = te_created_at t,
     rt_updated_at = now\<rparr>"

text \<open>\<open>COALESCE(a, b)\<close> is the first of the two that is not \<open>NULL\<close>.\<close>

definition coalesce :: "'a option \<Rightarrow> 'a option \<Rightarrow> 'a option" where
  "coalesce a b = (case a of None \<Rightarrow> b | Some x \<Rightarrow> Some x)"

definition merge_task_row :: "task_row \<Rightarrow> task_row \<Rightarrow> task_row" where
  "merge_task_row new old = old\<lparr>
     rt_status := rt_status new,
     rt_attempts := rt_attempts new,
     rt_result_json := coalesce (rt_result_json new) (rt_result_json old),
     rt_error := rt_error new,
     rt_assigned_worker := rt_assigned_worker new,
     rt_updated_at := rt_updated_at new\<rparr>"

definition upsert_task ::
    "seconds \<Rightarrow> task_envelope \<Rightarrow> task_result option \<Rightarrow> store \<Rightarrow> (store_error + unit) \<times> store" where
  "upsert_task now t res s =
     (case bind_ints [ts_priority (te_spec t), te_attempts t] of
        Some e \<Rightarrow> (Inl e, s)
      | None \<Rightarrow>
          (let r = task_row_of now t res
           in (Inr (), s\<lparr>db_tasks := upsert rt_task_id (merge_task_row r) r (db_tasks s)\<rparr>)))"

section \<open>Workers\<close>

definition worker_row_of :: "worker_info \<Rightarrow> worker_row" where
  "worker_row_of w = \<lparr>
     rw_worker_id = wi_worker_id w,
     rw_host = wi_host w,
     rw_pid = wi_pid w,
     rw_queues_json = sorted_strs (wi_queues w),
     rw_labels_json = sorted_strs (wi_labels w),
     rw_capacity = wi_capacity w,
     rw_running_tasks = wi_running_tasks w,
     rw_status = wi_status w,
     rw_started_at = wi_started_at w,
     rw_last_heartbeat = wi_last_heartbeat w\<rparr>"

text \<open>The conflict branch sets every column but the key and \<open>started_at\<close>.\<close>

definition merge_worker_row :: "worker_row \<Rightarrow> worker_row \<Rightarrow> worker_row" where
  "merge_worker_row new old = old\<lparr>
     rw_host := rw_host new,
     rw_pid := rw_pid new,
     rw_queues_json := rw_queues_json new,
     rw_labels_json := rw_labels_json new,
     rw_capacity := rw_capacity new,
     rw_running_tasks := rw_running_tasks new,
     rw_status := rw_status new,
     rw_last_heartbeat := rw_last_heartbeat new\<rparr>"

definition upsert_worker :: "worker_info \<Rightarrow> store \<Rightarrow> (store_error + unit) \<times> store" where
  "upsert_worker w s =
     (case bind_ints [wi_pid w, wi_capacity w, wi_running_tasks w] of
        Some e \<Rightarrow> (Inl e, s)
      | None \<Rightarrow>
          (let r = worker_row_of w
           in (Inr (), s\<lparr>db_workers := upsert rw_worker_id (merge_worker_row r) r (db_workers s)\<rparr>)))"

definition mark_worker_offline :: "seconds \<Rightarrow> string \<Rightarrow> store \<Rightarrow> store" where
  "mark_worker_offline now wid s = s\<lparr>db_workers :=
     map (\<lambda>r. if rw_worker_id r = wid then r\<lparr>rw_status := OFFLINE, rw_last_heartbeat := now\<rparr> else r)
       (db_workers s)\<rparr>"

section \<open>Logs\<close>

text \<open>\<open>str.upper\<close> on the levels that the program uses, which are ASCII; other characters are left as they are.\<close>

definition to_upper :: "char \<Rightarrow> char" where
  "to_upper c = (if CHR ''a'' \<le> c \<and> c \<le> CHR ''z'' then char_of (of_char c - 32 :: nat) else c)"

definition append_log :: "seconds \<Rightarrow> string \<Rightarrow> string \<Rightarrow> string \<Rightarrow> store \<Rightarrow> store" where
  "append_log now entity level message s =
     s\<lparr>db_logs := db_logs s @ [\<lparr>rl_id = Suc (db_log_seq s), rl_entity_id = entity,
          rl_level = map to_upper level, rl_message = message, rl_created_at = now\<rparr>],
       db_log_seq := Suc (db_log_seq s)\<rparr>"

section \<open>Queries\<close>

definition sql_limit :: "int \<Rightarrow> 'a list \<Rightarrow> 'a list" where
  "sql_limit n xs = (if n < 0 then xs else take (nat n) xs)"

definition recent_tasks ::
    "(task_row list \<Rightarrow> task_row list) \<Rightarrow> int \<Rightarrow> store \<Rightarrow> store_error + task_row list" where
  "recent_tasks scan limit s =
     (case bind_ints [limit] of
        Some e \<Rightarrow> Inl e
      | None \<Rightarrow> Inr (sql_limit limit (sort_key (\<lambda>r. - rt_updated_at r) (scan (db_tasks s)))))"

text \<open>\<open>dict(row)\<close> with \<open>queues_json\<close> and \<open>labels_json\<close> popped and decoded at the end.\<close>

definition worker_row_dict :: "worker_row \<Rightarrow> (string, pyval) dict" where
  "worker_row_dict r = [
     (''worker_id'', PStr (rw_worker_id r)),
     (''host'', PStr (rw_host r)),
     (''pid'', PInt (rw_pid r)),
     (''capacity'', PInt (rw_capacity r)),
     (''running_tasks'', PInt (rw_running_tasks r)),
     (''status'', PStr (worker_status_str (rw_status r))),
     (''started_at'', PFloat (rw_started_at r)),
     (''last_heartbeat'', PFloat (rw_last_heartbeat r)),
     (''queues'', rw_queues_json r),
     (''labels'', rw_labels_json r)]"

definition worker_dicts :: "store \<Rightarrow> (string, pyval) dict list" where
  "worker_dicts s = map worker_row_dict (sort_key rw_worker_id (db_workers s))"

definition logs ::
    "(log_row list \<Rightarrow> log_row list) \<Rightarrow> string \<Rightarrow> int \<Rightarrow> store \<Rightarrow> store_error + log_row list" where
  "logs scan entity limit s =
     (case bind_ints [limit] of
        Some e \<Rightarrow> Inl e
      | None \<Rightarrow> Inr (sql_limit limit
           (sort_key (\<lambda>r. - rl_created_at r) (filter (\<lambda>r. rl_entity_id r = entity) (scan (db_logs s))))))"

text \<open>\<open>GROUP BY status\<close>: one row for each status that occurs, in the order of the status index.\<close>

definition task_counts :: "store \<Rightarrow> (string, int) dict" where
  "task_counts s =
     map (\<lambda>st. (status_str st, int (length (filter (\<lambda>r. rt_status r = st) (db_tasks s)))))
       (sorted_list_of_set (rt_status ` set (db_tasks s)))"

section \<open>Upserts\<close>

definition lookup_row :: "('r \<Rightarrow> 'k) \<Rightarrow> 'k \<Rightarrow> 'r list \<Rightarrow> 'r option" where
  "lookup_row key k rs = find (\<lambda>x. key x = k) rs"

lemma lookup_row_None: "lookup_row key k rs = None \<longleftrightarrow> k \<notin> key ` set rs"
  by (auto simp: lookup_row_def find_None_iff)

lemma lookup_row_key: "lookup_row key k rs = Some r \<Longrightarrow> key r = k"
  by (auto simp: lookup_row_def find_Some_iff)

lemma lookup_row_mem: "lookup_row key k rs = Some r \<Longrightarrow> r \<in> set rs"
  by (auto simp: lookup_row_def find_Some_iff)

lemma lookup_row_append:
  "lookup_row key k (rs @ [r]) =
     (case lookup_row key k rs of Some x \<Rightarrow> Some x | None \<Rightarrow> if key r = k then Some r else None)"
  by (induction rs) (auto simp: lookup_row_def)

lemma lookup_row_map:
  assumes "\<And>x. key (f x) = key x"
  shows "lookup_row key k (map f rs) = map_option f (lookup_row key k rs)"
  using assms by (induction rs) (auto simp: lookup_row_def)

text \<open>
  The contract of a table with a primary key: what the conflict branch of the upsert writes keeps the
  key.  Then keys stay unique, and a lookup after an upsert sees the new or the merged row.
\<close>

locale keyed_table =
  fixes key :: "'r \<Rightarrow> 'k" and merge :: "'r \<Rightarrow> 'r \<Rightarrow> 'r"
  assumes key_merge: "key (merge new old) = key old"
begin

lemma key_rewrite: "key (if key x = key r then merge r x else x) = key x"
  by (simp add: key_merge)

lemma map_key_upsert:
  "map key (upsert key (merge r) r rs) = (if key r \<in> key ` set rs then map key rs else map key rs @ [key r])"
  by (auto simp: upsert_def key_merge)

lemma distinct_upsert: "distinct (map key rs) \<Longrightarrow> distinct (map key (upsert key (merge r) r rs))"
  by (auto simp: map_key_upsert)

lemma lookup_upsert:
  "lookup_row key k (upsert key (merge r) r rs) =
    (if k = key r then Some (case lookup_row key k rs of None \<Rightarrow> r | Some x \<Rightarrow> merge r x)
     else lookup_row key k rs)"
proof (cases "key r \<in> key ` set rs")
  case True
  from True have "lookup_row key (key r) rs \<noteq> None" by (simp add: lookup_row_None)
  moreover have "upsert key (merge r) r rs = map (\<lambda>x. if key x = key r then merge r x else x) rs"
    using True by (simp add: upsert_def)
  ultimately show ?thesis
    using key_rewrite [of _ r] by (cases "lookup_row key k rs") (auto simp: lookup_row_map dest: lookup_row_key)
next
  case False
  then have "lookup_row key (key r) rs = None" by (simp add: lookup_row_None)
  then show ?thesis using False by (auto simp: upsert_def lookup_row_append split: option.split)
qed

end

interpretation tasks_table: keyed_table rt_task_id merge_task_row
  by unfold_locales (simp add: merge_task_row_def)

interpretation workers_table: keyed_table rw_worker_id merge_worker_row
  by unfold_locales (simp add: merge_worker_row_def)

lemma task_row_of_id [simp]: "rt_task_id (task_row_of now t res) = te_task_id t"
  by (simp add: task_row_of_def)

lemma worker_row_of_id [simp]: "rw_worker_id (worker_row_of w) = wi_worker_id w"
  by (simp add: worker_row_of_def)

abbreviation task_row :: "string \<Rightarrow> store \<Rightarrow> task_row option" where
  "task_row tid s \<equiv> lookup_row rt_task_id tid (db_tasks s)"

abbreviation worker_row :: "string \<Rightarrow> store \<Rightarrow> worker_row option" where
  "worker_row wid s \<equiv> lookup_row rw_worker_id wid (db_workers s)"

section \<open>The store's invariant\<close>

text \<open>Primary keys are unique and log ids increase.\<close>

definition store_inv :: "store \<Rightarrow> bool" where
  "store_inv s \<longleftrightarrow> distinct (map rt_task_id (db_tasks s)) \<and> distinct (map rw_worker_id (db_workers s))
     \<and> sorted_wrt (<) (map rl_id (db_logs s)) \<and> (\<forall>r \<in> set (db_logs s). rl_id r \<le> db_log_seq s)"

lemma new_store_inv [simp]: "store_inv new_store"
  by (simp add: store_inv_def new_store_def)

lemma upsert_task_inv [keeps_inv]: "store_inv s \<Longrightarrow> store_inv (snd (upsert_task now t res s))"
  by (auto simp: upsert_task_def store_inv_def Let_def intro!: tasks_table.distinct_upsert split: option.split)

lemma upsert_worker_inv [keeps_inv]: "store_inv s \<Longrightarrow> store_inv (snd (upsert_worker w s))"
  by (auto simp: upsert_worker_def store_inv_def Let_def intro!: workers_table.distinct_upsert split: option.split)

lemma map_worker_id_offline:
  "map rw_worker_id (map (\<lambda>r. if rw_worker_id r = wid then r\<lparr>rw_status := OFFLINE, rw_last_heartbeat := now\<rparr> else r) rs)
     = map rw_worker_id rs"
  by simp

lemma mark_worker_offline_inv [keeps_inv]: "store_inv s \<Longrightarrow> store_inv (mark_worker_offline now wid s)"
  unfolding mark_worker_offline_def store_inv_def by (simp add: comp_def if_distrib cong: if_cong)

lemma append_log_inv [keeps_inv]: "store_inv s \<Longrightarrow> store_inv (append_log now e l m s)"
  by (auto simp: append_log_def store_inv_def sorted_wrt_append)

section \<open>Frames and lookups\<close>

lemma upsert_task_frame [frame_simps]:
  "db_workers (snd (upsert_task now t res s)) = db_workers s"
  "db_logs (snd (upsert_task now t res s)) = db_logs s"
  "db_log_seq (snd (upsert_task now t res s)) = db_log_seq s"
  by (simp_all add: upsert_task_def Let_def split: option.split)

lemma upsert_worker_frame [frame_simps]:
  "db_tasks (snd (upsert_worker w s)) = db_tasks s"
  "db_logs (snd (upsert_worker w s)) = db_logs s"
  "db_log_seq (snd (upsert_worker w s)) = db_log_seq s"
  by (simp_all add: upsert_worker_def Let_def split: option.split)

lemma mark_worker_offline_frame [frame_simps]:
  "db_tasks (mark_worker_offline now wid s) = db_tasks s"
  "db_logs (mark_worker_offline now wid s) = db_logs s"
  by (simp_all add: mark_worker_offline_def)

lemma append_log_frame [frame_simps]:
  "db_tasks (append_log now e l m s) = db_tasks s"
  "db_workers (append_log now e l m s) = db_workers s"
  by (simp_all add: append_log_def)

definition task_fits :: "task_envelope \<Rightarrow> bool" where
  "task_fits t \<longleftrightarrow> int64 (ts_priority (te_spec t)) \<and> int64 (te_attempts t)"

definition worker_fits :: "worker_info \<Rightarrow> bool" where
  "worker_fits w \<longleftrightarrow> int64 (wi_pid w) \<and> int64 (wi_capacity w) \<and> int64 (wi_running_tasks w)"

lemma upsert_task_ok: "task_fits t \<Longrightarrow> fst (upsert_task now t res s) = Inr ()"
  by (simp add: upsert_task_def task_fits_def Let_def)

lemma upsert_task_fails: "\<not> task_fits t \<Longrightarrow> \<exists>i. upsert_task now t res s = (Inl (OverflowError i), s)"
  by (auto simp: upsert_task_def task_fits_def Let_def)

lemma upsert_worker_ok: "worker_fits w \<Longrightarrow> fst (upsert_worker w s) = Inr ()"
  by (simp add: upsert_worker_def worker_fits_def Let_def)

lemma upsert_worker_fails: "\<not> worker_fits w \<Longrightarrow> \<exists>i. upsert_worker w s = (Inl (OverflowError i), s)"
  by (auto simp: upsert_worker_def worker_fits_def Let_def)

lemma task_row_upsert_task:
  assumes "task_fits t"
  shows "task_row tid (snd (upsert_task now t res s)) =
    (if tid = te_task_id t
     then Some (case task_row tid s of None \<Rightarrow> task_row_of now t res
                | Some old \<Rightarrow> merge_task_row (task_row_of now t res) old)
     else task_row tid s)"
  using assms by (simp add: upsert_task_def task_fits_def Let_def tasks_table.lookup_upsert)

lemma worker_row_upsert_worker:
  assumes "worker_fits w"
  shows "worker_row wid (snd (upsert_worker w s)) =
    (if wid = wi_worker_id w
     then Some (case worker_row wid s of None \<Rightarrow> worker_row_of w
                | Some old \<Rightarrow> merge_worker_row (worker_row_of w) old)
     else worker_row wid s)"
  using assms by (simp add: upsert_worker_def worker_fits_def Let_def workers_table.lookup_upsert)

lemma worker_row_mark_offline:
  "worker_row k (mark_worker_offline now wid s) =
     (if k = wid then map_option (\<lambda>r. r\<lparr>rw_status := OFFLINE, rw_last_heartbeat := now\<rparr>) (worker_row k s)
      else worker_row k s)"
proof -
  have "worker_row k (mark_worker_offline now wid s) =
      map_option (\<lambda>r. if rw_worker_id r = wid then r\<lparr>rw_status := OFFLINE, rw_last_heartbeat := now\<rparr> else r)
        (worker_row k s)"
    by (simp add: mark_worker_offline_def lookup_row_map)
  then show ?thesis
    by (cases "worker_row k s") (auto dest: lookup_row_key)
qed

end
