(* ===== verification/Store_Props.thy ===== *)
theory Store_Props
  imports Store
begin

text \<open>
  Properties of the SQLite store: what a task's row holds after any history of writes, what the
  queries return.
\<close>

section \<open>The row of a task after a history of writes\<close>

type_synonym task_write = "seconds \<times> task_envelope \<times> task_result option"

definition write_task :: "task_write \<Rightarrow> store \<Rightarrow> store" where
  "write_task w s = snd (upsert_task (fst w) (fst (snd w)) (snd (snd w)) s)"

definition writes_of :: "string \<Rightarrow> task_write list \<Rightarrow> task_write list" where
  "writes_of tid ws = filter (\<lambda>w. te_task_id (fst (snd w)) = tid \<and> task_fits (fst (snd w))) ws"

definition row_of_write :: "task_write \<Rightarrow> task_row" where
  "row_of_write w = task_row_of (fst w) (fst (snd w)) (snd (snd w))"

text \<open>
  The row a history amounts to: identity and specification from the first write, status, attempts,
  error, worker and time of update from the last, the result from the last write that had one.
\<close>

definition last_result :: "task_write list \<Rightarrow> pyval option" where
  "last_result ws =
     (case filter (\<lambda>r. r \<noteq> None) (map (\<lambda>w. rt_result_json (row_of_write w)) ws) of
        [] \<Rightarrow> None | rs \<Rightarrow> last rs)"

fun row_of_history :: "task_write list \<Rightarrow> task_row option" where
  "row_of_history [] = None"
| "row_of_history (w # ws) =
     (let new = row_of_write (last (w # ws))
      in Some ((row_of_write w)\<lparr>rt_status := rt_status new, rt_attempts := rt_attempts new,
                 rt_result_json := last_result (w # ws), rt_error := rt_error new,
                 rt_assigned_worker := rt_assigned_worker new, rt_updated_at := rt_updated_at new\<rparr>))"

lemma last_result_snoc:
  "last_result (ws @ [w]) = coalesce (rt_result_json (row_of_write w)) (last_result ws)"
  by (auto simp: last_result_def coalesce_def split: list.split option.split)

lemma last_result_single: "last_result [w] = rt_result_json (row_of_write w)"
  by (simp add: last_result_def)

lemma row_of_history_single: "row_of_history [w] = Some (row_of_write w)"
  by (simp add: last_result_single)

lemma row_of_history_snoc:
  "ws \<noteq> [] \<Longrightarrow> row_of_history (ws @ [w]) = map_option (merge_task_row (row_of_write w)) (row_of_history ws)"
proof (cases ws)
  case (Cons v vs)
  then show ?thesis
    using last_result_snoc [of ws w] by (simp add: Let_def merge_task_row_def)
qed simp

lemma row_of_history_None: "row_of_history ws = None \<longleftrightarrow> ws = []"
  by (cases ws) (simp_all add: Let_def)

lemma writes_of_snoc:
  "writes_of tid (ws @ [w]) = (if te_task_id (fst (snd w)) = tid \<and> task_fits (fst (snd w))
     then writes_of tid ws @ [w] else writes_of tid ws)"
  by (simp add: writes_of_def)

lemma task_row_write:
  "task_row tid (write_task w s) =
    (if te_task_id (fst (snd w)) = tid \<and> task_fits (fst (snd w))
     then Some (case task_row tid s of None \<Rightarrow> row_of_write w | Some old \<Rightarrow> merge_task_row (row_of_write w) old)
     else task_row tid s)"
proof (cases "task_fits (fst (snd w))")
  case True
  then show ?thesis
    by (auto simp: write_task_def row_of_write_def task_row_upsert_task split: option.split)
next
  case False
  then show ?thesis
    using upsert_task_fails [OF False, of "fst w" "snd (snd w)" s] by (auto simp: write_task_def)
qed

text \<open>
  C28. After any sequence of task writes to a new store, of any tasks in any order, the row of a task
  is exactly what its own writes amount to: the queue, priority, target, payload, specification and
  creation time of the first, the status, attempts, error, worker and time of update of the last, and
  the result of the last write that carried one.  Writes whose integers SQLite cannot hold count for
  nothing, and a task never written has no row.
\<close>
theorem row_after_writes:
  "task_row tid (fold write_task ws new_store) = row_of_history (writes_of tid ws)"
proof (induction ws rule: rev_induct)
  case Nil
  show ?case by (simp add: new_store_def lookup_row_def writes_of_def)
next
  case (snoc w ws)
  show ?case
  proof (cases "writes_of tid ws = []")
    case True
    then show ?thesis
      using snoc by (simp add: task_row_write writes_of_snoc row_of_history_single del: row_of_history.simps(2))
  next
    case False
    then have "row_of_history (writes_of tid ws) \<noteq> None" by (simp add: row_of_history_None)
    then obtain r where "row_of_history (writes_of tid ws) = Some r" by blast
    then show ?thesis
      using snoc False by (simp add: task_row_write writes_of_snoc row_of_history_snoc)
  qed
qed

section \<open>The queries\<close>

lemma sorted_wrt_map_iff: "sorted (map f xs) \<longleftrightarrow> sorted_wrt (\<lambda>x y. f x \<le> f y) xs"
  by (simp add: sorted_map)

lemma sql_limit_length: "length (sql_limit n xs) = (if n < 0 then length xs else min (nat n) (length xs))"
  by (simp add: sql_limit_def min.commute)

lemma sql_limit_split: "\<exists>ys. xs = sql_limit n xs @ ys"
  by (auto simp: sql_limit_def intro: exI [where x = "drop (nat n) xs"])

text \<open>
  \<open>recent_tasks(limit)\<close> returns rows of the table in descending order of their last update, as
  many as the limit allows (a negative limit allows all); the rows it leaves out are no more recent
  than any it returns.  This holds whatever order SQLite visits the table in.  A limit beyond 64 bits
  raises.
\<close>
theorem recent_tasks_newest:
  assumes scan: "mset (scan (db_tasks s)) = mset (db_tasks s)" and limit: "int64 limit"
  shows "\<exists>rows rest. recent_tasks scan limit s = Inr rows
    \<and> mset (rows @ rest) = mset (db_tasks s)
    \<and> length rows = (if limit < 0 then length (db_tasks s) else min (nat limit) (length (db_tasks s)))
    \<and> sorted_wrt (\<lambda>r r'. rt_updated_at r' \<le> rt_updated_at r) (rows @ rest)"
proof -
  define xs where "xs = sort_key (\<lambda>r. - rt_updated_at r) (scan (db_tasks s))"
  obtain rest where rest: "xs = sql_limit limit xs @ rest" using sql_limit_split by blast
  have "mset xs = mset (db_tasks s)" using scan by (simp add: xs_def)
  moreover from this have "length xs = length (db_tasks s)" by (metis size_mset)
  moreover have "sorted_wrt (\<lambda>r r'. rt_updated_at r' \<le> rt_updated_at r) xs"
    using sorted_sort_key [of "\<lambda>r. - rt_updated_at r" "scan (db_tasks s)"]
    by (simp add: xs_def sorted_wrt_map_iff)
  moreover have "recent_tasks scan limit s = Inr (sql_limit limit xs)"
    using limit by (simp add: recent_tasks_def xs_def)
  ultimately show ?thesis using rest sql_limit_length [of limit xs] by metis
qed

definition demo_env :: "string \<Rightarrow> task_status \<Rightarrow> task_envelope" where
  "demo_env tid st = (new_envelope '''' (\<lambda>_. 0) (default_spec ''m:f''))\<lparr>te_task_id := tid, te_status := st\<rparr>"

definition demo_store :: store where
  "demo_store = fold write_task
     [(1, demo_env ''a'' QUEUED, None), (3, demo_env ''b'' RUNNING, None), (2, demo_env ''c'' QUEUED, None)]
     new_store"

theorem recent_tasks_newest_witness:
  "\<exists>rows rest. recent_tasks rev 2 demo_store = Inr rows
    \<and> mset (rows @ rest) = mset (db_tasks demo_store)
    \<and> length rows = (if (2::int) < 0 then length (db_tasks demo_store) else min (nat 2) (length (db_tasks demo_store)))
    \<and> sorted_wrt (\<lambda>r r'. rt_updated_at r' \<le> rt_updated_at r) (rows @ rest)"
  by (rule recent_tasks_newest) (simp_all add: int64_def)

lemma find_map_key:
  "inj_on f (set ks) \<Longrightarrow> k \<in> set ks \<Longrightarrow> dict_get (map (\<lambda>x. (f x, g x)) ks) (f k) = Some (g k)"
  by (induction ks) (auto simp: inj_on_def)

lemma sum_list_filter_length:
  "finite A \<Longrightarrow> f ` set xs \<subseteq> A \<Longrightarrow> (\<Sum>a \<in> A. length (filter (\<lambda>x. f x = a) xs)) = length xs"
proof (induction xs)
  case (Cons x xs)
  have "(\<Sum>a \<in> A. length (filter (\<lambda>y. f y = a) (x # xs)))
      = (\<Sum>a \<in> A. (if f x = a then 1 else 0) + length (filter (\<lambda>y. f y = a) xs))"
    by (rule sum.cong) auto
  also have "\<dots> = 1 + (\<Sum>a \<in> A. length (filter (\<lambda>y. f y = a) xs))"
    using Cons.prems by (simp add: sum.distrib sum.delta)
  finally show ?case using Cons by simp
qed simp

text \<open>
  \<open>task_counts\<close> gives for each status that occurs the number of its rows, nothing for a status
  that does not occur, the statuses in ascending string order; the counts add up to the number of
  tasks in the table.
\<close>
theorem task_counts_exact:
  "(\<forall>st. dict_get (task_counts s) (status_str st) =
      (let n = length (filter (\<lambda>r. rt_status r = st) (db_tasks s)) in if n = 0 then None else Some (int n)))
   \<and> sorted_wrt (<) (map fst (task_counts s))
   \<and> sum_list (map snd (task_counts s)) = int (length (db_tasks s))"
proof (intro conjI allI)
  let ?A = "rt_status ` set (db_tasks s)"
  have fin: "finite ?A" by simp
  fix st
  show "dict_get (task_counts s) (status_str st) =
      (let n = length (filter (\<lambda>r. rt_status r = st) (db_tasks s)) in if n = 0 then None else Some (int n))"
  proof (cases "st \<in> ?A")
    case True
    then have "filter (\<lambda>r. rt_status r = st) (db_tasks s) \<noteq> []" by (auto simp: filter_empty_conv)
    then show ?thesis
      using True find_map_key [of status_str "sorted_list_of_set ?A" st] inj_status_str
      by (simp add: task_counts_def Let_def inj_on_def inj_def)
  next
    case False
    then have "filter (\<lambda>r. rt_status r = st) (db_tasks s) = []" by (auto simp: filter_empty_conv)
    moreover have "status_str st \<notin> fst ` set (task_counts s)"
      using False inj_status_str [THEN inj_eq] by (auto simp: task_counts_def)
    ultimately show ?thesis by (simp add: Let_def map_of_eq_None_iff)
  qed
next
  have "sorted_wrt (<) (sorted_list_of_set (rt_status ` set (db_tasks s)))"
    by simp
  then have "sorted_wrt (\<lambda>x y. status_str x < status_str y)
      (sorted_list_of_set (rt_status ` set (db_tasks s)))"
    by (simp only: less_task_status_def [abs_def])
  then show "sorted_wrt (<) (map fst (task_counts s))"
    by (simp add: task_counts_def sorted_wrt_map comp_def)
next
  let ?A = "rt_status ` set (db_tasks s)" and ?n = "\<lambda>st. length (filter (\<lambda>r. rt_status r = st) (db_tasks s))"
  have "sum_list (map snd (task_counts s)) = (\<Sum>st \<in> ?A. int (?n st))"
    by (simp add: task_counts_def comp_def sum_list_distinct_conv_sum_set)
  also have "\<dots> = int (length (db_tasks s))"
    using sum_list_filter_length [of ?A rt_status "db_tasks s"] by (simp flip: of_nat_sum)
  finally show "sum_list (map snd (task_counts s)) = int (length (db_tasks s))" .
qed

end
