(* ===== verification/Locks.thy ===== *)
theory Locks
  imports Prelude
begin

text \<open>
  \<open>taskrunner/shared/locks.py\<close>: the scheduler's lock manager, over \<open>asyncio.Lock\<close> and
  \<open>asyncio.wait_for\<close> of the standard library.  A client is a coroutine in \<open>async with
  locks.acquire(key)\<close>.  Coroutines switch only at an \<open>await\<close>, so what a client does between two
  awaits is one operation:
    \<^item> \<open>request\<close>: up to \<open>await fut\<close> in \<open>Lock.acquire\<close>, or through it when the lock is free;
    \<^item> \<open>expire\<close>: \<open>wait_for\<close>'s timeout cancels a client that still waits;
    \<^item> \<open>resume\<close>: a client whose future is done runs on: into the body, or out with \<open>TimeoutError\<close>;
    \<^item> \<open>leave\<close>: the end of the body, normal or by an exception: \<open>finally: lock.release()\<close>.
\<close>

section \<open>One lock\<close>

type_synonym client = nat

text \<open>
  The future a client waits on: not done, done by \<open>set_result\<close>, cancelled, or done by
  \<open>set_result\<close> with a cancellation of the client's task delivered before it ran again.
\<close>

datatype waiter = Pending | Woken | Cancelled | WokenLate

record lock =
  lk_locked :: bool
  lk_waiters :: "(client \<times> waiter) list"
  lk_inside :: "client list"

text \<open>\<open>lk_inside\<close> lists the clients that are in the body; the code keeps only the flag.\<close>

definition new_lock :: lock where
  "new_lock = \<lparr>lk_locked = False, lk_waiters = [], lk_inside = []\<rparr>"

fun wake_head :: "(client \<times> waiter) list \<Rightarrow> (client \<times> waiter) list" where
  "wake_head [] = []"
| "wake_head ((c, w) # ws) = (c, if w = Pending then Woken else w) # ws"

definition wake_up_first :: "lock \<Rightarrow> lock" where
  "wake_up_first l = l\<lparr>lk_waiters := wake_head (lk_waiters l)\<rparr>"

datatype outcome = Entered | Waiting | TimedOut | Left | NotEnabled

definition lock_request :: "client \<Rightarrow> lock \<Rightarrow> outcome \<times> lock" where
  "lock_request c l =
     (if \<not> lk_locked l \<and> (\<forall>x \<in> set (lk_waiters l). snd x = Cancelled)
      then (Entered, l\<lparr>lk_locked := True, lk_inside := c # lk_inside l\<rparr>)
      else (Waiting, l\<lparr>lk_waiters := lk_waiters l @ [(c, Pending)]\<rparr>))"

text \<open>\<open>task.cancel()\<close> cancels the awaited future when it is not done.\<close>

definition cancel_waiter :: "client \<Rightarrow> (client \<times> waiter) \<Rightarrow> client \<times> waiter" where
  "cancel_waiter c x =
     (if fst x = c
      then (c, case snd x of Pending \<Rightarrow> Cancelled | Woken \<Rightarrow> WokenLate | w \<Rightarrow> w) else x)"

definition lock_expire :: "client \<Rightarrow> lock \<Rightarrow> outcome \<times> lock" where
  "lock_expire c l =
     (if c \<in> fst ` set (lk_waiters l)
      then (Waiting, l\<lparr>lk_waiters := map (cancel_waiter c) (lk_waiters l)\<rparr>) else (NotEnabled, l))"

text \<open>
  Running on after \<open>await fut\<close>: the future leaves the deque; after a cancellation the next waiter is
  woken if the lock is free, and \<open>wait_for\<close> raises \<open>TimeoutError\<close>.
\<close>

definition lock_resume :: "client \<Rightarrow> lock \<Rightarrow> outcome \<times> lock" where
  "lock_resume c l =
     (let l1 = l\<lparr>lk_waiters := filter (\<lambda>x. fst x \<noteq> c) (lk_waiters l)\<rparr>
      in case dict_get (lk_waiters l) c of
           Some Woken \<Rightarrow> (Entered, l1\<lparr>lk_locked := True, lk_inside := c # lk_inside l1\<rparr>)
         | Some Cancelled \<Rightarrow> (TimedOut, if lk_locked l1 then l1 else wake_up_first l1)
         | Some WokenLate \<Rightarrow> (TimedOut, if lk_locked l1 then l1 else wake_up_first l1)
         | _ \<Rightarrow> (NotEnabled, l))"

definition lock_leave :: "client \<Rightarrow> lock \<Rightarrow> outcome \<times> lock" where
  "lock_leave c l =
     (if c \<in> set (lk_inside l)
      then (Left, wake_up_first (l\<lparr>lk_locked := False, lk_inside := remove1 c (lk_inside l)\<rparr>))
      else (NotEnabled, l))"

section \<open>The manager\<close>

datatype lock_call = Request client string | Expire client string | Resume client string | Leave client string

type_synonym locks = "(string, lock) dict"

text \<open>\<open>defaultdict(asyncio.Lock)\<close>: a key that is read for the first time gets a new lock.\<close>

definition lock_of :: "string \<Rightarrow> locks \<Rightarrow> lock" where
  "lock_of key m = (case dict_get m key of None \<Rightarrow> new_lock | Some l \<Rightarrow> l)"

definition at_key :: "string \<Rightarrow> (lock \<Rightarrow> outcome \<times> lock) \<Rightarrow> locks \<Rightarrow> outcome \<times> locks" where
  "at_key key f m = (let (r, l) = f (lock_of key m) in (r, dict_set key l m))"

fun lock_op :: "lock_call \<Rightarrow> locks \<Rightarrow> outcome \<times> locks" where
  "lock_op (Request c key) m = at_key key (lock_request c) m"
| "lock_op (Expire c key) m = at_key key (lock_expire c) m"
| "lock_op (Resume c key) m = at_key key (lock_resume c) m"
| "lock_op (Leave c key) m = at_key key (lock_leave c) m"

text \<open>
  The only thing asked of the clients: a coroutine requests a key only while it neither holds it nor
  waits for it (\<open>asyncio.Lock\<close> is not reentrant).
\<close>

definition idle :: "client \<Rightarrow> lock \<Rightarrow> bool" where
  "idle c l \<longleftrightarrow> c \<notin> fst ` set (lk_waiters l) \<and> c \<notin> set (lk_inside l)"

fun allowed :: "lock_call \<Rightarrow> locks \<Rightarrow> bool" where
  "allowed (Request c key) m = idle c (lock_of key m)"
| "allowed _ m = True"

inductive locks_reachable :: "locks \<Rightarrow> bool" where
  start: "locks_reachable []"
| step: "locks_reachable m \<Longrightarrow> allowed op m \<Longrightarrow> locks_reachable (snd (lock_op op m))"

section \<open>The invariant of one lock\<close>

definition lock_inv :: "lock \<Rightarrow> bool" where
  "lock_inv l \<longleftrightarrow>
     (if lk_locked l then \<exists>c. lk_inside l = [c] \<and> c \<notin> fst ` set (lk_waiters l) else lk_inside l = [])
     \<and> distinct (map fst (lk_waiters l))
     \<and> (\<forall>x \<in> set (tl (lk_waiters l)). snd x \<in> {Pending, Cancelled})
     \<and> (lk_waiters l \<noteq> [] \<longrightarrow>
          (if lk_locked l then snd (hd (lk_waiters l)) \<in> {Pending, Cancelled}
           else snd (hd (lk_waiters l)) \<noteq> Pending))"

lemma new_lock_inv [simp]: "lock_inv new_lock"
  by (simp add: lock_inv_def new_lock_def)

text \<open>Waking the head of a deque in which nobody is awake.\<close>

definition asleep :: "(client \<times> waiter) list \<Rightarrow> bool" where
  "asleep ws \<longleftrightarrow> (\<forall>x \<in> set ws. snd x \<in> {Pending, Cancelled})"

lemma lock_inv_locked:
  "lk_locked l \<Longrightarrow> lock_inv l \<longleftrightarrow>
     (\<exists>c. lk_inside l = [c] \<and> c \<notin> fst ` set (lk_waiters l)) \<and> distinct (map fst (lk_waiters l)) \<and> asleep (lk_waiters l)"
  by (cases "lk_waiters l") (auto simp: lock_inv_def asleep_def)

lemma lock_inv_free:
  "\<not> lk_locked l \<Longrightarrow> lock_inv l \<longleftrightarrow> lk_inside l = [] \<and> distinct (map fst (lk_waiters l))
     \<and> (case lk_waiters l of [] \<Rightarrow> True | x # xs \<Rightarrow> snd x \<noteq> Pending \<and> asleep xs)"
  by (cases "lk_waiters l") (auto simp: lock_inv_def asleep_def)

lemma wake_head_fst [simp]: "map fst (wake_head ws) = map fst ws"
  by (cases ws rule: wake_head.cases) auto

lemma wake_head_woken: "asleep (tl ws) \<Longrightarrow>
    (case wake_head ws of [] \<Rightarrow> True | x # xs \<Rightarrow> snd x \<noteq> Pending \<and> asleep xs)"
  by (cases ws rule: wake_head.cases) auto

lemma asleep_Nil [simp]: "asleep []"
  by (simp add: asleep_def)

lemma asleep_filter: "asleep ws \<Longrightarrow> asleep (filter P ws)"
  by (simp add: asleep_def)

lemma asleep_tl: "asleep ws \<Longrightarrow> asleep (tl ws)"
  by (cases ws) (simp_all add: asleep_def)

lemma cancel_waiter_fst [simp]: "fst (cancel_waiter c x) = fst x"
  by (simp add: cancel_waiter_def)

lemma asleep_cancel: "asleep ws \<Longrightarrow> asleep (map (cancel_waiter c) ws)"
  by (auto simp: asleep_def cancel_waiter_def)

lemma cancel_not_pending: "snd x \<noteq> Pending \<Longrightarrow> snd (cancel_waiter c x) \<noteq> Pending"
  by (auto simp: cancel_waiter_def split: waiter.split)

lemma lock_request_inv [keeps_inv]: "lock_inv l \<Longrightarrow> idle c l \<Longrightarrow> lock_inv (snd (lock_request c l))"
proof (cases "lk_locked l")
  case True
  assume "lock_inv l" "idle c l"
  then show ?thesis
    using True by (auto simp: lock_request_def lock_inv_locked idle_def asleep_def)
next
  case False
  assume inv: "lock_inv l" and "idle c l"
  show ?thesis
  proof (cases "\<forall>x \<in> set (lk_waiters l). snd x = Cancelled")
    case True
    then show ?thesis
      using False inv \<open>idle c l\<close>
      by (auto simp: lock_request_def lock_inv_locked lock_inv_free idle_def asleep_def)
  next
    case other: False
    then obtain x xs where "lk_waiters l = x # xs" by (cases "lk_waiters l") auto
    then show ?thesis
      using other False inv \<open>idle c l\<close>
      by (auto simp: lock_request_def lock_inv_free idle_def asleep_def)
  qed
qed

lemma lock_expire_inv [keeps_inv]: "lock_inv l \<Longrightarrow> lock_inv (snd (lock_expire c l))"
proof (cases "lk_locked l")
  case True
  assume "lock_inv l"
  then show ?thesis
    using True asleep_cancel [of "lk_waiters l" c]
    by (auto simp: lock_expire_def lock_inv_locked comp_def image_image)
next
  case False
  assume "lock_inv l"
  then show ?thesis
    using False
    by (cases "lk_waiters l")
      (auto simp: lock_expire_def lock_inv_free comp_def asleep_cancel cancel_not_pending)
qed

lemma lock_leave_inv [keeps_inv]: "lock_inv l \<Longrightarrow> lock_inv (snd (lock_leave c l))"
proof (cases "c \<in> set (lk_inside l)")
  case True
  assume inv: "lock_inv l"
  with True have "lk_locked l" by (cases "lk_locked l") (auto simp: lock_inv_def)
  with inv True wake_head_woken [OF asleep_tl, of "lk_waiters l"] show ?thesis
    by (auto simp: lock_leave_def wake_up_first_def lock_inv_locked lock_inv_free)
qed (simp add: lock_leave_def)

text \<open>A client that is woken is the head of the deque, and the lock is free.\<close>

lemma woken_is_head:
  assumes "lock_inv l" and "dict_get (lk_waiters l) c = Some w" and "w = Woken \<or> w = WokenLate"
  shows "\<not> lk_locked l \<and> (\<exists>xs. lk_waiters l = (c, w) # xs \<and> c \<notin> fst ` set xs \<and> asleep xs)"
proof -
  have mem: "(c, w) \<in> set (lk_waiters l)" using assms(2) by (rule dict_mem_get)
  have free: "\<not> lk_locked l"
  proof
    assume "lk_locked l"
    with assms(1) have "asleep (lk_waiters l)" by (simp add: lock_inv_locked)
    with mem have "w \<in> {Pending, Cancelled}" by (auto simp: asleep_def dest: bspec)
    with assms(3) show False by auto
  qed
  then obtain x xs where ws: "lk_waiters l = x # xs" "asleep xs" "fst x \<notin> fst ` set xs"
    using assms(1) mem by (cases "lk_waiters l") (auto simp: lock_inv_free)
  with mem assms(3) have "x = (c, w)" by (auto simp: asleep_def)
  with ws free show ?thesis by simp
qed

lemma filter_other: "c \<notin> fst ` set xs \<Longrightarrow> filter (\<lambda>x. fst x \<noteq> c) xs = xs"
  by (induction xs) auto

lemma distinct_filter_fst: "distinct (map fst xs) \<Longrightarrow> distinct (map fst (filter P xs))"
  by (induction xs) auto

lemma drop_waiter_inv:
  assumes inv: "lock_inv l"
  shows "lock_inv (let l1 = l\<lparr>lk_waiters := filter (\<lambda>x. fst x \<noteq> c) (lk_waiters l)\<rparr>
                   in if lk_locked l1 then l1 else wake_up_first l1)"
proof (cases "lk_locked l")
  case True
  then show ?thesis using inv by (auto simp: lock_inv_locked asleep_filter distinct_filter_fst)
next
  case False
  have "asleep (tl (filter (\<lambda>x. fst x \<noteq> c) (lk_waiters l)))"
    using inv False by (cases "lk_waiters l") (auto simp: lock_inv_free asleep_filter intro: asleep_tl)
  then show ?thesis
    using False inv wake_head_woken [of "filter (\<lambda>x. fst x \<noteq> c) (lk_waiters l)"]
    by (simp add: wake_up_first_def lock_inv_free distinct_filter_fst)
qed

lemma lock_resume_inv [keeps_inv]: "lock_inv l \<Longrightarrow> lock_inv (snd (lock_resume c l))"
proof (cases "dict_get (lk_waiters l) c")
  case (Some w)
  assume inv: "lock_inv l"
  show ?thesis
  proof (cases w)
    case Woken
    from woken_is_head [OF inv Some] Woken obtain xs
      where ws: "lk_waiters l = (c, w) # xs" "c \<notin> fst ` set xs" "asleep xs" "\<not> lk_locked l" by blast
    then show ?thesis
      using inv Some Woken by (auto simp: lock_resume_def Let_def lock_inv_locked lock_inv_free filter_other)
  qed (use Some inv drop_waiter_inv [OF inv, of c] in \<open>simp_all add: lock_resume_def Let_def\<close>)
qed (simp add: lock_resume_def)

section \<open>All locks\<close>

definition locks_inv :: "locks \<Rightarrow> bool" where
  "locks_inv m \<longleftrightarrow> (\<forall>key. lock_inv (lock_of key m))"

lemma lock_of_set [simp]: "lock_of k (dict_set key l m) = (if k = key then l else lock_of k m)"
  by (simp add: lock_of_def)

lemma lock_of_Nil [simp]: "lock_of k [] = new_lock"
  by (simp add: lock_of_def)

lemma lock_of_at_key: "lock_of k (snd (at_key key f m)) = (if k = key then snd (f (lock_of key m)) else lock_of k m)"
  by (simp add: at_key_def split: prod.split)

lemma fst_at_key: "fst (at_key key f m) = fst (f (lock_of key m))"
  by (simp add: at_key_def split: prod.split)

lemma lock_op_inv [keeps_inv]: "locks_inv m \<Longrightarrow> allowed op m \<Longrightarrow> locks_inv (snd (lock_op op m))"
  by (cases op) (auto simp: locks_inv_def lock_of_at_key intro: keeps_inv)

lemma locks_reachable_inv: "locks_reachable m \<Longrightarrow> locks_inv m"
  by (induction rule: locks_reachable.induct) (simp add: locks_inv_def, rule lock_op_inv)

end
