(* ===== verification/Locks_Props.thy ===== *)
theory Locks_Props
  imports Locks
begin

text \<open>Properties of the lock manager: mutual exclusion, and no waiting client is forgotten.\<close>

fun run_locks :: "lock_call list \<Rightarrow> locks \<Rightarrow> outcome list \<times> locks" where
  "run_locks [] m = ([], m)"
| "run_locks (op # ops) m =
     (let m1 = snd (lock_op op m); rest = run_locks ops m1 in (fst (lock_op op m) # fst rest, snd rest))"

text \<open>Three clients of one key: the first is inside, the second gave up, the third waits.\<close>

definition demo_locks :: locks where
  "demo_locks = snd (run_locks [Request 1 ''q'', Request 2 ''q'', Request 3 ''q'', Expire 2 ''q''] [])"

lemma demo_locks_reachable: "locks_reachable demo_locks"
proof -
  let ?m1 = "snd (lock_op (Request 1 ''q'') [])" let ?m2 = "snd (lock_op (Request 2 ''q'') ?m1)"
  let ?m3 = "snd (lock_op (Request 3 ''q'') ?m2)"
  have "locks_reachable ?m1" by (rule locks_reachable.step [OF locks_reachable.start]) code_simp
  then have "locks_reachable ?m2" by (rule locks_reachable.step) code_simp
  then have "locks_reachable ?m3" by (rule locks_reachable.step) code_simp
  then have "locks_reachable (snd (lock_op (Expire 2 ''q'') ?m3))" by (rule locks_reachable.step) simp
  moreover have "snd (lock_op (Expire 2 ''q'') ?m3) = demo_locks" by code_simp
  ultimately show ?thesis by simp
qed

text \<open>
  C29. Whatever the clients do and however their requests, timeouts, resumptions and exits interleave,
  at most one client is in the body of \<open>async with locks.acquire(key)\<close> for a key, and the lock's flag
  is set exactly while one is.
\<close>
theorem mutual_exclusion:
  assumes "locks_reachable m"
  shows "length (lk_inside (lock_of key m)) = (if lk_locked (lock_of key m) then 1 else 0)"
proof -
  have "lock_inv (lock_of key m)" using locks_reachable_inv [OF assms] by (simp add: locks_inv_def)
  then show ?thesis by (cases "lk_locked (lock_of key m)") (auto simp: lock_inv_locked lock_inv_free)
qed

theorem mutual_exclusion_witness:
  "length (lk_inside (lock_of ''q'' demo_locks)) = (if lk_locked (lock_of ''q'' demo_locks) then 1 else 0)"
  by (rule mutual_exclusion [OF demo_locks_reachable])

lemma resume_timed_out:
  assumes inv: "lock_inv l" and out: "lk_inside l = []" and ws: "lk_waiters l = (c, w) # xs"
    and w: "w \<in> {Cancelled, WokenLate}"
  shows "fst (lock_resume c l) = TimedOut" "lk_waiters (snd (lock_resume c l)) = wake_head xs"
    "lk_inside (snd (lock_resume c l)) = []"
proof -
  have free: "\<not> lk_locked l" using inv out by (auto simp: lock_inv_locked)
  have "c \<notin> fst ` set xs" using inv free ws by (simp add: lock_inv_free)
  then show "fst (lock_resume c l) = TimedOut" "lk_waiters (snd (lock_resume c l)) = wake_head xs"
    "lk_inside (snd (lock_resume c l)) = []"
    using w ws free out by (auto simp: lock_resume_def wake_up_first_def filter_other)
qed

lemma wake_head_gone:
  assumes "\<forall>x \<in> set gone. snd x \<in> {Cancelled, WokenLate}" and "w \<in> {Pending, Woken}"
  shows "\<exists>w' \<in> {Pending, Woken}. wake_head (gone @ (c, w) # rest) = gone @ (c, w') # rest"
  using assms by (cases gone rule: wake_head.cases) auto

text \<open>
  A lock that nobody holds is passed on: if clients wait for it, then resuming those at the front
  of the queue that have timed out lets each of them go with a timeout, and the first one that still
  wants the lock enters, before anyone behind it.  So no wake-up is lost, neither by the exit of a
  holder nor by a timeout.
\<close>
theorem lock_passed_on:
  assumes "locks_reachable m" and "lk_inside (lock_of key m) = []"
    and "lk_waiters (lock_of key m) = gone @ (c, w) # rest"
    and "\<forall>x \<in> set gone. snd x \<in> {Cancelled, WokenLate}" and "w \<in> {Pending, Woken}"
  shows "fst (run_locks (map (\<lambda>x. Resume (fst x) key) (gone @ [(c, w)])) m) = replicate (length gone) TimedOut @ [Entered]"
  using assms
proof (induction gone arbitrary: m w)
  case Nil
  let ?l = "lock_of key m"
  have inv: "lock_inv ?l" using locks_reachable_inv [OF Nil.prems(1)] by (simp add: locks_inv_def)
  have "\<not> lk_locked ?l" using inv Nil.prems(2) by (auto simp: lock_inv_locked)
  then have "w = Woken" using inv Nil.prems by (auto simp: lock_inv_free)
  then show ?case using Nil.prems by (simp add: fst_at_key lock_resume_def Let_def)
next
  case (Cons x gone)
  let ?l = "lock_of key m" and ?m = "snd (lock_op (Resume (fst x) key) m)"
  have inv: "lock_inv ?l" using locks_reachable_inv [OF Cons.prems(1)] by (simp add: locks_inv_def)
  have ws: "lk_waiters ?l = (fst x, snd x) # (gone @ (c, w) # rest)" using Cons.prems(3) by simp
  have x: "snd x \<in> {Cancelled, WokenLate}" using Cons.prems(4) by simp
  note r = resume_timed_out [OF inv Cons.prems(2) ws x]
  from wake_head_gone [of gone w c rest] Cons.prems obtain w' where
    w': "w' \<in> {Pending, Woken}" "wake_head (gone @ (c, w) # rest) = gone @ (c, w') # rest" by auto
  have "locks_reachable ?m" using Cons.prems(1) by (rule locks_reachable.step) simp
  from Cons.IH [OF this _ _ _ w'(1)] r w' Cons.prems(4)
  have "fst (run_locks (map (\<lambda>x. Resume (fst x) key) (gone @ [(c, w')])) ?m)
      = replicate (length gone) TimedOut @ [Entered]" by (simp add: lock_of_at_key)
  moreover have "fst (lock_op (Resume (fst x) key) m) = TimedOut" using r(1) by (simp add: fst_at_key)
  ultimately show ?case by (simp add: Let_def)
qed

text \<open>The holder of the example leaves; the second client goes with a timeout, the third enters.\<close>

theorem lock_passed_on_witness:
  "fst (run_locks (map (\<lambda>x. Resume (fst x) ''q'') ([(2, Cancelled)] @ [(3, Pending)]))
     (snd (lock_op (Leave 1 ''q'') demo_locks))) = replicate (length [(2::client, Cancelled)]) TimedOut @ [Entered]"
proof (rule lock_passed_on)
  show "locks_reachable (snd (lock_op (Leave 1 ''q'') demo_locks))"
    using demo_locks_reachable by (rule locks_reachable.step) simp
  show "lk_inside (lock_of ''q'' (snd (lock_op (Leave 1 ''q'') demo_locks))) = []" by code_simp
  show "lk_waiters (lock_of ''q'' (snd (lock_op (Leave 1 ''q'') demo_locks))) = [(2, Cancelled)] @ (3, Pending) # []"
    by code_simp
qed simp_all

end
