(* ===== verification/Text.thy ===== *)
theory Text
  imports Prelude
begin

text \<open>
  The operations on Python strings that the program uses: \<open>strip\<close>, \<open>split\<close>, \<open>partition\<close>, the
  conversions between integers and decimal text, and the formatting of a duration.  A \<open>string\<close> is a
  list of code points below 256.
\<close>

section \<open>Blanks\<close>

definition is_space :: "char \<Rightarrow> bool" where
  "is_space c \<longleftrightarrow> (let n = (of_char c :: nat)
     in 9 \<le> n \<and> n \<le> 13 \<or> 28 \<le> n \<and> n \<le> 32 \<or> n = 133 \<or> n = 160)"

definition strip :: "string \<Rightarrow> string" where
  "strip s = rev (dropWhile is_space (rev (dropWhile is_space s)))"

lemma dropWhile_rev_dropWhile:
  "dropWhile P (rev (dropWhile P (rev (dropWhile P s)))) = rev (dropWhile P (rev (dropWhile P s)))"
proof (cases "dropWhile P s")
  case Nil
  show ?thesis unfolding Nil by simp
next
  case (Cons c cs)
  then have c: "\<not> P c" by (metis hd_dropWhile list.distinct(1) list.sel(1))
  have "\<exists>ds. rev (dropWhile P (rev (c # cs))) = c # ds"
  proof (cases "\<forall>x \<in> set cs. P x")
    case True
    then have "dropWhile P (rev cs) = []" by (simp add: dropWhile_eq_Nil_conv)
    then show ?thesis using c True by (simp add: dropWhile_append)
  next
    case False
    then have "rev (dropWhile P (rev (c # cs))) = c # rev (dropWhile P (rev cs))"
      by (auto simp: dropWhile_append)
    then show ?thesis by blast
  qed
  then obtain ds where "rev (dropWhile P (rev (c # cs))) = c # ds" ..
  then show ?thesis using c Cons by simp
qed

lemma strip_idem [simp]: "strip (strip s) = strip s"
  unfolding strip_def by (simp add: dropWhile_rev_dropWhile)

text \<open>What \<open>strip\<close> returns neither starts nor ends with a blank.\<close>

definition stripped :: "string \<Rightarrow> bool" where
  "stripped s \<longleftrightarrow> s = [] \<or> \<not> is_space (hd s) \<and> \<not> is_space (last s)"

lemma stripped_strip [simp]: "stripped (strip s)"
proof (cases "strip s = []")
  case False
  let ?t = "dropWhile is_space (rev (dropWhile is_space s))"
  have ne: "?t \<noteq> []" using False by (simp add: strip_def)
  have "\<not> is_space (last (strip s))"
    using hd_dropWhile [OF ne] ne by (simp add: strip_def last_rev)
  moreover have "\<not> is_space (hd (strip s))"
    using hd_dropWhile [of is_space "strip s"] dropWhile_rev_dropWhile [of is_space s] False
    by (metis strip_def)
  ultimately show ?thesis by (simp add: stripped_def)
qed (simp add: stripped_def)

lemma strip_stripped: "stripped s \<Longrightarrow> strip s = s"
proof (cases "s = []")
  case False
  assume "stripped s"
  with False have "\<not> is_space (hd s)" "\<not> is_space (hd (rev s))" by (simp_all add: stripped_def hd_rev)
  then have "dropWhile is_space s = s" "dropWhile is_space (rev s) = rev s"
    using False by (metis dropWhile.simps(2) list.collapse, metis dropWhile.simps(2) list.collapse Nil_is_rev_conv)
  then show ?thesis by (simp add: strip_def)
qed (simp add: strip_def)

section \<open>Splitting\<close>

text \<open>\<open>s.split(c)\<close> for a one-character separator.\<close>

fun split_on :: "char \<Rightarrow> string \<Rightarrow> string list" where
  "split_on c [] = [[]]"
| "split_on c (x # xs) =
     (if x = c then [] # split_on c xs
      else case split_on c xs of p # ps \<Rightarrow> (x # p) # ps | [] \<Rightarrow> [[x]])"

fun join_with :: "char \<Rightarrow> string list \<Rightarrow> string" where
  "join_with c [] = []"
| "join_with c [s] = s"
| "join_with c (s # ss) = s @ c # join_with c ss"

lemma split_on_nonempty [simp]: "split_on c s \<noteq> []"
  by (induction s) (auto split: list.split)

lemma join_split [simp]: "join_with c (split_on c s) = s"
proof (induction s)
  case (Cons x xs)
  obtain p ps where ps: "split_on c xs = p # ps" by (cases "split_on c xs") auto
  then show ?case using Cons by (cases ps) auto
qed simp

lemma split_on_plain: "c \<notin> set s \<Longrightarrow> split_on c s = [s]"
  by (induction s) auto

lemma split_on_append: "c \<notin> set s \<Longrightarrow> split_on c (s @ c # t) = s # split_on c t"
  by (induction s) auto

lemma split_join: "ss \<noteq> [] \<Longrightarrow> \<forall>s \<in> set ss. c \<notin> set s \<Longrightarrow> split_on c (join_with c ss) = ss"
  by (induction c ss rule: join_with.induct) (auto simp: split_on_plain split_on_append)

lemma split_on_parts: "p \<in> set (split_on c s) \<Longrightarrow> c \<notin> set p"
proof (induction s arbitrary: p)
  case (Cons x xs)
  obtain q qs where "split_on c xs = q # qs" by (cases "split_on c xs") auto
  then show ?case using Cons by (auto split: if_splits)
qed simp

text \<open>\<open>s.partition(c)\<close>: the text before the first separator, the separator if any, the rest.\<close>

definition partition_on :: "char \<Rightarrow> string \<Rightarrow> string \<times> string \<times> string" where
  "partition_on c s =
     (if c \<in> set s
      then (takeWhile (\<lambda>x. x \<noteq> c) s, [c], tl (dropWhile (\<lambda>x. x \<noteq> c) s))
      else (s, [], []))"

lemma partition_on_first: "c \<notin> set a \<Longrightarrow> partition_on c (a @ c # b) = (a, [c], b)"
  by (auto simp: partition_on_def takeWhile_append dropWhile_append)

lemma partition_on_none: "c \<notin> set s \<Longrightarrow> partition_on c s = (s, [], [])"
  by (simp add: partition_on_def)

lemma partition_on_join: "partition_on c s = (a, m, b) \<Longrightarrow> s = a @ m @ b \<and> c \<notin> set a"
proof (cases "c \<in> set s")
  case True
  assume p: "partition_on c s = (a, m, b)"
  have d: "dropWhile (\<lambda>x. x \<noteq> c) s \<noteq> []" using True by (auto simp: dropWhile_eq_Nil_conv)
  have "hd (dropWhile (\<lambda>x. x \<noteq> c) s) = c" using hd_dropWhile [OF d] by simp
  then have "dropWhile (\<lambda>x. x \<noteq> c) s = c # tl (dropWhile (\<lambda>x. x \<noteq> c) s)" using d by (metis list.collapse)
  moreover have "c \<notin> set (takeWhile (\<lambda>x. x \<noteq> c) s)" by (auto dest: set_takeWhileD)
  ultimately show ?thesis
    using p True takeWhile_dropWhile_id [of "\<lambda>x. x \<noteq> c" s] by (auto simp: partition_on_def)
qed (auto simp: partition_on_def)

section \<open>Decimal numbers\<close>

definition digit :: "nat \<Rightarrow> char" where
  "digit d = char_of (48 + d)"

definition digit_val :: "char \<Rightarrow> nat option" where
  "digit_val c = (let n = of_char c in if 48 \<le> n \<and> n \<le> 57 then Some (n - 48) else None)"

lemma digit_val_digit [simp]: "d < 10 \<Longrightarrow> digit_val (digit d) = Some d"
  by (simp add: digit_val_def digit_def Let_def)

text \<open>\<open>str(n)\<close>\<close>

fun show_nat :: "nat \<Rightarrow> string" where
  "show_nat n = (if n < 10 then [digit n] else show_nat (n div 10) @ [digit (n mod 10)])"

declare show_nat.simps [simp del]

definition show_int :: "int \<Rightarrow> string" where
  "show_int i = (if i < 0 then CHR ''-'' # show_nat (nat (- i)) else show_nat (nat i))"

text \<open>
  \<open>int(s)\<close>: blanks around, a sign, then digits with single underscores between them; \<open>None\<close> is the
  \<open>ValueError\<close>.
\<close>

fun read_digits :: "nat \<Rightarrow> string \<Rightarrow> nat option" where
  "read_digits n [] = Some n"
| "read_digits n (c # cs) =
     (case digit_val c of
        Some d \<Rightarrow> read_digits (10 * n + d) cs
      | None \<Rightarrow>
          (if c = CHR ''_''
           then case cs of
                  [] \<Rightarrow> None
                | c' # cs' \<Rightarrow> (case digit_val c' of None \<Rightarrow> None | Some d \<Rightarrow> read_digits (10 * n + d) cs')
           else None))"

definition read_nat :: "string \<Rightarrow> nat option" where
  "read_nat s = (case s of [] \<Rightarrow> None | c # cs \<Rightarrow>
     (case digit_val c of None \<Rightarrow> None | Some d \<Rightarrow> read_digits d cs))"

definition py_int :: "string \<Rightarrow> int option" where
  "py_int s =
     (case strip s of
        [] \<Rightarrow> None
      | c # cs \<Rightarrow>
          (if c = CHR ''-'' then map_option (\<lambda>n. - int n) (read_nat cs)
           else if c = CHR ''+'' then map_option int (read_nat cs)
           else map_option int (read_nat (c # cs))))"

lemma show_nat_digits: "x \<in> set (show_nat n) \<Longrightarrow> \<exists>d < 10. x = digit d"
proof (induction n rule: show_nat.induct)
  case (1 n)
  show ?case
  proof (cases "n < 10")
    case True
    then show ?thesis using 1(2) by (subst (asm) show_nat.simps) auto
  next
    case False
    then have "x \<in> set (show_nat (n div 10)) \<or> x = digit (n mod 10)"
      using 1(2) by (subst (asm) show_nat.simps) auto
    then show ?thesis using 1(1) [OF False] by (metis mod_less_divisor zero_less_numeral)
  qed
qed

lemma show_nat_nonempty [simp]: "show_nat n \<noteq> []"
  by (subst show_nat.simps) simp

lemma read_digits_snoc:
  "d < 10 \<Longrightarrow> (\<forall>x \<in> set s. digit_val x \<noteq> None) \<Longrightarrow>
     read_digits n (s @ [digit d]) = map_option (\<lambda>m. 10 * m + d) (read_digits n s)"
  by (induction s arbitrary: n) auto

lemma read_nat_show_nat [simp]: "read_nat (show_nat n) = Some n"
proof (induction n rule: show_nat.induct)
  case (1 n)
  show ?case
  proof (cases "n < 10")
    case True
    then show ?thesis by (subst show_nat.simps) (simp add: read_nat_def)
  next
    case False
    obtain c cs where s: "show_nat (n div 10) = c # cs" by (cases "show_nat (n div 10)") auto
    have ds: "\<forall>x \<in> set (c # cs). digit_val x \<noteq> None"
      using show_nat_digits [of _ "n div 10"] s by fastforce
    then obtain d where d: "digit_val c = Some d" by auto
    from 1 [OF False] s d have "read_digits d cs = Some (n div 10)" by (simp add: read_nat_def)
    then show ?thesis
      using False s d ds read_digits_snoc [of "n mod 10" cs d]
      by (subst show_nat.simps) (simp add: read_nat_def)
  qed
qed

lemma digit_not_space: "d < 10 \<Longrightarrow> \<not> is_space (digit d)"
  by (auto simp: is_space_def digit_def Let_def)

lemma digit_not_sign: "d < 10 \<Longrightarrow> digit d \<noteq> CHR ''-'' \<and> digit d \<noteq> CHR ''+'' \<and> digit d \<noteq> CHR '':''"
  by (auto simp: digit_def dest!: arg_cong [where f = "of_char :: char \<Rightarrow> nat"])

lemma show_nat_plain: "x \<in> set (show_nat n) \<Longrightarrow> \<not> is_space x \<and> x \<noteq> CHR ''-'' \<and> x \<noteq> CHR ''+'' \<and> x \<noteq> CHR '':''"
  using show_nat_digits digit_not_space digit_not_sign by metis

lemma show_int_plain: "x \<in> set (show_int i) \<Longrightarrow> \<not> is_space x \<and> x \<noteq> CHR '':''"
  using show_nat_plain by (auto simp: show_int_def is_space_def split: if_splits)

lemma show_int_nonempty [simp]: "show_int i \<noteq> []"
  by (simp add: show_int_def)

lemma stripped_show_int [simp]: "stripped (show_int i)"
  using show_int_plain [of "hd (show_int i)" i] show_int_plain [of "last (show_int i)" i]
  by (simp add: stripped_def)

lemma py_int_show_int [simp]: "py_int (show_int i) = Some i"
proof (cases "i < 0")
  case True
  then show ?thesis using strip_stripped [OF stripped_show_int, of i] by (simp add: py_int_def show_int_def)
next
  case False
  obtain c cs where s: "show_nat (nat i) = c # cs" by (cases "show_nat (nat i)") auto
  have "c \<noteq> CHR ''-''" "c \<noteq> CHR ''+''" using show_nat_plain [of c "nat i"] s by auto
  moreover have "strip (show_nat (nat i)) = c # cs"
    using strip_stripped [OF stripped_show_int, of i] False s by (simp add: show_int_def)
  ultimately show ?thesis using False s read_nat_show_nat [of "nat i"] by (simp add: py_int_def show_int_def)
qed

text \<open>\<open>int(x)\<close> of a float: towards zero.\<close>

definition py_trunc :: "real \<Rightarrow> int" where
  "py_trunc x = (if x < 0 then - \<lfloor>- x\<rfloor> else \<lfloor>x\<rfloor>)"

section \<open>Durations\<close>

text \<open>\<open>f"{x:.3f}"\<close> for a nonnegative number: rounded to thousandths, ties to even.\<close>

definition round_half_even :: "real \<Rightarrow> int" where
  "round_half_even x =
     (let f = \<lfloor>x\<rfloor>; r = x - of_int f
      in if r < 1/2 then f else if r > 1/2 then f + 1 else if even f then f else f + 1)"

definition fmt3 :: "real \<Rightarrow> string" where
  "fmt3 x = (let n = nat (round_half_even (x * 1000)); m = n mod 1000
     in show_nat (n div 1000) @ CHR ''.'' # [digit (m div 100), digit (m div 10 mod 10), digit (m mod 10)])"

end
