(* ===== verification/Config.thy ===== *)
theory Config
  imports Text
begin

text \<open>
  \<open>taskrunner/shared/config.py\<close>: the settings and their reading from the environment, a dictionary
  of strings.  The default worker capacity comes from \<open>os.cpu_count()\<close>, which is an argument.  A
  \<open>float\<close> is a real number, so the spellings \<open>inf\<close> and \<open>nan\<close> are reported as \<open>NotReal\<close>.  Paths are
  kept as they are written.
\<close>

section \<open>Settings\<close>

record settings =
  st_scheduler_host :: string
  st_scheduler_grpc_port :: int
  st_api_host :: string
  st_api_port :: int
  st_sqlite_path :: string
  st_heartbeat_interval_seconds :: real
  st_heartbeat_timeout_seconds :: real
  st_lease_seconds :: real
  st_max_queue_depth :: int
  st_worker_capacity :: int
  st_log_level :: string

definition default_worker_capacity :: "int option \<Rightarrow> int" where
  "default_worker_capacity cpus = max 1 ((case cpus of None \<Rightarrow> 2 | Some n \<Rightarrow> if n = 0 then 2 else n) - 1)"

definition default_settings :: "int option \<Rightarrow> settings" where
  "default_settings cpus = \<lparr>
     st_scheduler_host = ''127.0.0.1'',
     st_scheduler_grpc_port = 50051,
     st_api_host = ''127.0.0.1'',
     st_api_port = 8080,
     st_sqlite_path = ''data/taskrunner.db'',
     st_heartbeat_interval_seconds = 2,
     st_heartbeat_timeout_seconds = 10,
     st_lease_seconds = 30,
     st_max_queue_depth = 10000,
     st_worker_capacity = default_worker_capacity cpus,
     st_log_level = ''INFO''\<rparr>"

definition grpc_target :: "settings \<Rightarrow> string" where
  "grpc_target s = st_scheduler_host s @ '':'' @ show_int (st_scheduler_grpc_port s)"

section \<open>Reading numbers\<close>

datatype config_error = ValueError string | NotReal string

definition lower :: "char \<Rightarrow> char" where
  "lower c = (if CHR ''A'' \<le> c \<and> c \<le> CHR ''Z'' then char_of (of_char c + 32 :: nat) else c)"

definition split_sign :: "string \<Rightarrow> bool \<times> string" where
  "split_sign s = (case s of [] \<Rightarrow> (False, []) | c # cs \<Rightarrow>
     if c = CHR ''-'' then (True, cs) else if c = CHR ''+'' then (False, cs) else (False, s))"

text \<open>The digits after the point, and the exponent; both may be missing.\<close>

definition read_fraction :: "string \<Rightarrow> real option" where
  "read_fraction s = (if s = [] then Some 0
     else map_option (\<lambda>n. real n / 10 ^ length (filter (\<lambda>c. digit_val c \<noteq> None) s)) (read_nat s))"

definition read_decimal :: "string \<Rightarrow> real option" where
  "read_decimal s =
     (let (a, dot, b) = partition_on CHR ''.'' s
      in if a = [] \<and> b = [] then None
         else if a = [] then read_fraction b
         else Option.bind (read_nat a) (\<lambda>n. map_option (\<lambda>r. real n + r) (read_fraction b)))"

definition read_exponent :: "string \<Rightarrow> real option" where
  "read_exponent s = (let (neg, ds) = split_sign s
     in map_option (\<lambda>n. if neg then 1 / 10 ^ n else 10 ^ n) (read_nat ds))"

definition read_real :: "string \<Rightarrow> real option" where
  "read_real s =
     (let (m, sep, e) = partition_on CHR ''e'' s
      in if sep = [] then read_decimal m
         else Option.bind (read_decimal m) (\<lambda>x. map_option (\<lambda>p. x * p) (read_exponent e)))"

text \<open>\<open>float(s)\<close>\<close>

definition py_float :: "string \<Rightarrow> config_error + real" where
  "py_float s =
     (let (neg, body) = split_sign (map lower (strip s))
      in if body \<in> {''inf'', ''infinity'', ''nan''} then Inl (NotReal s)
         else case read_real body of
                None \<Rightarrow> Inl (ValueError s)
              | Some x \<Rightarrow> Inr (if neg then - x else x))"

definition int_of_str :: "string \<Rightarrow> config_error + int" where
  "int_of_str s = (case py_int s of None \<Rightarrow> Inl (ValueError s) | Some i \<Rightarrow> Inr i)"

section \<open>Settings from the environment\<close>

definition getenv :: "(string, string) dict \<Rightarrow> string \<Rightarrow> string \<Rightarrow> string" where
  "getenv env k d = (case dict_get env k of None \<Rightarrow> d | Some v \<Rightarrow> v)"

text \<open>\<open>Settings.from_env\<close>; the conversions raise in the order of the keyword arguments.\<close>

definition from_env :: "int option \<Rightarrow> (string, string) dict \<Rightarrow> config_error + settings" where
  "from_env cpus env =
     and_then (int_of_str (getenv env ''TASKRUNNER_SCHEDULER_GRPC_PORT'' (show_int 50051))) (\<lambda>grpc_port.
     and_then (int_of_str (getenv env ''TASKRUNNER_API_PORT'' (show_int 8080))) (\<lambda>api_port.
     and_then (py_float (getenv env ''TASKRUNNER_HEARTBEAT_INTERVAL_SECONDS'' ''2.0'')) (\<lambda>interval.
     and_then (py_float (getenv env ''TASKRUNNER_HEARTBEAT_TIMEOUT_SECONDS'' ''10.0'')) (\<lambda>timeout.
     and_then (py_float (getenv env ''TASKRUNNER_LEASE_SECONDS'' ''30.0'')) (\<lambda>lease.
     and_then (int_of_str (getenv env ''TASKRUNNER_MAX_QUEUE_DEPTH'' (show_int 10000))) (\<lambda>depth.
     and_then (int_of_str (getenv env ''TASKRUNNER_WORKER_CAPACITY''
                 (show_int (default_worker_capacity cpus)))) (\<lambda>capacity.
       Inr \<lparr>st_scheduler_host = getenv env ''TASKRUNNER_SCHEDULER_HOST'' ''127.0.0.1'',
         st_scheduler_grpc_port = grpc_port,
         st_api_host = getenv env ''TASKRUNNER_API_HOST'' ''127.0.0.1'',
         st_api_port = api_port,
         st_sqlite_path = getenv env ''TASKRUNNER_SQLITE_PATH'' ''data/taskrunner.db'',
         st_heartbeat_interval_seconds = interval,
         st_heartbeat_timeout_seconds = timeout,
         st_lease_seconds = lease,
         st_max_queue_depth = depth,
         st_worker_capacity = capacity,
         st_log_level = getenv env ''TASKRUNNER_LOG_LEVEL'' ''INFO''\<rparr>)))))))"

text \<open>The numeric variables, and what it takes for one to be read.\<close>

definition int_vars :: "string list" where
  "int_vars = [''TASKRUNNER_SCHEDULER_GRPC_PORT'', ''TASKRUNNER_API_PORT'',
     ''TASKRUNNER_MAX_QUEUE_DEPTH'', ''TASKRUNNER_WORKER_CAPACITY'']"

definition float_vars :: "string list" where
  "float_vars = [''TASKRUNNER_HEARTBEAT_INTERVAL_SECONDS'', ''TASKRUNNER_HEARTBEAT_TIMEOUT_SECONDS'',
     ''TASKRUNNER_LEASE_SECONDS'']"

lemma int_of_str_show [simp]: "int_of_str (show_int i) = Inr i"
  by (simp add: int_of_str_def)

lemma default_floats: "py_float ''2.0'' = Inr 2" "py_float ''10.0'' = Inr 10" "py_float ''30.0'' = Inr 30"
  by (simp_all add: py_float_def strip_def is_space_def lower_def split_sign_def read_real_def
      read_decimal_def read_fraction_def read_nat_def partition_on_def digit_val_def)

lemma default_capacity_pos: "1 \<le> default_worker_capacity cpus"
  by (simp add: default_worker_capacity_def)

section \<open>What the environment decides\<close>

definition set_ok :: "(string \<Rightarrow> config_error + 'a) \<Rightarrow> (string, string) dict \<Rightarrow> string \<Rightarrow> bool" where
  "set_ok f env k = (case dict_get env k of None \<Rightarrow> True | Some v \<Rightarrow> isl (f v) = False)"

lemma getenv_ok: "\<not> isl (f d) \<Longrightarrow> isl (f (getenv env k d)) = (\<not> set_ok f env k)"
  by (simp add: getenv_def set_ok_def split: option.split)

lemma isl_and_then: "isl (and_then r f) = (isl r \<or> isl (f (projr r)))"
  by (cases r) auto

text \<open>
  \<open>Settings.from_env\<close> on an empty environment gives the defaults.  In general it succeeds exactly
  when every numeric variable that is set holds a number of its kind; unset variables never make it
  fail.
\<close>
theorem from_env_total:
  "from_env cpus [] = Inr (default_settings cpus)
   \<and> isl (from_env cpus env) =
      (list_ex (\<lambda>k. \<not> set_ok int_of_str env k) int_vars \<or> list_ex (\<lambda>k. \<not> set_ok py_float env k) float_vars)"
proof
  show "from_env cpus [] = Inr (default_settings cpus)"
    by (simp add: from_env_def getenv_def default_floats default_settings_def)
  show "isl (from_env cpus env) =
      (list_ex (\<lambda>k. \<not> set_ok int_of_str env k) int_vars \<or> list_ex (\<lambda>k. \<not> set_ok py_float env k) float_vars)"
    by (auto simp: from_env_def isl_and_then getenv_ok default_floats int_vars_def float_vars_def)
qed

end
