(* ===== verification/Envelope.thy ===== *)
theory Envelope
  imports Config Models
begin

text \<open>
  \<open>TaskEnvelope.from_dict\<close>: rebuilding an envelope from the dictionary that \<open>to_dict\<close> makes of it, with
  Python's conversions of whatever values the dictionary holds.

  \<open>NotRepresented\<close> marks dictionaries that Python accepts but that lead to objects the records cannot
  hold, such as a target that is no text.
\<close>

section \<open>Conversions\<close>

datatype dict_error = MissingKey string | WrongType | WrongValue | NotRepresented

definition to_float :: "pyval \<Rightarrow> dict_error + real" where
  "to_float v =
     (case v of
        PFloat x \<Rightarrow> Inr x
      | PInt i \<Rightarrow> Inr (of_int i)
      | PBool b \<Rightarrow> Inr (if b then 1 else 0)
      | PStr s \<Rightarrow> (case py_float s of Inr x \<Rightarrow> Inr x | Inl (NotReal _) \<Rightarrow> Inl NotRepresented | Inl (ValueError _) \<Rightarrow> Inl WrongValue)
      | _ \<Rightarrow> Inl WrongType)"

definition to_int :: "pyval \<Rightarrow> dict_error + int" where
  "to_int v =
     (case v of
        PInt i \<Rightarrow> Inr i
      | PFloat x \<Rightarrow> Inr (py_trunc x)
      | PBool b \<Rightarrow> Inr (if b then 1 else 0)
      | PStr s \<Rightarrow> (case py_int s of None \<Rightarrow> Inl WrongValue | Some i \<Rightarrow> Inr i)
      | _ \<Rightarrow> Inl WrongType)"

fun strings_of :: "pyval list \<Rightarrow> dict_error + string set" where
  "strings_of [] = Inr {}"
| "strings_of (v # vs) =
     (case v of
        PStr s \<Rightarrow> and_then (strings_of vs) (\<lambda>A. Inr (insert s A))
      | PList _ \<Rightarrow> Inl WrongType
      | PDict _ \<Rightarrow> Inl WrongType
      | _ \<Rightarrow> Inl NotRepresented)"

definition to_set :: "pyval \<Rightarrow> dict_error + string set" where
  "to_set v =
     (case v of
        PList vs \<Rightarrow> strings_of vs
      | PStr s \<Rightarrow> Inr (set (map (\<lambda>c. [c]) s))
      | PDict d \<Rightarrow> Inr (set (map fst d))
      | _ \<Rightarrow> Inl WrongType)"

definition to_opt_text :: "pyval \<Rightarrow> dict_error + string option" where
  "to_opt_text v = (case v of PNone \<Rightarrow> Inr None | PStr s \<Rightarrow> Inr (Some s) | _ \<Rightarrow> Inl NotRepresented)"

definition to_text :: "pyval \<Rightarrow> dict_error + string" where
  "to_text v = (case v of PStr s \<Rightarrow> Inr s | _ \<Rightarrow> Inl NotRepresented)"

definition to_dict_value :: "pyval \<Rightarrow> dict_error + (string, pyval) dict" where
  "to_dict_value v =
     (case v of
        PDict d \<Rightarrow> Inr d
      | PStr s \<Rightarrow> (if s = [] then Inr [] else Inl WrongValue)
      | PList vs \<Rightarrow> (if vs = [] then Inr [] else Inl NotRepresented)
      | _ \<Rightarrow> Inl WrongType)"

text \<open>Truth of a value, for \<open>self.queue or "default"\<close>.\<close>

fun py_true :: "pyval \<Rightarrow> bool" where
  "py_true PNone = False"
| "py_true (PBool b) = b"
| "py_true (PInt i) = (i \<noteq> 0)"
| "py_true (PFloat x) = (x \<noteq> 0)"
| "py_true (PStr s) = (s \<noteq> [])"
| "py_true (PList vs) = (vs \<noteq> [])"
| "py_true (PDict d) = (d \<noteq> [])"

definition enum_of :: "(string \<Rightarrow> 'a option) \<Rightarrow> pyval \<Rightarrow> dict_error + 'a" where
  "enum_of f v = (case v of PStr s \<Rightarrow> (case f s of None \<Rightarrow> Inl WrongValue | Some x \<Rightarrow> Inr x) | _ \<Rightarrow> Inl WrongValue)"

definition key_of :: "string \<Rightarrow> (string, pyval) dict \<Rightarrow> dict_error + pyval" where
  "key_of k d = (case dict_get d k of None \<Rightarrow> Inl (MissingKey k) | Some v \<Rightarrow> Inr v)"

definition get_or :: "(string, pyval) dict \<Rightarrow> string \<Rightarrow> pyval \<Rightarrow> pyval" where
  "get_or d k v = (case dict_get d k of None \<Rightarrow> v | Some x \<Rightarrow> x)"

section \<open>Specifications\<close>

definition spec_fields :: "string list" where
  "spec_fields = [''target'', ''payload'', ''kind'', ''queue'', ''priority'', ''delay_seconds'', ''max_retries'',
     ''retry_backoff_seconds'', ''timeout_seconds'', ''affinity'', ''depends_on'', ''batch_key'']"

text \<open>
  \<open>TaskSpec(**spec_data).normalized()\<close> with the three converted entries of \<open>spec_data\<close>: the constructor
  wants a target and no unknown keyword, and only \<open>normalized\<close> looks at the values.
\<close>

definition spec_of_dict :: "(string, pyval) dict \<Rightarrow> task_kind \<Rightarrow> string set \<Rightarrow> string set \<Rightarrow> dict_error + task_spec" where
  "spec_of_dict d kind affinity depends_on =
     (if \<not> list_all (\<lambda>(k, v). k \<in> set spec_fields) d \<or> dict_get d ''target'' = None then Inl WrongType else
     and_then (to_text (get_or d ''target'' PNone)) (\<lambda>target.
     and_then (case get_or d ''payload'' (PDict []) of PDict p \<Rightarrow> Inr p | _ \<Rightarrow> Inl NotRepresented) (\<lambda>payload.
     and_then (let q = get_or d ''queue'' (PStr ''default'') in if py_true q then to_text q else Inr ''default'') (\<lambda>queue.
     and_then (to_int (get_or d ''priority'' (PInt 100))) (\<lambda>priority.
     and_then (to_float (get_or d ''delay_seconds'' (PFloat 0))) (\<lambda>delay_seconds.
     and_then (to_int (get_or d ''max_retries'' (PInt 3))) (\<lambda>max_retries.
     and_then (to_float (get_or d ''retry_backoff_seconds'' (PFloat (3/2)))) (\<lambda>retry_backoff.
     and_then (to_float (get_or d ''timeout_seconds'' (PFloat 60))) (\<lambda>timeout.
     and_then (to_opt_text (get_or d ''batch_key'' PNone)) (\<lambda>batch_key.
       Inr (normalized \<lparr>ts_target = target, ts_payload = payload, ts_kind = kind, ts_queue = queue,
         ts_priority = priority, ts_delay_seconds = delay_seconds, ts_max_retries = max_retries,
         ts_retry_backoff_seconds = retry_backoff, ts_timeout_seconds = timeout, ts_affinity = affinity,
         ts_depends_on = depends_on, ts_batch_key = batch_key\<rparr>)))))))))))"

section \<open>Envelopes\<close>

definition envelope_from_dict :: "clock \<Rightarrow> (string, pyval) dict \<Rightarrow> dict_error + task_envelope" where
  "envelope_from_dict clk data =
     and_then (and_then (key_of ''spec'' data) to_dict_value) (\<lambda>d.
     and_then (enum_of task_kind_of (get_or d ''kind'' (PStr (kind_str IO)))) (\<lambda>kind.
     and_then (to_set (get_or d ''affinity'' (PList []))) (\<lambda>affinity.
     and_then (to_set (get_or d ''depends_on'' (PList []))) (\<lambda>depends_on.
     and_then (spec_of_dict d kind affinity depends_on) (\<lambda>spec.
     and_then (and_then (key_of ''task_id'' data) to_text) (\<lambda>task_id.
     and_then (to_float (get_or data ''created_at'' (PFloat (clk 0)))) (\<lambda>created_at.
     and_then (to_float (get_or data ''available_at'' (PFloat (clk 1)))) (\<lambda>available_at.
     and_then (to_int (get_or data ''attempts'' (PInt 0))) (\<lambda>attempts.
     and_then (enum_of task_status_of (get_or data ''status'' (PStr (status_str PENDING)))) (\<lambda>status.
     and_then (to_opt_text (get_or data ''last_error'' PNone)) (\<lambda>last_error.
     and_then (to_opt_text (get_or data ''assigned_worker'' PNone)) (\<lambda>assigned_worker.
     and_then (case get_or data ''lease_deadline'' PNone of PNone \<Rightarrow> Inr None | PFloat x \<Rightarrow> Inr (Some x)
               | _ \<Rightarrow> Inl NotRepresented) (\<lambda>lease_deadline.
       Inr \<lparr>te_spec = spec, te_task_id = task_id, te_created_at = created_at, te_available_at = available_at,
         te_attempts = attempts, te_status = status, te_last_error = last_error,
         te_assigned_worker = assigned_worker, te_lease_deadline = lease_deadline\<rparr>)))))))))))))"

section \<open>There and back\<close>

lemma strings_of_map [simp]: "strings_of (map PStr ss) = Inr (set ss)"
  by (induction ss) simp_all

lemma to_set_sorted [simp]: "finite A \<Longrightarrow> to_set (sorted_strs A) = Inr A"
  by (simp add: to_set_def sorted_strs_def)

lemma to_opt_text_opt_str [simp]: "to_opt_text (opt_str x) = Inr x"
  by (cases x) (simp_all add: to_opt_text_def opt_str_def)

lemma conversions [simp]:
  "to_float (PFloat x) = Inr x" "to_int (PInt i) = Inr i" "to_text (PStr s) = Inr s"
  "to_dict_value (PDict d) = Inr d"
  "enum_of task_kind_of (PStr (kind_str k)) = Inr k" "enum_of task_status_of (PStr (status_str st)) = Inr st"
  "(case opt_float y of PNone \<Rightarrow> Inr None | PFloat x \<Rightarrow> Inr (Some x) | _ \<Rightarrow> Inl NotRepresented) = Inr y"
  by (simp_all add: to_float_def to_int_def to_text_def to_dict_value_def enum_of_def opt_float_def
      split: option.splits)

lemma spec_of_dict_spec_to_dict:
  "spec_of_dict (spec_to_dict s) (ts_kind s) (ts_affinity s) (ts_depends_on s) = Inr (normalized s)"
  by (simp add: spec_of_dict_def spec_to_dict_def spec_fields_def get_or_def Let_def) (auto simp: normalized_def)

lemma spec_dict_entries:
  "get_or (spec_to_dict s) ''kind'' v = PStr (kind_str (ts_kind s))"
  "get_or (spec_to_dict s) ''affinity'' v = sorted_strs (ts_affinity s)"
  "get_or (spec_to_dict s) ''depends_on'' v = sorted_strs (ts_depends_on s)"
  by (simp_all add: get_or_def spec_to_dict_def)

lemma envelope_dict_entries:
  "key_of ''spec'' (envelope_to_dict t) = Inr (PDict (spec_to_dict (te_spec t)))"
  "key_of ''task_id'' (envelope_to_dict t) = Inr (PStr (te_task_id t))"
  "get_or (envelope_to_dict t) ''created_at'' v = PFloat (te_created_at t)"
  "get_or (envelope_to_dict t) ''available_at'' v = PFloat (te_available_at t)"
  "get_or (envelope_to_dict t) ''attempts'' v = PInt (te_attempts t)"
  "get_or (envelope_to_dict t) ''status'' v = PStr (status_str (te_status t))"
  "get_or (envelope_to_dict t) ''last_error'' v = opt_str (te_last_error t)"
  "get_or (envelope_to_dict t) ''assigned_worker'' v = opt_str (te_assigned_worker t)"
  "get_or (envelope_to_dict t) ''lease_deadline'' v = opt_float (te_lease_deadline t)"
  by (simp_all add: get_or_def key_of_def envelope_to_dict_def)

text \<open>
  C33. \<open>from_dict\<close> takes back every envelope that \<open>to_dict\<close> writes: all fields return as they were, the
  lease included, and the specification in its normalised form; the envelopes of the program, whose
  specifications are normalised, return unchanged.  The clock is not consulted.
\<close>
theorem envelope_dict_roundtrip:
  assumes "finite (ts_affinity (te_spec t))" and "finite (ts_depends_on (te_spec t))"
  shows "envelope_from_dict clk (envelope_to_dict t) = Inr (t\<lparr>te_spec := normalized (te_spec t)\<rparr>)
    \<and> (spec_ok (te_spec t) \<longrightarrow> envelope_from_dict clk (envelope_to_dict t) = Inr t)"
proof -
  have "envelope_from_dict clk (envelope_to_dict t) = Inr (t\<lparr>te_spec := normalized (te_spec t)\<rparr>)"
    using assms by (simp add: envelope_from_dict_def envelope_dict_entries spec_dict_entries spec_of_dict_spec_to_dict)
  then show ?thesis by (simp add: normalized_id)
qed

theorem envelope_dict_roundtrip_witness:
  "envelope_from_dict (\<lambda>_. 5) (envelope_to_dict ((new_envelope ''x'' (\<lambda>_. 3) ((default_spec ''m:f'')\<lparr>ts_priority := - 1\<rparr>))\<lparr>te_lease_deadline := Some 7\<rparr>))
   = Inr ((new_envelope ''x'' (\<lambda>_. 3) ((default_spec ''m:f'')\<lparr>ts_priority := 0\<rparr>))\<lparr>te_lease_deadline := Some 7\<rparr>)"
  by (subst envelope_dict_roundtrip [THEN conjunct1])
    (simp_all add: new_envelope_def default_spec_def normalized_def)

end
