(* ===== verification/Json.thy ===== *)
theory Json
  imports Models Text
begin

text \<open>
  \<open>json.dumps(value, default=str)\<close> and \<open>json.loads\<close> of the standard library, as far as the program's
  values reach, and their round trip.

  The writer is that of the default settings: ASCII output, \<open>", "\<close> and \<open>": "\<close> as separators.  A float
  is a real number here; it is written with as many decimals as it has (1100 at most, a double has no
  more than 1074), where Python picks the shortest text of the same double.  The reader reports
  \<open>NotModelled\<close> for what a \<open>pyval\<close> cannot hold: \<open>NaN\<close>, \<open>Infinity\<close> and characters beyond 255.
\<close>

section \<open>Characters\<close>

abbreviation dquote :: char where "dquote \<equiv> CHR 0x22"
abbreviation backslash :: char where "backslash \<equiv> CHR 0x5C"

definition hexdig :: "nat \<Rightarrow> char" where
  "hexdig d = (if d < 10 then char_of (48 + d) else char_of (87 + d))"

definition hexval :: "char \<Rightarrow> nat option" where
  "hexval c = (let n = of_char c in
     if 48 \<le> n \<and> n \<le> 57 then Some (n - 48)
     else if 97 \<le> n \<and> n \<le> 102 then Some (n - 87)
     else if 65 \<le> n \<and> n \<le> 70 then Some (n - 55) else None)"

lemma hexval_hexdig [simp]: "d < 16 \<Longrightarrow> hexval (hexdig d) = Some d"
  by (auto simp: hexval_def hexdig_def Let_def)

text \<open>\<open>json.encoder.ESCAPE_DCT\<close> and its inverse.\<close>

definition short_escapes :: "(char \<times> char) list" where
  "short_escapes = [(dquote, dquote), (backslash, backslash), (CHR 0x0A, CHR ''n''), (CHR 0x0D, CHR ''r''),
     (CHR 0x09, CHR ''t''), (CHR 0x0C, CHR ''f''), (CHR 0x08, CHR ''b'')]"

definition esc :: "char \<Rightarrow> string" where
  "esc c = (case map_of short_escapes c of
      Some e \<Rightarrow> [backslash, e]
    | None \<Rightarrow>
        (let n = of_char c :: nat in
         if 32 \<le> n \<and> n \<le> 126 then [c]
         else [backslash, CHR ''u'', CHR ''0'', CHR ''0'', hexdig (n div 16), hexdig (n mod 16)]))"

definition unescape :: "char \<Rightarrow> char option" where
  "unescape e = map_of ((CHR ''/'', CHR ''/'') # map (\<lambda>(a, b). (b, a)) short_escapes) e"

definition quoted :: "string \<Rightarrow> string" where
  "quoted s = dquote # concat (map esc s) @ [dquote]"

section \<open>Floats\<close>

fun frac_digits :: "nat \<Rightarrow> real \<Rightarrow> string" where
  "frac_digits 0 x = []"
| "frac_digits (Suc k) x =
     (let d = \<lfloor>10 * x\<rfloor>; r = 10 * x - of_int d
      in digit (nat d) # (if r = 0 then [] else frac_digits k r))"

fun frac_ends :: "nat \<Rightarrow> real \<Rightarrow> bool" where
  "frac_ends 0 x = False"
| "frac_ends (Suc k) x = (let r = 10 * x - of_int \<lfloor>10 * x\<rfloor> in r = 0 \<or> frac_ends k r)"

definition max_decimals :: nat where
  "max_decimals = 1100"

definition show_nonneg :: "real \<Rightarrow> string" where
  "show_nonneg x = show_nat (nat \<lfloor>x\<rfloor>) @ CHR ''.'' # frac_digits max_decimals (x - of_int \<lfloor>x\<rfloor>)"

definition show_real :: "real \<Rightarrow> string" where
  "show_real x = (if x < 0 then CHR ''-'' # show_nonneg (- x) else show_nonneg x)"

text \<open>The reals with at most \<open>max_decimals\<close> decimals, which every double is.\<close>

definition float_ok :: "real \<Rightarrow> bool" where
  "float_ok x \<longleftrightarrow> frac_ends max_decimals (\<bar>x\<bar> - of_int \<lfloor>\<bar>x\<bar>\<rfloor>)"

definition frac_val :: "string \<Rightarrow> real" where
  "frac_val ds = foldr (\<lambda>c acc. (real (the (digit_val c)) + acc) / 10) ds 0"

lemma frac_val_digits:
  "0 \<le> x \<Longrightarrow> x < 1 \<Longrightarrow> frac_ends k x \<Longrightarrow> frac_val (frac_digits k x) = x"
proof (induction k arbitrary: x)
  case (Suc k)
  let ?d = "\<lfloor>10 * x\<rfloor>" let ?r = "10 * x - of_int ?d"
  have d: "0 \<le> ?d" "?d < 10" using Suc.prems by (simp_all add: floor_less_iff)
  then have "nat ?d < 10" by linarith
  then have dv: "digit_val (digit (nat ?d)) = Some (nat ?d)" by simp
  have r: "0 \<le> ?r" "?r < 1" by linarith+
  show ?case
  proof (cases "?r = 0")
    case True
    then show ?thesis using d dv by (simp add: frac_val_def Let_def)
  next
    case False
    then have "frac_val (frac_digits k ?r) = ?r" using Suc.IH [OF r] Suc.prems(3) by (simp add: Let_def)
    then show ?thesis using False d dv by (simp add: frac_val_def Let_def)
  qed
qed simp

lemma frac_digits_digit: "0 \<le> x \<Longrightarrow> x < 1 \<Longrightarrow> c \<in> set (frac_digits k x) \<Longrightarrow> digit_val c \<noteq> None"
proof (induction k arbitrary: x)
  case (Suc k)
  let ?d = "\<lfloor>10 * x\<rfloor>" let ?r = "10 * x - of_int ?d"
  have "?d < 10" using Suc.prems(2) by (simp add: floor_less_iff)
  then have "nat ?d < 10" by linarith
  moreover have "0 \<le> ?r" "?r < 1" by linarith+
  ultimately show ?case
    using Suc.IH [of ?r] Suc.prems(3) by (auto simp: Let_def split: if_splits)
qed simp

lemma frac_ends_decimal: "x * 10 ^ k = of_int n \<Longrightarrow> k \<le> m \<Longrightarrow> 0 < m \<Longrightarrow> frac_ends m x"
proof (induction k arbitrary: x n m)
  case 0
  then obtain m' where "m = Suc m'" by (cases m) auto
  with 0 show ?case by (simp add: Let_def)
next
  case (Suc k)
  then obtain m' where m: "m = Suc m'" by (cases m) auto
  let ?r = "10 * x - of_int \<lfloor>10 * x\<rfloor>"
  have "10 * x * 10 ^ k = of_int n" using Suc.prems(1) by (simp add: mult_ac)
  then have "?r * 10 ^ k = of_int (n - \<lfloor>10 * x\<rfloor> * 10 ^ k)" by (simp add: left_diff_distrib)
  from Suc.IH [OF this, of m'] Suc.prems(2) m show ?case
    by (cases "m' = 0") (auto simp: Let_def, (use \<open>10 * x * 10 ^ k = of_int n\<close> in simp)?)
qed

section \<open>Writing\<close>

definition sep_by :: "string \<Rightarrow> string list \<Rightarrow> string" where
  "sep_by sep ss = (case ss of [] \<Rightarrow> [] | s # ss \<Rightarrow> s @ concat (map (\<lambda>t. sep @ t) ss))"

fun dumps :: "pyval \<Rightarrow> string" where
  "dumps PNone = ''null''"
| "dumps (PBool b) = (if b then ''true'' else ''false'')"
| "dumps (PInt i) = show_int i"
| "dumps (PFloat x) = show_real x"
| "dumps (PStr s) = quoted s"
| "dumps (PList vs) = ''['' @ sep_by '', '' (map dumps vs) @ '']''"
| "dumps (PDict kvs) = ''{'' @ sep_by '', '' (map (\<lambda>(k, v). quoted k @ '': '' @ dumps v) kvs) @ ''}''"

section \<open>Reading\<close>

text \<open>
  \<open>IntTooLong\<close> is the \<open>ValueError\<close> of \<open>int\<close> for a text of more than 4300 digits; it is no \<open>JSONDecodeError\<close>.
  Arrays and objects may be nested in each other \<open>max_nesting\<close> times, which every version of Python can
  read; whether a deeper text is read or raises a \<open>RecursionError\<close> depends on the version and on the stack
  of the call, so it is \<open>NotModelled\<close>.
\<close>

datatype json_error = JSONDecodeError | IntTooLong | NotModelled | OutOfFuel

definition max_int_digits :: nat where
  "max_int_digits = 4300"

definition max_nesting :: nat where
  "max_nesting = 500"

type_synonym 'a reader = "string \<Rightarrow> json_error + ('a \<times> string)"

definition is_json_space :: "char \<Rightarrow> bool" where
  "is_json_space c \<longleftrightarrow> c \<in> {CHR '' '', CHR 0x09, CHR 0x0A, CHR 0x0D}"

definition skip :: "string \<Rightarrow> string" where
  "skip s = dropWhile is_json_space s"

definition prepend :: "char \<Rightarrow> json_error + (string \<times> string) \<Rightarrow> json_error + (string \<times> string)" where
  "prepend c r = and_then r (\<lambda>(s, t). Inr (c # s, t))"

text \<open>The body of a string, after its opening quote; control characters are not allowed in it.\<close>

fun read_str :: "string reader" where
  "read_str [] = Inl JSONDecodeError"
| "read_str (c # cs) =
     (if c = dquote then Inr ([], cs)
      else if c = backslash then
        (case cs of
           [] \<Rightarrow> Inl JSONDecodeError
         | e # r \<Rightarrow>
             (if e = CHR ''u'' then
                (case r of
                   h1 # h2 # h3 # h4 # r' \<Rightarrow>
                     (case (hexval h1, hexval h2, hexval h3, hexval h4) of
                        (Some a, Some b, Some c, Some d) \<Rightarrow>
                          (if a = 0 \<and> b = 0 then prepend (char_of (16 * c + d)) (read_str r') else Inl NotModelled)
                      | _ \<Rightarrow> Inl JSONDecodeError)
                 | _ \<Rightarrow> Inl JSONDecodeError)
              else case unescape e of None \<Rightarrow> Inl JSONDecodeError | Some x \<Rightarrow> prepend x (read_str r)))
      else if (of_char c :: nat) < 32 then Inl JSONDecodeError
      else prepend c (read_str cs))"

text \<open>A number: \<open>-?(0|[1-9][0-9]*)(.[0-9]+)?([eE][-+]?[0-9]+)?\<close>, the longest match.\<close>

definition is_digit :: "char \<Rightarrow> bool" where
  "is_digit c \<longleftrightarrow> digit_val c \<noteq> None"

definition digits :: "string \<Rightarrow> string \<times> string" where
  "digits s = (takeWhile is_digit s, dropWhile is_digit s)"

definition nat_val :: "string \<Rightarrow> nat" where
  "nat_val ds = foldl (\<lambda>n c. 10 * n + the (digit_val c)) 0 ds"

definition read_int_part :: "string \<Rightarrow> (nat \<times> string) option" where
  "read_int_part s =
     (case s of
        [] \<Rightarrow> None
      | c # cs \<Rightarrow>
          (if c = CHR ''0'' then Some (0, cs)
           else if is_digit c then (let (ds, r) = digits s in Some (nat_val ds, r)) else None))"

definition read_frac_part :: "string \<Rightarrow> (real \<times> string) option" where
  "read_frac_part s =
     (case s of
        [] \<Rightarrow> None
      | c # cs \<Rightarrow> (if c = CHR ''.''
                   then (let (ds, r) = digits cs in if ds = [] then None else Some (frac_val ds, r)) else None))"

definition read_exp_part :: "string \<Rightarrow> (real \<times> string) option" where
  "read_exp_part s =
     (case s of
        [] \<Rightarrow> None
      | c # cs \<Rightarrow>
          (if c = CHR ''e'' \<or> c = CHR ''E''
           then (let (neg, body) = (case cs of [] \<Rightarrow> (False, []) | x # xs \<Rightarrow>
                       if x = CHR ''-'' then (True, xs) else if x = CHR ''+'' then (False, xs) else (False, cs));
                     (ds, r) = digits body
                 in if ds = [] then None else Some (if neg then 1 / 10 ^ nat_val ds else 10 ^ nat_val ds, r))
           else None))"

definition read_unsigned :: "bool \<Rightarrow> pyval reader" where
  "read_unsigned neg s =
     (case read_int_part s of
        None \<Rightarrow> (if (neg \<or> take 8 s = ''Infinity'') \<and> take 8 s = ''Infinity'' \<or> \<not> neg \<and> take 3 s = ''NaN''
                 then Inl NotModelled else Inl JSONDecodeError)
      | Some (n, r) \<Rightarrow>
          (case (read_frac_part r, read_exp_part (case read_frac_part r of None \<Rightarrow> r | Some (f, r') \<Rightarrow> r')) of
             (None, None) \<Rightarrow> (if max_int_digits < length s - length r then Inl IntTooLong
                              else Inr (PInt (if neg then - int n else int n), r))
           | (Some (f, r'), None) \<Rightarrow> Inr (PFloat (if neg then - (real n + f) else real n + f), r')
           | (None, Some (p, r')) \<Rightarrow> Inr (PFloat (if neg then - (real n * p) else real n * p), r')
           | (Some (f, _), Some (p, r')) \<Rightarrow>
               Inr (PFloat (if neg then - ((real n + f) * p) else (real n + f) * p), r')))"

definition read_number :: "pyval reader" where
  "read_number s = (case s of c # cs \<Rightarrow> if c = CHR ''-'' then read_unsigned True cs else read_unsigned False s
                    | [] \<Rightarrow> Inl JSONDecodeError)"

text \<open>
  Values, the elements of an array and the members of an object, which may nest \<open>d\<close> times.  Each call takes
  one unit of fuel;
  \<open>loads\<close> starts with twice the length of the text, which is always enough (\<open>read_value_fuel\<close>).  A
  repeated key of an object overwrites the earlier value.
\<close>

fun read_value :: "nat \<Rightarrow> nat \<Rightarrow> pyval reader"
and read_elements :: "nat \<Rightarrow> nat \<Rightarrow> pyval list \<Rightarrow> pyval reader"
and read_members :: "nat \<Rightarrow> nat \<Rightarrow> (string, pyval) dict \<Rightarrow> pyval reader" where
  "read_value d 0 s = Inl OutOfFuel"
| "read_value d (Suc k) s =
     (case s of
        [] \<Rightarrow> Inl JSONDecodeError
      | c # cs \<Rightarrow>
          (if c = dquote then and_then (read_str cs) (\<lambda>(x, r). Inr (PStr x, r))
           else if c \<in> {CHR ''['', CHR ''{''} \<and> d = 0 then Inl NotModelled
           else if c = CHR ''['' then
             (case skip cs of x # r \<Rightarrow> if x = CHR '']'' then Inr (PList [], r) else read_elements (d - 1) k [] (x # r)
              | [] \<Rightarrow> Inl JSONDecodeError)
           else if c = CHR ''{'' then
             (case skip cs of x # r \<Rightarrow> if x = CHR ''}'' then Inr (PDict [], r) else read_members (d - 1) k [] (x # r)
              | [] \<Rightarrow> Inl JSONDecodeError)
           else if take 4 s = ''null'' then Inr (PNone, drop 4 s)
           else if take 4 s = ''true'' then Inr (PBool True, drop 4 s)
           else if take 5 s = ''false'' then Inr (PBool False, drop 5 s)
           else read_number s))"
| "read_elements d 0 acc s = Inl OutOfFuel"
| "read_elements d (Suc k) acc s =
     and_then (read_value d k s) (\<lambda>(v, r).
       case skip r of
         [] \<Rightarrow> Inl JSONDecodeError
       | x # r' \<Rightarrow>
           (if x = CHR '','' then read_elements d k (acc @ [v]) (skip r')
            else if x = CHR '']'' then Inr (PList (acc @ [v]), r') else Inl JSONDecodeError))"
| "read_members d 0 acc s = Inl OutOfFuel"
| "read_members d (Suc k) acc s =
     (case s of
        [] \<Rightarrow> Inl JSONDecodeError
      | c # cs \<Rightarrow>
          (if c \<noteq> dquote then Inl JSONDecodeError
           else and_then (read_str cs) (\<lambda>(key, r).
             case skip r of
               [] \<Rightarrow> Inl JSONDecodeError
             | x # r1 \<Rightarrow>
                 (if x \<noteq> CHR '':'' then Inl JSONDecodeError
                  else and_then (read_value d k (skip r1)) (\<lambda>(v, r2).
                    case skip r2 of
                      [] \<Rightarrow> Inl JSONDecodeError
                    | y # r3 \<Rightarrow>
                        (if y = CHR '','' then read_members d k (dict_set key v acc) (skip r3)
                         else if y = CHR ''}'' then Inr (PDict (dict_set key v acc), r3)
                         else Inl JSONDecodeError))))))"

definition loads :: "string \<Rightarrow> json_error + pyval" where
  "loads s = and_then (read_value max_nesting (2 * length s + 2) (skip s)) (\<lambda>(v, r).
     if skip r = [] then Inr v else Inl JSONDecodeError)"

end
