(* ===== verification/Json_Roundtrip.thy ===== *)
theory Json_Roundtrip
  imports Json
begin

text \<open>
  \<open>loads (dumps v) = Inr v\<close> for every value whose dictionaries have distinct keys and whose floats are
  finite decimals, and \<open>loads\<close> never runs out of fuel.
\<close>

section \<open>Strings\<close>

lemma esc_cases:
  obtains (short) e where "map_of short_escapes c = Some e" "esc c = [backslash, e]" "unescape e = Some c" "e \<noteq> CHR ''u''"
  | (plain) "esc c = [c]" "c \<noteq> dquote" "c \<noteq> backslash" "32 \<le> (of_char c :: nat)"
  | (unicode) "esc c = [backslash, CHR ''u'', CHR ''0'', CHR ''0'', hexdig (of_char c div 16), hexdig (of_char c mod 16)]"
proof (cases "map_of short_escapes c")
  case None
  then have c: "c \<noteq> dquote" "c \<noteq> backslash" by (auto simp: short_escapes_def split: if_splits)
  show ?thesis
  proof (cases "32 \<le> (of_char c :: nat) \<and> (of_char c :: nat) \<le> 126")
    case True
    then have "esc c = [c]" using None by (simp add: esc_def Let_def)
    then show ?thesis using plain c True by blast
  next
    case False
    then have "esc c = [backslash, CHR ''u'', CHR ''0'', CHR ''0'', hexdig (of_char c div 16), hexdig (of_char c mod 16)]"
      using None by (simp add: esc_def Let_def)
    then show ?thesis by (rule unicode)
  qed
next
  case (Some e)
  then have "unescape e = Some c \<and> e \<noteq> CHR ''u''"
    by (auto simp: short_escapes_def unescape_def split: if_splits)
  then show ?thesis using short [OF Some] Some by (simp add: esc_def)
qed

lemma read_str_esc: "read_str (esc c @ t) = prepend c (read_str t)"
proof (cases c rule: esc_cases)
  case (short e)
  then show ?thesis by simp
next
  case plain
  then show ?thesis by simp
next
  case unicode
  have "of_char c < (256 :: nat)" by (metis of_char_mod_256 mod_less_divisor zero_less_numeral)
  then have "of_char c div 16 < (16 :: nat)" by (simp add: less_mult_imp_div_less)
  then have "hexval (hexdig (of_char c div 16)) = Some (of_char c div 16)"
    "hexval (hexdig (of_char c mod 16)) = Some (of_char c mod 16)"
    by simp_all
  moreover have "hexval (CHR ''0'') = Some 0" by (simp add: hexval_def)
  ultimately show ?thesis using unicode by simp
qed

lemma read_str_quoted: "read_str (concat (map esc s) @ dquote # r) = Inr (s, r)"
proof (induction s)
  case Nil
  show ?case by simp
next
  case (Cons c s)
  then show ?case by (simp add: read_str_esc prepend_def del: read_str.simps(2))
qed

section \<open>Numbers\<close>

text \<open>What may follow a number: nothing that would continue it.\<close>

definition stops :: "string \<Rightarrow> bool" where
  "stops r \<longleftrightarrow> (case r of [] \<Rightarrow> True | c # _ \<Rightarrow> \<not> is_digit c \<and> c \<notin> {CHR ''.'', CHR ''e'', CHR ''E''})"

lemma stops_parts:
  assumes "stops r"
  shows "takeWhile is_digit r = []" "dropWhile is_digit r = r" "read_frac_part r = None" "read_exp_part r = None"
  using assms by (auto simp: stops_def read_frac_part_def read_exp_part_def split: list.splits)

lemma digits_append:
  "list_all is_digit ds \<Longrightarrow> (case r of [] \<Rightarrow> True | c # _ \<Rightarrow> \<not> is_digit c) \<Longrightarrow> digits (ds @ r) = (ds, r)"
  by (cases r) (auto simp: digits_def list_all_iff takeWhile_append2 dropWhile_append2)

lemma show_nat_is_digit: "list_all is_digit (show_nat n)"
  using show_nat_digits by (fastforce simp: list_all_iff is_digit_def)

lemma nat_val_snoc: "d < 10 \<Longrightarrow> nat_val (ds @ [digit d]) = 10 * nat_val ds + d"
  by (simp add: nat_val_def)

lemma nat_val_show_nat [simp]: "nat_val (show_nat n) = n"
proof (induction n rule: show_nat.induct)
  case (1 n)
  show ?case
  proof (cases "n < 10")
    case True
    then show ?thesis by (subst show_nat.simps) (simp add: nat_val_def)
  next
    case False
    then show ?thesis using 1 by (subst show_nat.simps) (simp add: nat_val_snoc)
  qed
qed

lemma digit_0: "digit 0 = CHR ''0''"
  by code_simp

lemma digit_val_0: "digit_val (CHR ''0'') = Some 0"
  by (simp add: digit_val_def)

lemma digit_zero: "d < 10 \<Longrightarrow> digit d = CHR ''0'' \<longleftrightarrow> d = 0"
  using digit_val_digit [of d] digit_0 digit_val_0 by fastforce

lemma show_nat_zero: "show_nat 0 = ''0''"
  by (subst show_nat.simps) (simp add: digit_0)

lemma show_nat_hd: "0 < n \<Longrightarrow> hd (show_nat n) \<noteq> CHR ''0''"
proof (induction n rule: show_nat.induct)
  case (1 n)
  show ?case
  proof (cases "n < 10")
    case True
    then show ?thesis using 1(2) digit_zero [of n] by (subst show_nat.simps) simp
  next
    case False
    then show ?thesis using 1(1) by (subst show_nat.simps) simp
  qed
qed

lemma read_int_part_show:
  assumes "case r of [] \<Rightarrow> True | c # _ \<Rightarrow> \<not> is_digit c"
  shows "read_int_part (show_nat n @ r) = Some (n, r)"
proof (cases "n = 0")
  case True
  then show ?thesis by (simp add: show_nat_zero read_int_part_def)
next
  case False
  obtain c cs where s: "show_nat n = c # cs" by (cases "show_nat n") auto
  then have "c \<noteq> CHR ''0''" "is_digit c" using show_nat_hd [of n] False show_nat_is_digit [of n] by auto
  moreover have "digits (c # cs @ r) = (c # cs, r)" using digits_append [OF show_nat_is_digit assms, of n] s by simp
  moreover have "nat_val (c # cs) = n" using nat_val_show_nat [of n] s by simp
  ultimately show ?thesis using s by (simp add: read_int_part_def)
qed

lemma stops_no_digit: "stops r \<Longrightarrow> (case r of [] \<Rightarrow> True | c # _ \<Rightarrow> \<not> is_digit c)"
  by (simp add: stops_def split: list.splits)

lemma read_unsigned_nat:
  "stops r \<Longrightarrow> length (show_nat n) \<le> max_int_digits \<Longrightarrow> read_unsigned neg (show_nat n @ r) = Inr (PInt (if neg then - int n else int n), r)"
  by (simp add: read_unsigned_def read_int_part_show stops_no_digit stops_parts)

lemma read_number_neg: "read_number (CHR ''-'' # s) = read_unsigned True s"
  by (simp add: read_number_def)

lemma read_number_show: "read_number (show_nat n @ r) = read_unsigned False (show_nat n @ r)"
  using show_nat_plain [of "hd (show_nat n)" n] by (cases "show_nat n") (auto simp: read_number_def)

lemma read_number_int:
  "stops r \<Longrightarrow> length (show_nat (nat \<bar>i\<bar>)) \<le> max_int_digits \<Longrightarrow> read_number (show_int i @ r) = Inr (PInt i, r)"
  by (cases "i < 0") (simp_all add: show_int_def read_number_neg read_number_show read_unsigned_nat)

lemma read_unsigned_real:
  assumes "0 \<le> x" "frac_ends max_decimals (x - of_int \<lfloor>x\<rfloor>)" "stops r"
  shows "read_unsigned neg (show_nonneg x @ r) = Inr (PFloat (if neg then - x else x), r)"
proof -
  let ?f = "x - of_int \<lfloor>x\<rfloor>"
  let ?ds = "frac_digits max_decimals ?f"
  have f: "0 \<le> ?f" "?f < 1" by linarith+
  have "list_all is_digit ?ds" using frac_digits_digit [OF f] by (auto simp: list_all_iff is_digit_def)
  then have ds: "digits (?ds @ r) = (?ds, r)" using digits_append stops_no_digit [OF assms(3)] by blast
  have ne: "?ds \<noteq> []" by (simp add: max_decimals_def numeral_eq_Suc Let_def)
  have val: "frac_val ?ds = ?f" by (rule frac_val_digits [OF f assms(2)])
  have "read_frac_part (CHR ''.'' # ?ds @ r) = Some (?f, r)"
    using ds ne val by (simp add: read_frac_part_def)
  moreover have "read_int_part (show_nat (nat \<lfloor>x\<rfloor>) @ CHR ''.'' # ?ds @ r) = Some (nat \<lfloor>x\<rfloor>, CHR ''.'' # ?ds @ r)"
    by (rule read_int_part_show) (simp add: is_digit_def digit_val_def Let_def)
  moreover have "real (nat \<lfloor>x\<rfloor>) + ?f = x" using assms(1) by simp
  ultimately show ?thesis using stops_parts [OF assms(3)] by (simp add: read_unsigned_def show_nonneg_def)
qed

lemma read_number_real: "float_ok x \<Longrightarrow> stops r \<Longrightarrow> read_number (show_real x @ r) = Inr (PFloat x, r)"
  by (cases "x < 0")
    (simp_all add: show_real_def float_ok_def read_number_neg read_unsigned_real,
     simp add: show_nonneg_def read_number_show read_unsigned_real [unfolded show_nonneg_def, simplified])

section \<open>Values\<close>

text \<open>
  The values that survive the trip: distinct keys in every dictionary, decimal floats, integers of no more than
  4300 digits, lists and dictionaries nested no more than \<open>max_nesting\<close> times.
\<close>

definition int_ok :: "int \<Rightarrow> bool" where
  "int_ok i \<longleftrightarrow> length (show_nat (nat \<bar>i\<bar>)) \<le> max_int_digits"

fun json_within :: "nat \<Rightarrow> pyval \<Rightarrow> bool" where
  "json_within d (PFloat x) = float_ok x"
| "json_within d (PInt i) = int_ok i"
| "json_within d (PList vs) = (d \<noteq> 0 \<and> list_all (json_within (d - 1)) vs)"
| "json_within d (PDict kvs) = (d \<noteq> 0 \<and> dict_ok kvs \<and> list_all (\<lambda>(k, v). json_within (d - 1) v) kvs)"
| "json_within d _ = True"

definition json_ok :: "pyval \<Rightarrow> bool" where
  "json_ok v \<longleftrightarrow> json_within max_nesting v"

lemma json_within_mono: "json_within d v \<Longrightarrow> d \<le> e \<Longrightarrow> json_within e v"
proof (induction d v arbitrary: e rule: json_within.induct)
  case (3 d vs)
  then have "d - 1 \<le> e - 1" by simp
  with 3 show ?case by (auto simp: list_all_iff)
next
  case (4 d kvs)
  then have "d - 1 \<le> e - 1" by simp
  with 4 show ?case by (fastforce simp: list_all_iff)
qed simp_all

lemma json_ok_simps [simp]:
  "json_ok PNone" "json_ok (PBool b)" "json_ok (PStr s)" "json_ok (PInt i) = int_ok i" "json_ok (PFloat x) = float_ok x"
  "json_ok (PList vs) = list_all (json_within 499) vs"
  "json_ok (PDict kvs) = (dict_ok kvs \<and> list_all (\<lambda>(k, v). json_within 499 v) kvs)"
  by (simp_all add: json_ok_def max_nesting_def)

lemma json_ok_inner: "json_within 499 v \<Longrightarrow> json_ok v"
  unfolding json_ok_def by (erule json_within_mono) (simp add: max_nesting_def)

lemma json_ok_dict: "json_ok (PDict kvs) \<Longrightarrow> dict_ok kvs \<and> list_all (\<lambda>(k, v). json_ok v) kvs"
  by (auto simp: list_all_iff intro: json_ok_inner)

lemma length_show_nat: "n < 10 ^ k \<Longrightarrow> 0 < k \<Longrightarrow> length (show_nat n) \<le> k"
proof (induction n arbitrary: k rule: show_nat.induct)
  case (1 n)
  show ?case
  proof (cases "n < 10")
    case True
    then show ?thesis using 1(3) by (subst show_nat.simps) simp
  next
    case False
    then obtain j where j: "k = Suc j" "0 < j" using 1(2,3) by (cases k; cases "k - 1") auto
    then have "n div 10 < 10 ^ j" using 1(2) by (simp add: less_mult_imp_div_less mult.commute)
    then show ?thesis using 1(1) [OF False] j False by (subst show_nat.simps) simp
  qed
qed

lemma int_ok_small: "\<bar>i\<bar> < 10 ^ 20 \<Longrightarrow> int_ok i"
proof -
  assume "\<bar>i\<bar> < 10 ^ 20"
  then have "nat \<bar>i\<bar> < 10 ^ 20" by simp
  from length_show_nat [OF this] show ?thesis by (simp add: int_ok_def max_int_digits_def)
qed

text \<open>The fuel that reading a written value takes.\<close>

fun weight :: "pyval \<Rightarrow> nat" where
  "weight (PList vs) = Suc (sum_list (map (\<lambda>v. Suc (weight v)) vs))"
| "weight (PDict kvs) = Suc (sum_list (map (\<lambda>(k, v). Suc (weight v)) kvs))"
| "weight _ = 1"

lemma stops_simps [simp]: "stops []" "stops (CHR '','' # r)" "stops (CHR '']'' # r)" "stops (CHR ''}'' # r)"
  by (simp_all add: stops_def is_digit_def digit_val_def Let_def)

text \<open>How a written value starts: never with a blank, a bracket or a brace that closes.\<close>

definition starts :: "string \<Rightarrow> bool" where
  "starts s \<longleftrightarrow> (case s of [] \<Rightarrow> False | c # _ \<Rightarrow> \<not> is_json_space c \<and> c \<notin> {CHR '']'', CHR ''}''})"

lemma starts_append [simp]: "starts s \<Longrightarrow> starts (s @ r)"
  by (simp add: starts_def split: list.splits)

lemma skip_starts [simp]: "starts s \<Longrightarrow> skip s = s"
  by (simp add: starts_def skip_def split: list.splits)

lemma starts_show_nat [simp]: "starts (show_nat n)"
proof -
  obtain c cs where s: "show_nat n = c # cs" by (cases "show_nat n") auto
  then have "digit_val c \<noteq> None" using show_nat_is_digit [of n] by (simp add: is_digit_def)
  then show ?thesis using s by (auto simp: starts_def is_json_space_def digit_val_def Let_def)
qed

lemma starts_Cons: "starts (c # s) \<longleftrightarrow> \<not> is_json_space c \<and> c \<notin> {CHR '']'', CHR ''}''}"
  by (simp add: starts_def)

lemma starts_dumps [simp]: "starts (dumps v)"
  by (cases v)
    (simp_all add: starts_Cons is_json_space_def quoted_def show_int_def show_real_def show_nonneg_def)

lemma skip_sep [simp]: "starts s \<Longrightarrow> skip (CHR '' '' # s) = s"
  using skip_starts [of s] by (simp add: skip_def is_json_space_def)


lemma starts_not_Nil [simp]: "\<not> starts []"
  by (simp add: starts_def)

lemma dumps_not_Nil [simp]: "dumps v \<noteq> []"
  by (metis starts_dumps starts_not_Nil)

lemma skip_closers [simp]:
  "skip (CHR '','' # r) = CHR '','' # r" "skip (CHR '']'' # r) = CHR '']'' # r"
  "skip (CHR ''}'' # r) = CHR ''}'' # r" "skip (CHR '':'' # r) = CHR '':'' # r" "skip [] = []"
  by (simp_all add: skip_def is_json_space_def)

text \<open>The elements and the members between their brackets.\<close>

definition members_text :: "(string \<times> pyval) list \<Rightarrow> string list" where
  "members_text kvs = map (\<lambda>(k, v). quoted k @ '': '' @ dumps v) kvs"

lemma sep_by_Cons: "sep_by sep (s # t # ss) = s @ sep @ sep_by sep (t # ss)"
  by (simp add: sep_by_def)

lemma sep_by_single [simp]: "sep_by sep [s] = s" "sep_by sep [] = []"
  by (simp_all add: sep_by_def)

definition reads :: "nat \<Rightarrow> nat \<Rightarrow> pyval \<Rightarrow> bool" where
  "reads d k v \<longleftrightarrow> (\<forall>r. stops r \<longrightarrow> read_value d k (dumps v @ r) = Inr (v, r))"

lemma read_elements_ok:
  assumes "vs \<noteq> []" "sum_list (map (\<lambda>v. Suc (weight v)) vs) \<le> k"
    and "\<And>v j. v \<in> set vs \<Longrightarrow> weight v \<le> j \<Longrightarrow> reads d j v"
  shows "read_elements d k acc (sep_by '', '' (map dumps vs) @ CHR '']'' # r) = Inr (PList (acc @ vs), r)"
  using assms
proof (induction vs arbitrary: k acc rule: list_nonempty_induct)
  case (single v)
  then obtain j where j: "k = Suc j" "weight v \<le> j" by (cases k) auto
  then have "reads d j v" using single by simp
  then show ?case using j by (simp add: reads_def)
next
  case (cons v vs)
  obtain j where j: "k = Suc j" "weight v \<le> j" "sum_list (map (\<lambda>v. Suc (weight v)) vs) \<le> j"
    using cons.prems(1) by (cases k) auto
  obtain w ws where vs: "vs = w # ws" using cons.hyps by (cases vs) auto
  have st: "starts (sep_by '', '' (map dumps vs) @ CHR '']'' # r)"
    by (cases ws) (simp_all add: vs sep_by_Cons)
  have "reads d j v" using cons.prems(2) j by simp
  then have "read_value d j (dumps v @ CHR '','' # CHR '' '' # sep_by '', '' (map dumps vs) @ CHR '']'' # r)
      = Inr (v, CHR '','' # CHR '' '' # sep_by '', '' (map dumps vs) @ CHR '']'' # r)"
    by (simp add: reads_def)
  moreover have "read_elements d j (acc @ [v]) (sep_by '', '' (map dumps vs) @ CHR '']'' # r)
      = Inr (PList ((acc @ [v]) @ vs), r)"
    by (rule cons.IH [OF j(3)]) (simp add: cons.prems(2))
  ultimately show ?case
    using st j(1) by (simp add: vs sep_by_Cons)
qed


lemma quoted_append: "quoted s @ r = dquote # concat (map esc s) @ dquote # r"
  by (simp add: quoted_def)

lemma starts_quoted [simp]: "starts (quoted s)"
  by (simp add: starts_Cons quoted_def is_json_space_def)

lemma read_members_ok:
  assumes "kvs \<noteq> []" "sum_list (map (\<lambda>(key, v). Suc (weight v)) kvs) \<le> k"
    and "distinct (map fst acc @ map fst kvs)"
    and "\<And>key v j. (key, v) \<in> set kvs \<Longrightarrow> weight v \<le> j \<Longrightarrow> reads d j v"
  shows "read_members d k acc (sep_by '', '' (members_text kvs) @ CHR ''}'' # r) = Inr (PDict (acc @ kvs), r)"
  using assms
proof (induction kvs arbitrary: k acc rule: list_nonempty_induct)
  case (single kv)
  obtain key v where kv: "kv = (key, v)" by fastforce
  obtain j where j: "k = Suc j" "weight v \<le> j" using single kv by (cases k) auto
  then have "reads d j v" using single kv by simp
  moreover have "dict_set key v acc = acc @ [(key, v)]"
    using single.prems(2) kv by (intro dict_set_fresh) (auto simp: map_of_eq_None_iff)
  ultimately show ?case
    using j kv by (simp add: reads_def members_text_def quoted_append read_str_quoted)
next
  case (cons kv kvs)
  obtain key v where kv: "kv = (key, v)" by fastforce
  obtain j where j: "k = Suc j" "weight v \<le> j" "sum_list (map (\<lambda>(key, v). Suc (weight v)) kvs) \<le> j"
    using cons.prems(1) kv by (cases k) auto
  obtain w ws where vs: "kvs = w # ws" using cons.hyps by (cases kvs) auto
  let ?rest = "sep_by '', '' (members_text kvs) @ CHR ''}'' # r"
  have st: "starts ?rest"
    by (cases ws; cases w) (simp_all add: vs sep_by_Cons members_text_def)
  have set: "dict_set key v acc = acc @ [(key, v)]"
    using cons.prems(2) kv by (intro dict_set_fresh) (auto simp: map_of_eq_None_iff)
  have "reads d j v" by (rule cons.prems(3) [of key]) (use j kv in simp_all)
  then have "read_value d j (dumps v @ CHR '','' # CHR '' '' # ?rest) = Inr (v, CHR '','' # CHR '' '' # ?rest)"
    by (simp add: reads_def)
  moreover have "read_members d j (acc @ [(key, v)]) ?rest = Inr (PDict ((acc @ [(key, v)]) @ kvs), r)"
    by (rule cons.IH [OF j(3)]) (use cons.prems(2,3) kv in auto)
  moreover have "sep_by '', '' (members_text (kv # kvs)) @ CHR ''}'' # r
      = dquote # concat (map esc key) @ dquote # CHR '':'' # CHR '' '' # dumps v @ CHR '','' # CHR '' '' # ?rest"
    by (simp add: kv vs members_text_def sep_by_Cons quoted_append)
  ultimately show ?case
    using st j(1) by (simp add: kv set read_str_quoted)
qed

lemma read_value_number:
  assumes "\<exists>c t. s = c # t \<and> (c = CHR ''-'' \<or> is_digit c)"
  shows "read_value d (Suc k) s = read_number s"
proof -
  obtain c t where s: "s = c # t" and "c = CHR ''-'' \<or> is_digit c" using assms by blast
  then have "c \<notin> {dquote, CHR ''['', CHR ''{'', CHR ''n'', CHR ''t'', CHR ''f''}"
    by (auto simp: is_digit_def digit_val_def Let_def)
  then show ?thesis by (simp add: s)
qed

lemma show_nat_head: "\<exists>c t. show_nat n @ r = c # t \<and> (c = CHR ''-'' \<or> is_digit c)"
  using show_nat_is_digit [of n] by (cases "show_nat n") auto

lemma reads_dumps: "json_within d v \<Longrightarrow> weight v \<le> k \<Longrightarrow> reads d k v"
proof (induction v arbitrary: d k)
  case (PList vs)
  then obtain j where j: "k = Suc j" "sum_list (map (\<lambda>v. Suc (weight v)) vs) \<le> j" by (cases k) auto
  show ?case
  proof (cases vs)
    case Nil
    then show ?thesis using j PList.prems(1) by (simp add: reads_def)
  next
    case (Cons w ws)
    have "read_elements (d - 1) j [] (sep_by '', '' (map dumps vs) @ CHR '']'' # r) = Inr (PList ([] @ vs), r)" for r
      by (rule read_elements_ok) (use Cons j PList in \<open>auto simp: list_all_iff\<close>)
    moreover obtain c cs where "dumps w = c # cs" "c \<noteq> CHR '']''" "\<not> is_json_space c"
      using starts_dumps [of w] by (auto simp: starts_def split: list.splits)
    ultimately show ?thesis
      using j Cons PList.prems(1) by (simp add: reads_def) (cases ws; simp add: sep_by_Cons skip_def)
  qed
next
  case (PDict kvs)
  then obtain j where j: "k = Suc j" "sum_list (map (\<lambda>(key, v). Suc (weight v)) kvs) \<le> j" by (cases k) auto
  have IH: "reads (d - 1) i v" if "(key, v) \<in> set kvs" "weight v \<le> i" for key v i
    using PDict.IH [OF that(1), of v] PDict.prems(1) that by (force simp: list_all_iff)
  show ?case
  proof (cases kvs)
    case Nil
    then show ?thesis using j PDict.prems(1) by (simp add: reads_def)
  next
    case (Cons w ws)
    have "read_members (d - 1) j [] (sep_by '', '' (members_text kvs) @ CHR ''}'' # r) = Inr (PDict ([] @ kvs), r)" for r
      by (rule read_members_ok) (use Cons j PDict.prems IH in \<open>auto simp: dict_ok_def\<close>)
    then show ?thesis
      using j Cons PDict.prems(1) by (cases w) (simp add: reads_def members_text_def, cases ws; simp add: sep_by_Cons quoted_append skip_def is_json_space_def)
  qed
next
  case (PStr s)
  then show ?case by (cases k) (simp_all add: reads_def quoted_append read_str_quoted)
next
  case (PInt i)
  then obtain j where j: "k = Suc j" by (cases k) auto
  have "read_value d k (show_int i @ r) = read_number (show_int i @ r)" for r
    unfolding j using show_nat_head by (intro read_value_number) (auto simp: show_int_def)
  then show ?case using PInt by (simp add: reads_def read_number_int int_ok_def)
next
  case (PFloat x)
  then obtain j where j: "k = Suc j" by (cases k) auto
  have "read_value d k (show_real x @ r) = read_number (show_real x @ r)" for r
    unfolding j using show_nat_head by (intro read_value_number) (auto simp: show_real_def show_nonneg_def)
  then show ?case using PFloat by (simp add: reads_def read_number_real)
qed (case_tac k; simp add: reads_def)+


section \<open>Fuel\<close>

text \<open>A successful read leaves a shorter text.\<close>

lemma prepend_Inr: "prepend c x = Inr (s, t) \<longleftrightarrow> (\<exists>s'. x = Inr (s', t) \<and> s = c # s')"
  by (cases x) (auto simp: prepend_def)

lemma read_str_shorter: "read_str s = Inr (x, r) \<Longrightarrow> length r < length s"
proof (induction s arbitrary: x rule: read_str.induct)
  case (2 c cs)
  then show ?case
    by (simp split: if_splits list.splits option.splits add: prepend_Inr) (force simp: prepend_Inr)+
qed simp

lemma skip_le: "length (skip s) \<le> length s"
  by (simp add: skip_def length_dropWhile_le)

lemma read_int_part_shorter: "read_int_part s = Some (n, r) \<Longrightarrow> length r < length s"
  by (cases s) (auto simp: read_int_part_def is_digit_def digits_def length_dropWhile_le less_Suc_eq_le
      split: if_splits prod.splits)

lemma read_frac_part_le:
  assumes "read_frac_part s = Some (x, r)"
  shows "length r \<le> length s"
proof (cases s)
  case (Cons c cs)
  have "r = dropWhile is_digit cs"
    using assms unfolding Cons read_frac_part_def digits_def Let_def prod.case list.case by (metis option.distinct(1) option.inject prod.inject)
  then show ?thesis using Cons length_dropWhile_le [of is_digit cs] by simp
qed (use assms in \<open>simp add: read_frac_part_def\<close>)

lemma read_exp_part_le:
  assumes "read_exp_part s = Some (x, r)"
  shows "length r \<le> length s"
proof (cases s)
  case (Cons c cs)
  define X where "X = (case cs of [] \<Rightarrow> (False, []) | x # xs \<Rightarrow>
    if x = CHR ''-'' then (True, xs) else if x = CHR ''+'' then (False, xs) else (False, cs))"
  have "length (snd X) \<le> length cs" by (simp add: X_def split: list.splits)
  moreover have "read_exp_part s = (if c = CHR ''e'' \<or> c = CHR ''E''
      then if fst (digits (snd X)) = [] then None
           else Some (if fst X then 1 / 10 ^ nat_val (fst (digits (snd X))) else 10 ^ nat_val (fst (digits (snd X))),
                      snd (digits (snd X)))
      else None)"
    unfolding Cons read_exp_part_def list.case X_def [symmetric] by (simp only: Let_def split_def)
  then have "r = snd (digits (snd X))" using assms by (metis option.distinct(1) option.inject snd_conv)
  then have "length r \<le> length (snd X)" by (simp only: digits_def snd_conv length_dropWhile_le)
  ultimately show ?thesis using Cons by simp
qed (use assms in \<open>simp add: read_exp_part_def\<close>)

lemma read_number_shorter: "read_number s = Inr (v, r) \<Longrightarrow> length r < length s"
proof -
  have u: "length r < length t" if "read_unsigned neg t = Inr (v, r)" for neg t
  proof -
    from that obtain n t1 where t1: "read_int_part t = Some (n, t1)"
      by (auto simp: read_unsigned_def split: option.splits if_splits)
    define t2 where "t2 = (case read_frac_part t1 of None \<Rightarrow> t1 | Some (f, r') \<Rightarrow> r')"
    have "length t2 \<le> length t1" by (auto simp: t2_def split: option.splits dest: read_frac_part_le)
    moreover have "length r \<le> length t2"
      using that t1 by (auto simp: read_unsigned_def t2_def split: option.splits if_splits dest: read_exp_part_le)
    ultimately show ?thesis using read_int_part_shorter [OF t1] by simp
  qed
  show "read_number s = Inr (v, r) \<Longrightarrow> length r < length s"
    by (cases s) (auto simp: read_number_def split: if_splits dest: u)
qed

lemma read_unsigned_fuel: "read_unsigned neg s \<noteq> Inl OutOfFuel"
proof (cases "read_int_part s")
  case (Some nr)
  obtain n r where nr: "nr = (n, r)" by fastforce
  define r2 where "r2 = (case read_frac_part r of None \<Rightarrow> r | Some (f, r') \<Rightarrow> r')"
  show ?thesis
    unfolding read_unsigned_def Some nr option.case prod.case r2_def [symmetric]
    by (cases "read_frac_part r"; cases "read_exp_part r2") auto
qed (simp add: read_unsigned_def)

lemma read_number_fuel: "read_number s \<noteq> Inl OutOfFuel"
  using read_unsigned_fuel by (cases s) (auto simp: read_number_def)

lemma prepend_fuel: "prepend d x = Inl OutOfFuel \<longleftrightarrow> x = Inl OutOfFuel"
  by (cases x) (auto simp: prepend_def)

lemma read_str_fuel: "read_str s \<noteq> Inl OutOfFuel"
proof (induction s rule: read_str.induct)
  case (2 c cs)
  note IH = 2
  show ?case
  proof (cases "c = dquote \<or> c \<noteq> backslash")
    case True
    then show ?thesis using IH(3) by (auto simp: prepend_fuel)
  next
    case False
    then have c: "c \<noteq> dquote" "c = backslash" by auto
    show ?thesis
    proof (cases cs)
      case (Cons e r)
      show ?thesis
      proof (cases "e = CHR ''u''")
        case True
        show ?thesis
          using c Cons True IH(1) by (simp add: prepend_fuel split: list.split option.split)
      next
        case False
        show ?thesis using c Cons False IH(2) by (cases "unescape e") (simp_all add: prepend_fuel)
      qed
    qed (use c in simp)
  qed
qed simp

lemma read_value_shorter:
  "read_value d k s = Inr (v, r) \<Longrightarrow> length r < length s"
  "read_elements d k vs s = Inr (v, r) \<Longrightarrow> length r < length s"
  "read_members d k kvs s = Inr (v, r) \<Longrightarrow> length r < length s"
proof (induction k arbitrary: d s v r vs kvs)
  case 0
  { case 1 then show ?case by simp next case 2 then show ?case by simp next case 3 then show ?case by simp }
next
  case (Suc k)
  {
    case 1
    show ?case
    proof (cases s)
      case (Cons c cs)
      consider (str) "c = dquote" | (list) "c = CHR ''[''" | (dict) "c = CHR ''{''"
        | (atom) "c \<notin> {dquote, CHR ''['', CHR ''{''}" by auto
      then show ?thesis
      proof cases
        case str
        then show ?thesis using 1 Cons by (auto simp: and_then_Inr dest: read_str_shorter)
      next
        case list
        then obtain x t where t: "skip cs = x # t" using 1 Cons by (auto split: list.splits if_splits)
        then have "length (x # t) \<le> length cs" using skip_le [of cs] by simp
        then show ?thesis using 1 Suc.IH(2) [of "d - 1" "[]" "x # t" v r] Cons list t by (auto split: if_splits)
      next
        case dict
        then obtain x t where t: "skip cs = x # t" using 1 Cons by (auto split: list.splits if_splits)
        then have "length (x # t) \<le> length cs" using skip_le [of cs] by simp
        then show ?thesis using 1 Suc.IH(3) [of "d - 1" "[]" "x # t" v r] Cons dict t by (auto split: if_splits)
      next
        case atom
        then show ?thesis using 1 Cons by (auto dest: read_number_shorter split: if_splits)
      qed
    qed (use 1 in simp)
  next
    case 2
    obtain w t where t: "read_value d k s = Inr (w, t)" using 2 by (auto simp: and_then_Inr)
    obtain x u where u: "skip t = x # u" using 2 t by (auto split: list.splits)
    have "length u < length s" using Suc.IH(1) [OF t] skip_le [of t] u by simp
    then show ?case
      using 2 Suc.IH(2) [of d "vs @ [w]" "skip u" v r] skip_le [of u] t u by (auto split: if_splits)
  next
    case 3
    obtain c cs where s: "s = c # cs" using 3 by (cases s) auto
    have c: "c = dquote" using 3 s by (auto split: if_splits)
    obtain key t where t: "read_str cs = Inr (key, t)" using 3 s c by (auto simp: and_then_Inr)
    obtain x u where u: "skip t = x # u" using 3 s c t by (auto split: list.splits)
    have x: "x = CHR '':''" using 3 s c t u by (auto split: if_splits)
    obtain w t' where t': "read_value d k (skip u) = Inr (w, t')" using 3 s c t u x by (auto simp: and_then_Inr)
    obtain y u' where u': "skip t' = y # u'" using 3 s c t u x t' by (auto split: list.splits)
    have "length u' < length s"
      using s u u' read_str_shorter [OF t] skip_le [of t] skip_le [of u] skip_le [of t'] Suc.IH(1) [OF t'] by simp
    then show ?case
      using 3 Suc.IH(3) [of d "dict_set key w kvs" "skip u'" v r] skip_le [of u'] s c t u x t' u'
      by (auto split: if_splits)
  }
qed

lemma and_then_Inl: "and_then x f = Inl e \<longleftrightarrow> x = Inl e \<or> (\<exists>y. x = Inr y \<and> f y = Inl e)"
  by (cases x) auto

text \<open>Two units of fuel per character are enough, so \<open>loads\<close> always has an answer.\<close>

lemma read_value_fuel:
  "2 * length s + 1 \<le> k \<Longrightarrow> read_value d k s \<noteq> Inl OutOfFuel"
  "2 * length s + 2 \<le> k \<Longrightarrow> read_elements d k vs s \<noteq> Inl OutOfFuel"
  "2 * length s + 2 \<le> k \<Longrightarrow> read_members d k kvs s \<noteq> Inl OutOfFuel"
proof (induction k arbitrary: d s vs kvs)
  case 0
  { case 1 then show ?case by simp next case 2 then show ?case by simp next case 3 then show ?case by simp }
next
  case (Suc k)
  {
    case 1
    show ?case
    proof (cases s)
      case (Cons c cs)
      have k: "2 * length (skip cs) + 2 \<le> k" using 1 Cons skip_le [of cs] by simp
      consider (str) "c = dquote" | (list) "c = CHR ''[''" | (dict) "c = CHR ''{''"
        | (atom) "c \<notin> {dquote, CHR ''['', CHR ''{''}" by auto
      then show ?thesis
      proof cases
        case str
        then show ?thesis using Cons read_str_fuel [of cs] by (auto simp: and_then_Inl)
      next
        case list
        then show ?thesis using Cons k Suc.IH(2) by (auto split: list.split)
      next
        case dict
        then show ?thesis using Cons k Suc.IH(3) by (auto split: list.split)
      next
        case atom
        then show ?thesis using Cons read_number_fuel by simp
      qed
    qed simp
  next
    case 2
    show ?case
    proof (cases "read_value d k s")
      case (Inl e)
      then show ?thesis using Suc.IH(1) [of s d] 2 by simp
    next
      case (Inr wt)
      obtain w t where wt: "wt = (w, t)" by fastforce
      have "length (skip t) < length s" using read_value_shorter(1) [OF Inr [unfolded wt]] skip_le [of t] by simp
      then have "2 * length (skip u) + 2 \<le> k" if "skip t = x # u" for x u using 2 that skip_le [of u] by simp
      then show ?thesis using Inr wt Suc.IH(2) by (auto split: list.split)
    qed
  next
    case 3
    show ?case
    proof (cases "\<exists>cs key t u. s = dquote # cs \<and> read_str cs = Inr (key, t) \<and> skip t = CHR '':'' # u")
      case False
      then show ?thesis using read_str_fuel by (auto simp: and_then_Inl split: list.split)
    next
      case True
      then obtain cs key t u where s: "s = dquote # cs" and t: "read_str cs = Inr (key, t)"
        and u: "skip t = CHR '':'' # u" by blast
      have l: "length (skip u) + 2 \<le> length s"
        using s u read_str_shorter [OF t] skip_le [of t] skip_le [of u] by simp
      show ?thesis
      proof (cases "read_value d k (skip u)")
        case (Inl e)
        then show ?thesis using s t u l Suc.IH(1) [of "skip u" d] 3 by simp
      next
        case (Inr wt')
        obtain w t' where wt: "wt' = (w, t')" by fastforce
        have "length (skip t') < length s"
          using read_value_shorter(1) [OF Inr [unfolded wt]] skip_le [of t'] l by simp
        then have "2 * length (skip u') + 2 \<le> k" if "skip t' = x # u'" for x u'
          using 3 that skip_le [of u'] by simp
        then show ?thesis using s t u Inr wt Suc.IH(3) by (auto split: list.split)
      qed
    qed
  }
qed

lemma loads_total: "loads s \<noteq> Inl OutOfFuel"
proof -
  have "read_value max_nesting (2 * length s + 2) (skip s) \<noteq> Inl OutOfFuel"
    using skip_le [of s] by (intro read_value_fuel(1)) simp
  then show ?thesis by (auto simp: loads_def and_then_Inl)
qed

text \<open>The text of a value is long enough for the fuel its reading takes.\<close>

lemma length_sep_by: "ss \<noteq> [] \<Longrightarrow> length (sep_by '', '' ss) + 2 = sum_list (map (\<lambda>s. length s + 2) ss)"
proof (induction ss rule: list_nonempty_induct)
  case (cons s ss)
  then show ?case by (cases ss) (simp_all add: sep_by_Cons)
qed simp

lemma double_sum: "sum_list (map (\<lambda>x. 2 * f x) xs) = 2 * (sum_list (map f xs) :: nat)"
  by (induction xs) simp_all

lemma weight_le: "weight v \<le> 2 * length (dumps v) + 1"
proof (induction v)
  case (PList vs)
  have "sum_list (map (\<lambda>v. Suc (weight v)) vs) \<le> sum_list (map (\<lambda>v. 2 * (length (dumps v) + 2)) vs)"
    by (rule sum_list_mono) (use PList in force)
  also have "\<dots> = 2 * sum_list (map (\<lambda>s. length s + 2) (map dumps vs))"
    by (simp only: double_sum map_map comp_def)
  finally show ?case using length_sep_by [of "map dumps vs"] by (cases "vs = []") simp_all
next
  case (PDict kvs)
  have "sum_list (map (\<lambda>(k, v). Suc (weight v)) kvs) \<le> sum_list (map (\<lambda>s. 2 * (length s + 2)) (members_text kvs))"
    unfolding members_text_def map_map
    by (rule sum_list_mono) (use PDict in \<open>force simp: le_SucI trans_le_add2\<close>)
  also have "\<dots> = 2 * sum_list (map (\<lambda>s. length s + 2) (members_text kvs))"
    by (rule double_sum)
  finally show ?case using length_sep_by [of "members_text kvs"]
    by (cases "kvs = []") (simp_all add: members_text_def)
qed (simp_all add: quoted_def Suc_le_eq)

theorem loads_dumps: "json_ok v \<Longrightarrow> loads (dumps v) = Inr v"
proof -
  assume "json_ok v"
  then have "reads max_nesting (2 * length (dumps v) + 2) v" using weight_le [of v] by (intro reads_dumps) (simp_all add: json_ok_def)
  from this [unfolded reads_def, rule_format, of "[]"] show ?thesis by (simp add: loads_def)
qed

end
