(* ===== verification/Codec.thy ===== *)
theory Codec
  imports Json_Roundtrip "HOL-Library.Word"
begin

text \<open>
  \<open>taskrunner/grpc/codec.py\<close>: the translation between the program's dataclasses and the messages of
  \<open>taskrunner.proto\<close>.

  A message is a record with the fields of its proto3 declaration.  What the protobuf runtime does with
  them is a parameter: \<open>pb_int32\<close> is the assignment to an \<open>int32\<close> field, \<open>pb_items\<close> the order in which a
  map field is iterated.  \<open>protobuf_ok\<close> states what its documentation says of the two.
\<close>

section \<open>Messages\<close>

datatype codec_error = ProtoValueError | ValueNotModelled

record protobuf =
  pb_int32 :: "int \<Rightarrow> codec_error + 32 word"
  pb_items :: "(string, string) dict \<Rightarrow> (string, string) dict"

definition int32_range :: "int \<Rightarrow> bool" where
  "int32_range i \<longleftrightarrow> - (2 ^ 31) \<le> i \<and> i < 2 ^ 31"

definition protobuf_ok :: "protobuf \<Rightarrow> bool" where
  "protobuf_ok pb \<longleftrightarrow>
     (\<forall>i. pb_int32 pb i = (if int32_range i then Inr (word_of_int i) else Inl ProtoValueError))
     \<and> (\<forall>d. dict_ok d \<longrightarrow> mset (pb_items pb d) = mset d)"

record spec_message =
  ms_target :: string
  ms_payload :: "(string, string) dict"
  ms_kind :: string
  ms_queue :: string
  ms_priority :: "32 word"
  ms_delay_seconds :: real
  ms_max_retries :: "32 word"
  ms_retry_backoff_seconds :: real
  ms_timeout_seconds :: real
  ms_affinity :: "string list"
  ms_depends_on :: "string list"
  ms_batch_key :: string

record task_message =
  mt_task_id :: string
  mt_spec :: spec_message
  mt_status :: string
  mt_attempts :: "32 word"
  mt_assigned_worker :: string
  mt_last_error :: string
  mt_created_at :: real
  mt_available_at :: real

record worker_message =
  mw_worker_id :: string
  mw_host :: string
  mw_pid :: "32 word"
  mw_queues :: "string list"
  mw_capacity :: "32 word"
  mw_labels :: "string list"
  mw_status :: string
  mw_running_tasks :: "32 word"

record result_message =
  mr_task_id :: string
  mr_worker_id :: string
  mr_status :: string
  mr_result_json :: string
  mr_error :: string
  mr_started_at :: real
  mr_finished_at :: real

section \<open>Python's \<open>or\<close>\<close>

definition or_number :: "'a::zero \<Rightarrow> 'a \<Rightarrow> 'a" where
  "or_number x y = (if x = 0 then y else x)"

definition or_text :: "string \<Rightarrow> string \<Rightarrow> string" where
  "or_text x y = (if x = [] then y else x)"

definition text_or_none :: "string \<Rightarrow> string option" where
  "text_or_none s = (if s = [] then None else Some s)"

definition none_or_text :: "string option \<Rightarrow> string" where
  "none_or_text x = (case x of None \<Rightarrow> [] | Some s \<Rightarrow> s)"

text \<open>Calling an enumeration on a text: \<open>ProtoValueError\<close> when no member has it.\<close>

definition member :: "'a option \<Rightarrow> codec_error + 'a" where
  "member x = (case x of None \<Rightarrow> Inl ProtoValueError | Some k \<Rightarrow> Inr k)"

section \<open>Specifications\<close>

definition spec_to_proto :: "protobuf \<Rightarrow> task_spec \<Rightarrow> codec_error + spec_message" where
  "spec_to_proto pb s =
     and_then (pb_int32 pb (ts_priority s)) (\<lambda>priority.
     and_then (pb_int32 pb (ts_max_retries s)) (\<lambda>max_retries.
       Inr \<lparr>ms_target = ts_target s,
         ms_payload = map (\<lambda>(key, value). (key, dumps value)) (ts_payload s),
         ms_kind = kind_str (ts_kind s),
         ms_queue = ts_queue s,
         ms_priority = priority,
         ms_delay_seconds = ts_delay_seconds s,
         ms_max_retries = max_retries,
         ms_retry_backoff_seconds = ts_retry_backoff_seconds s,
         ms_timeout_seconds = ts_timeout_seconds s,
         ms_affinity = sorted_list_of_set (ts_affinity s),
         ms_depends_on = sorted_list_of_set (ts_depends_on s),
         ms_batch_key = none_or_text (ts_batch_key s)\<rparr>))"

text \<open>\<open>json.loads\<close> with the fallback to the text itself, for a \<open>JSONDecodeError\<close> only.\<close>

definition loads_or_text :: "string \<Rightarrow> codec_error + pyval" where
  "loads_or_text s =
     (case loads s of
        Inr v \<Rightarrow> Inr v
      | Inl JSONDecodeError \<Rightarrow> Inr (PStr s)
      | Inl IntTooLong \<Rightarrow> Inl ProtoValueError
      | Inl _ \<Rightarrow> Inl ValueNotModelled)"

fun read_payload :: "(string, string) dict \<Rightarrow> (string, pyval) dict \<Rightarrow> codec_error + (string, pyval) dict" where
  "read_payload [] payload = Inr payload"
| "read_payload ((key, value) # kvs) payload =
     and_then (loads_or_text value) (\<lambda>v. read_payload kvs (dict_set key v payload))"

definition spec_from_proto :: "protobuf \<Rightarrow> spec_message \<Rightarrow> codec_error + task_spec" where
  "spec_from_proto pb m =
     and_then (read_payload (pb_items pb (ms_payload m)) []) (\<lambda>payload.
     and_then (member (task_kind_of (or_text (ms_kind m) (kind_str IO)))) (\<lambda>kind.
       Inr (normalized \<lparr>ts_target = ms_target m,
         ts_payload = payload,
         ts_kind = kind,
         ts_queue = or_text (ms_queue m) ''default'',
         ts_priority = or_number (sint (ms_priority m)) 100,
         ts_delay_seconds = ms_delay_seconds m,
         ts_max_retries = sint (ms_max_retries m),
         ts_retry_backoff_seconds = or_number (ms_retry_backoff_seconds m) (3/2),
         ts_timeout_seconds = or_number (ms_timeout_seconds m) 60,
         ts_affinity = set (ms_affinity m),
         ts_depends_on = set (ms_depends_on m),
         ts_batch_key = text_or_none (ms_batch_key m)\<rparr>)))"

section \<open>Tasks\<close>

definition task_to_proto :: "protobuf \<Rightarrow> task_envelope \<Rightarrow> codec_error + task_message" where
  "task_to_proto pb t =
     and_then (spec_to_proto pb (te_spec t)) (\<lambda>spec.
     and_then (pb_int32 pb (te_attempts t)) (\<lambda>attempts.
       Inr \<lparr>mt_task_id = te_task_id t,
         mt_spec = spec,
         mt_status = status_str (te_status t),
         mt_attempts = attempts,
         mt_assigned_worker = none_or_text (te_assigned_worker t),
         mt_last_error = none_or_text (te_last_error t),
         mt_created_at = te_created_at t,
         mt_available_at = te_available_at t\<rparr>))"

definition task_from_proto :: "protobuf \<Rightarrow> task_message \<Rightarrow> codec_error + task_envelope" where
  "task_from_proto pb m =
     and_then (spec_from_proto pb (mt_spec m)) (\<lambda>spec.
     and_then (member (task_status_of (or_text (mt_status m) (status_str PENDING)))) (\<lambda>status.
       Inr \<lparr>te_spec = spec,
         te_task_id = mt_task_id m,
         te_created_at = mt_created_at m,
         te_available_at = mt_available_at m,
         te_attempts = sint (mt_attempts m),
         te_status = status,
         te_last_error = text_or_none (mt_last_error m),
         te_assigned_worker = text_or_none (mt_assigned_worker m),
         te_lease_deadline = None\<rparr>))"

section \<open>Workers\<close>

definition worker_to_proto :: "protobuf \<Rightarrow> worker_info \<Rightarrow> codec_error + worker_message" where
  "worker_to_proto pb w =
     and_then (pb_int32 pb (wi_pid w)) (\<lambda>pid.
     and_then (pb_int32 pb (wi_capacity w)) (\<lambda>capacity.
     and_then (pb_int32 pb (wi_running_tasks w)) (\<lambda>running.
       Inr \<lparr>mw_worker_id = wi_worker_id w,
         mw_host = wi_host w,
         mw_pid = pid,
         mw_queues = sorted_list_of_set (wi_queues w),
         mw_capacity = capacity,
         mw_labels = sorted_list_of_set (wi_labels w),
         mw_status = worker_status_str (wi_status w),
         mw_running_tasks = running\<rparr>)))"

text \<open>The two time stamps are not transmitted; their default factories read the clock.\<close>

definition worker_from_proto :: "clock \<Rightarrow> worker_message \<Rightarrow> codec_error + worker_info" where
  "worker_from_proto clk m =
     and_then (member (worker_status_of (or_text (mw_status m) (worker_status_str STARTING)))) (\<lambda>status.
       Inr \<lparr>wi_worker_id = mw_worker_id m,
         wi_host = mw_host m,
         wi_pid = sint (mw_pid m),
         wi_queues = set (if mw_queues m = [] then [''default''] else mw_queues m),
         wi_capacity = or_number (sint (mw_capacity m)) 1,
         wi_labels = set (mw_labels m),
         wi_status = status,
         wi_running_tasks = sint (mw_running_tasks m),
         wi_started_at = clk 0,
         wi_last_heartbeat = clk 1\<rparr>)"

section \<open>Results\<close>

definition result_to_proto :: "task_result \<Rightarrow> result_message" where
  "result_to_proto r = \<lparr>mr_task_id = tr_task_id r,
     mr_worker_id = tr_worker_id r,
     mr_status = status_str (tr_status r),
     mr_result_json = dumps (tr_result r),
     mr_error = none_or_text (tr_error r),
     mr_started_at = tr_started_at r,
     mr_finished_at = tr_finished_at r\<rparr>"

definition result_from_proto :: "result_message \<Rightarrow> codec_error + task_result" where
  "result_from_proto m =
     and_then (if mr_result_json m = [] then Inr PNone else loads_or_text (mr_result_json m)) (\<lambda>result.
     and_then (member (task_status_of (or_text (mr_status m) (status_str FAILED)))) (\<lambda>status.
       Inr \<lparr>tr_task_id = mr_task_id m,
         tr_worker_id = mr_worker_id m,
         tr_status = status,
         tr_started_at = mr_started_at m,
         tr_finished_at = mr_finished_at m,
         tr_result = result,
         tr_error = text_or_none (mr_error m)\<rparr>))"

section \<open>The JSON interface\<close>

text \<open>What the codec relies on: a written value reads back, and its text is never empty.\<close>

locale json_text =
  fixes to_text :: "'v \<Rightarrow> string"
    and of_text :: "string \<Rightarrow> 'e + 'v"
    and fits :: "'v \<Rightarrow> bool"
  assumes of_to_text: "fits v \<Longrightarrow> of_text (to_text v) = Inr v"
    and text_not_empty: "to_text v \<noteq> []"
begin

lemma to_text_inj: "fits v \<Longrightarrow> fits w \<Longrightarrow> to_text v = to_text w \<Longrightarrow> v = w"
  using of_to_text by (metis sum.inject(2))

lemma of_text_if: "fits v \<Longrightarrow> (if to_text v = [] then x else of_text (to_text v)) = Inr v"
  using of_to_text text_not_empty by simp

end

interpretation json: json_text dumps loads_or_text json_ok
  by unfold_locales (simp_all add: loads_or_text_def loads_dumps)

text \<open>Reading the payload of a map field, in whatever order its items come.\<close>

lemma read_payload_acc:
  assumes "list_all (\<lambda>(k, v). json_ok v) kvs" "distinct (map fst acc @ map fst kvs)"
  shows "read_payload (map (\<lambda>(k, v). (k, dumps v)) kvs) acc = Inr (acc @ kvs)"
  using assms
proof (induction kvs arbitrary: acc)
  case (Cons kv kvs)
  obtain k v where kv: "kv = (k, v)" by fastforce
  have "dict_set k v acc = acc @ [(k, v)]"
    using Cons.prems(2) kv by (intro dict_set_fresh) (auto simp: map_of_eq_None_iff)
  moreover have "read_payload (map (\<lambda>(k, v). (k, dumps v)) kvs) (acc @ [(k, v)]) = Inr ((acc @ [(k, v)]) @ kvs)"
    by (rule Cons.IH) (use Cons.prems kv in auto)
  ultimately show ?case using Cons.prems kv json.of_to_text [of v] by simp
qed simp

lemma mset_map_eq: "mset ys = mset (map f xs) \<Longrightarrow> \<exists>xs'. mset xs' = mset xs \<and> ys = map f xs'"
proof (induction ys arbitrary: xs)
  case (Cons y ys)
  then have "y \<in> set (map f xs)" by (metis list.set_intros(1) mset_eq_setD)
  then obtain x where x: "x \<in> set xs" "y = f x" by auto
  then have xs: "mset xs = add_mset x (mset (remove1 x xs))" by simp
  then have "add_mset y (mset ys) = image_mset f (add_mset x (mset (remove1 x xs)))"
    using Cons.prems by (metis mset.simps(2) mset_map)
  then have "mset ys = mset (map f (remove1 x xs))"
    unfolding x(2) image_mset_add_mset add_mset_add_mset_same_iff mset_map .
  from Cons.IH [OF this] obtain xs' where xs': "mset xs' = mset (remove1 x xs)" "ys = map f xs'" by blast
  have "mset (x # xs') = mset xs" by (simp only: mset.simps(2) xs'(1) xs [symmetric])
  moreover have "y # ys = map f (x # xs')" using x(2) xs'(2) by simp
  ultimately show ?case by (intro exI conjI)
qed simp

lemma read_payload_items:
  assumes "protobuf_ok pb" "dict_ok p" "list_all (\<lambda>(k, v). json_ok v) p"
  shows "\<exists>p'. mset p' = mset p \<and> read_payload (pb_items pb (map (\<lambda>(k, v). (k, dumps v)) p)) [] = Inr p'"
proof -
  let ?f = "\<lambda>(k, v). (k, dumps v)"
  have "map fst (map ?f p) = map fst p" by (simp add: case_prod_beta comp_def)
  then have "dict_ok (map ?f p)" using assms(2) unfolding dict_ok_def by metis
  then have "mset (pb_items pb (map ?f p)) = mset (map ?f p)" using assms(1) by (simp add: protobuf_ok_def)
  then obtain p' where p': "mset p' = mset p" "pb_items pb (map ?f p) = map ?f p'"
    using mset_map_eq by blast
  have "distinct (map fst p')" using assms(2) p'(1) by (metis dict_ok_def mset_eq_imp_distinct_iff mset_map)
  moreover have "list_all (\<lambda>(k, v). json_ok v) p'" using assms(3) p'(1) by (metis list_all_iff mset_eq_setD)
  ultimately have "read_payload (map ?f p') [] = Inr p'" using read_payload_acc [of p' "[]"] by simp
  then show ?thesis using p' by auto
qed


section \<open>Round trips\<close>

text \<open>An integer field: what can be assigned reads back, the rest is a \<open>ProtoValueError\<close>.\<close>

lemma sint_in_range: "int32_range i \<Longrightarrow> sint (word_of_int i :: 32 word) = i"
  by (simp add: int32_range_def sint_sbintrunc' signed_take_bit_int_eq_self)

lemma pb_int32_eq:
  "protobuf_ok pb \<Longrightarrow> pb_int32 pb i = (if int32_range i then Inr (word_of_int i) else Inl ProtoValueError)"
  by (simp add: protobuf_ok_def)

lemma member_simps [simp]: "member (Some x) = Inr x" "member None = Inl ProtoValueError"
  by (simp_all add: member_def)

lemma none_or_text_back [simp]: "text_or_none (none_or_text x) = (if x = Some [] then None else x)"
  by (cases x) (simp_all add: text_or_none_def none_or_text_def)

lemma or_text_enum [simp]:
  "or_text (kind_str k) t = kind_str k" "or_text (status_str st) t = status_str st"
  "or_text (worker_status_str ws) t = worker_status_str ws"
  by (simp_all add: or_text_def)

text \<open>What the wire makes of a specification: a zero or an empty text is read as "not given".\<close>

definition carried :: "task_spec \<Rightarrow> task_spec" where
  "carried s = s\<lparr>ts_priority := or_number (ts_priority s) 100,
     ts_retry_backoff_seconds := or_number (ts_retry_backoff_seconds s) (3/2),
     ts_batch_key := (if ts_batch_key s = Some [] then None else ts_batch_key s)\<rparr>"

definition payload_ok :: "(string, pyval) dict \<Rightarrow> bool" where
  "payload_ok p \<longleftrightarrow> json_ok (PDict p)"

definition sendable :: "task_spec \<Rightarrow> bool" where
  "sendable s \<longleftrightarrow> spec_ok s \<and> payload_ok (ts_payload s) \<and> finite (ts_affinity s) \<and> finite (ts_depends_on s)"

lemma spec_ok_carried: "spec_ok s \<Longrightarrow> spec_ok (carried s)"
  by (simp add: spec_ok_def carried_def or_number_def)

lemma spec_over_the_wire:
  assumes "protobuf_ok pb" "sendable s" "int32_range (ts_priority s)" "int32_range (ts_max_retries s)"
  shows "\<exists>m p. spec_to_proto pb s = Inr m \<and> mset p = mset (ts_payload s)
     \<and> spec_from_proto pb m = Inr ((carried s)\<lparr>ts_payload := p\<rparr>)"
proof -
  have "dict_ok (ts_payload s)" "list_all (\<lambda>(k, v). json_ok v) (ts_payload s)"
    using assms(2) json_ok_dict [of "ts_payload s"] unfolding sendable_def payload_ok_def by blast+
  from read_payload_items [OF assms(1) this] obtain p where p: "mset p = mset (ts_payload s)"
    "read_payload (pb_items pb (map (\<lambda>(k, v). (k, dumps v)) (ts_payload s))) [] = Inr p" by blast
  have "normalized ((carried s)\<lparr>ts_payload := p\<rparr>) = (carried s)\<lparr>ts_payload := p\<rparr>"
    using assms(2) spec_ok_carried [of s] by (intro normalized_id) (simp add: sendable_def spec_ok_def)
  moreover have "\<lparr>ts_target = ts_target s, ts_payload = p, ts_kind = ts_kind s,
      ts_queue = or_text (ts_queue s) ''default'', ts_priority = or_number (ts_priority s) 100,
      ts_delay_seconds = ts_delay_seconds s, ts_max_retries = ts_max_retries s,
      ts_retry_backoff_seconds = or_number (ts_retry_backoff_seconds s) (3/2),
      ts_timeout_seconds = or_number (ts_timeout_seconds s) 60, ts_affinity = ts_affinity s,
      ts_depends_on = ts_depends_on s, ts_batch_key = text_or_none (none_or_text (ts_batch_key s))\<rparr>
    = (carried s)\<lparr>ts_payload := p\<rparr>"
    using assms(2) by (intro task_spec.equality)
      (auto simp: carried_def sendable_def spec_ok_def or_text_def or_number_def)
  moreover have "finite (ts_affinity s)" "finite (ts_depends_on s)" using assms(2) by (simp_all add: sendable_def)
  ultimately have received: "spec_from_proto pb m = Inr ((carried s)\<lparr>ts_payload := p\<rparr>)"
    if "spec_to_proto pb s = Inr m" for m
    using that assms(1,3,4) p(2) by (auto simp: spec_to_proto_def spec_from_proto_def pb_int32_eq sint_in_range)
  moreover obtain m where "spec_to_proto pb s = Inr m" using assms by (auto simp: spec_to_proto_def pb_int32_eq)
  ultimately show ?thesis using p(1) by blast
qed

end
