(* ===== verification/Codec_Props.thy ===== *)
theory Codec_Props
  imports Codec
begin

text \<open>
  What survives the translation to a message and back, and what does not.
\<close>

section \<open>A concrete runtime\<close>

definition demo_protobuf :: protobuf where
  "demo_protobuf = \<lparr>pb_int32 = (\<lambda>i. if int32_range i then Inr (word_of_int i) else Inl ProtoValueError), pb_items = rev\<rparr>"

lemma protobuf_ok_demo: "protobuf_ok demo_protobuf"
  by (simp add: protobuf_ok_def demo_protobuf_def)

definition demo_spec :: task_spec where
  "demo_spec = (default_spec ''jobs.py:run'')\<lparr>ts_payload := [(''url'', PStr ''a b''), (''n'', PList [PInt (- 4), PNone])],
     ts_priority := 0, ts_affinity := {''gpu''}\<rparr>"

lemma sendable_demo: "sendable demo_spec"
  by (simp add: sendable_def spec_ok_def demo_spec_def default_spec_def payload_ok_def dict_ok_def int_ok_small)

section \<open>Specifications\<close>

text \<open>
  C31. A normalised specification with a JSON payload and 32-bit priority and retry budget comes back from
  its message as it was, the payload possibly in another order, except for three values: priority 0, the
  most urgent one, becomes 100, a retry backoff of 0 becomes 1.5, and an empty batch key becomes none.  A
  priority or a budget beyond 32 bits is a \<open>ProtoValueError\<close> and nothing is sent.
\<close>
theorem spec_roundtrip:
  assumes "protobuf_ok pb" and "sendable s"
  shows "case spec_to_proto pb s of
      Inl x \<Rightarrow> x = ProtoValueError \<and> \<not> (int32_range (ts_priority s) \<and> int32_range (ts_max_retries s))
    | Inr m \<Rightarrow> int32_range (ts_priority s) \<and> int32_range (ts_max_retries s) \<and>
        (\<exists>p. mset p = mset (ts_payload s) \<and> spec_from_proto pb m = Inr (s\<lparr>ts_payload := p,
           ts_priority := (if ts_priority s = 0 then 100 else ts_priority s),
           ts_retry_backoff_seconds := (if ts_retry_backoff_seconds s = 0 then 3/2 else ts_retry_backoff_seconds s),
           ts_batch_key := (if ts_batch_key s = Some [] then None else ts_batch_key s)\<rparr>))"
proof (cases "int32_range (ts_priority s) \<and> int32_range (ts_max_retries s)")
  case True
  then show ?thesis
    using spec_over_the_wire [OF assms] by (force simp: carried_def or_number_def)
next
  case False
  then have "spec_to_proto pb s = Inl ProtoValueError" using assms(1) by (simp add: spec_to_proto_def pb_int32_eq)
  then show ?thesis using False by simp
qed

theorem spec_roundtrip_witness:
  "\<exists>m r. spec_to_proto demo_protobuf demo_spec = Inr m \<and> spec_from_proto demo_protobuf m = Inr r \<and> ts_priority r = 100"
proof -
  have range: "int32_range (ts_priority demo_spec)" "int32_range (ts_max_retries demo_spec)"
    and zero: "ts_priority demo_spec = 0"
    by (simp_all add: demo_spec_def default_spec_def int32_range_def)
  show ?thesis
    using spec_roundtrip [OF protobuf_ok_demo sendable_demo] range zero by (fastforce split: sum.splits)
qed

section \<open>Whatever arrives\<close>

lemma loads_or_text_cases:
  "case loads_or_text s of Inr v \<Rightarrow> loads s = Inr v \<or> loads s = Inl JSONDecodeError \<and> v = PStr s
    | Inl ProtoValueError \<Rightarrow> loads s = Inl IntTooLong | Inl ValueNotModelled \<Rightarrow> loads s = Inl NotModelled"
  using loads_total [of s] by (auto simp: loads_or_text_def split: sum.split json_error.split)

text \<open>The values that are read: JSON, or no JSON at all.\<close>

definition readable :: "string \<Rightarrow> bool" where
  "readable s \<longleftrightarrow> loads s \<notin> {Inl IntTooLong, Inl NotModelled}"

lemma read_payload_readable: "read_payload kvs acc = Inr p \<Longrightarrow> \<forall>v \<in> snd ` set kvs. readable v"
proof (induction kvs acc rule: read_payload.induct)
  case (2 k v kvs acc)
  obtain w where "loads_or_text v = Inr w" using 2(2) by (auto simp: and_then_Inr)
  then have "readable v" using loads_or_text_cases [of v] by (auto simp: readable_def)
  then show ?case using 2 by (auto simp: and_then_Inr)
qed simp

lemma read_payload_keys:
  "read_payload kvs acc = Inr p \<Longrightarrow> dict_ok acc \<Longrightarrow> dict_ok p \<and> fst ` set p = fst ` set acc \<union> fst ` set kvs"
proof (induction kvs acc arbitrary: p rule: read_payload.induct)
  case (2 k v kvs acc)
  obtain w where w: "loads_or_text v = Inr w" using 2(2) by (auto simp: and_then_Inr)
  have "dict_ok p \<and> fst ` set p = fst ` set (dict_set k w acc) \<union> fst ` set kvs"
    by (rule 2(1)) (use 2(2,3) w in simp_all)
  then show ?case by (simp add: dom_update insert_commute)
qed simp

lemma read_payload_error:
  "read_payload kvs acc = Inl x \<Longrightarrow>
     \<exists>v \<in> snd ` set kvs. loads v = Inl (case x of ProtoValueError \<Rightarrow> IntTooLong | ValueNotModelled \<Rightarrow> NotModelled)"
proof (induction kvs acc rule: read_payload.induct)
  case (2 k v kvs acc)
  then show ?case using loads_or_text_cases [of v] by (cases "loads_or_text v") (auto split: codec_error.splits)
qed simp

text \<open>
  C32. Decoding is safe on every message, sent by this client or not: it gives a well-formed specification
  (normalised, its integers within 32 bits, the payload with exactly the keys of the message, each
  once) exactly when the kind is known or not given and every payload value is JSON or no JSON at all.  It raises
  \<open>ValueError\<close> only for a kind that is given and unknown or for a payload value with an integer of more than 4300
  digits.  A value whose reading the model leaves open (nested more than 500 times, a character beyond
  255, \<open>NaN\<close>, \<open>Infinity\<close>) is a third outcome, \<open>ValueNotModelled\<close>, and only such a value gives it.
\<close>
theorem decoded_well_typed:
  assumes "protobuf_ok pb" and "dict_ok (ms_payload m)"
  shows "case spec_from_proto pb m of
      Inr s \<Rightarrow> spec_ok s \<and> int32_range (ts_priority s) \<and> int32_range (ts_max_retries s)
        \<and> dict_ok (ts_payload s) \<and> fst ` set (ts_payload s) = fst ` set (ms_payload m)
        \<and> finite (ts_affinity s) \<and> finite (ts_depends_on s)
        \<and> (ms_kind m = [] \<and> ts_kind s = IO \<or> task_kind_of (ms_kind m) = Some (ts_kind s))
        \<and> (\<forall>v \<in> snd ` set (ms_payload m). readable v)
    | Inl ProtoValueError \<Rightarrow> ms_kind m \<noteq> [] \<and> task_kind_of (ms_kind m) = None
        \<or> (\<exists>v \<in> snd ` set (ms_payload m). loads v = Inl IntTooLong)
    | Inl ValueNotModelled \<Rightarrow> (\<exists>v \<in> snd ` set (ms_payload m). loads v = Inl NotModelled)"
proof (cases "read_payload (pb_items pb (ms_payload m)) []")
  case (Inl x)
  have "set (pb_items pb (ms_payload m)) = set (ms_payload m)" using assms by (metis protobuf_ok_def mset_eq_setD)
  then show ?thesis using read_payload_error [OF Inl] Inl by (cases x) (simp_all add: spec_from_proto_def)
next
  case (Inr p)
  have items: "set (pb_items pb (ms_payload m)) = set (ms_payload m)" using assms by (metis protobuf_ok_def mset_eq_setD)
  have range: "int32_range (max 0 (or_number (sint w) 100))" "int32_range (max 0 (sint w))" for w :: "32 word"
    using sint_ge [of w] sint_lt [of w] by (auto simp: int32_range_def or_number_def)
  show ?thesis
  proof (cases "task_kind_of (or_text (ms_kind m) (kind_str IO))")
    case None
    then have "ms_kind m \<noteq> [] \<and> task_kind_of (ms_kind m) = None" by (auto simp: or_text_def simp del: kind_str.simps split: if_splits)
    then show ?thesis using None Inr by (simp add: spec_from_proto_def)
  next
    case (Some k)
    then have "ms_kind m = [] \<and> k = IO \<or> task_kind_of (ms_kind m) = Some k"
      by (auto simp: or_text_def simp del: kind_str.simps split: if_splits)
    moreover obtain s where s: "spec_from_proto pb m = Inr s" "ts_payload s = p" "ts_kind s = k" "spec_ok s"
      "ts_priority s = max 0 (or_number (sint (ms_priority m)) 100)" "ts_max_retries s = max 0 (sint (ms_max_retries m))"
      "finite (ts_affinity s)" "finite (ts_depends_on s)"
      using Inr Some spec_ok_normalized by (simp add: spec_from_proto_def) (simp add: normalized_def)
    ultimately show ?thesis using read_payload_keys [OF Inr] read_payload_readable [OF Inr] items range by simp
  qed
qed

theorem decoded_well_typed_witness:
  "\<exists>s. spec_from_proto demo_protobuf \<lparr>ms_target = [], ms_payload = [(''a'', ''not json'')], ms_kind = [], ms_queue = [],
       ms_priority = - 1, ms_delay_seconds = 0, ms_max_retries = 0, ms_retry_backoff_seconds = 0, ms_timeout_seconds = 0,
       ms_affinity = [], ms_depends_on = [], ms_batch_key = []\<rparr> = Inr s \<and> spec_ok s"
proof -
  let ?m = "\<lparr>ms_target = [], ms_payload = [(''a'', ''not json'')], ms_kind = [], ms_queue = [],
       ms_priority = - 1, ms_delay_seconds = 0, ms_max_retries = 0, ms_retry_backoff_seconds = 0, ms_timeout_seconds = 0,
       ms_affinity = [], ms_depends_on = [], ms_batch_key = []\<rparr> :: spec_message"
  have "dict_ok (ms_payload ?m)" by (simp add: dict_ok_def)
  moreover have "loads ''not json'' = Inl JSONDecodeError" by code_simp
  ultimately show ?thesis
    using decoded_well_typed [OF protobuf_ok_demo, of ?m]
    by (auto split: sum.splits codec_error.splits)
qed

section \<open>Tasks, workers and results\<close>

definition task_sendable :: "task_envelope \<Rightarrow> bool" where
  "task_sendable t \<longleftrightarrow> sendable (te_spec t) \<and> int32_range (ts_priority (te_spec t))
     \<and> int32_range (ts_max_retries (te_spec t)) \<and> int32_range (te_attempts t)"

definition carried_task :: "(string, pyval) dict \<Rightarrow> task_envelope \<Rightarrow> task_envelope" where
  "carried_task p t = t\<lparr>te_spec := (carried (te_spec t))\<lparr>ts_payload := p\<rparr>, te_lease_deadline := None,
     te_last_error := (if te_last_error t = Some [] then None else te_last_error t),
     te_assigned_worker := (if te_assigned_worker t = Some [] then None else te_assigned_worker t)\<rparr>"

lemma task_over_the_wire:
  assumes "protobuf_ok pb" "task_sendable t"
  shows "\<exists>m p. task_to_proto pb t = Inr m \<and> mset p = mset (ts_payload (te_spec t))
     \<and> task_from_proto pb m = Inr (carried_task p t)"
proof -
  from assms obtain m p where m: "spec_to_proto pb (te_spec t) = Inr m" "mset p = mset (ts_payload (te_spec t))"
    "spec_from_proto pb m = Inr ((carried (te_spec t))\<lparr>ts_payload := p\<rparr>)"
    using spec_over_the_wire [of pb "te_spec t"] by (auto simp: task_sendable_def)
  obtain msg where msg: "task_to_proto pb t = Inr msg"
    using m(1) assms by (auto simp: task_to_proto_def pb_int32_eq task_sendable_def)
  then have "task_from_proto pb msg = Inr (carried_task p t)"
    using m assms by (auto simp: task_to_proto_def task_from_proto_def pb_int32_eq sint_in_range
        task_sendable_def carried_task_def intro!: task_envelope.equality)
  then show ?thesis using m(2) msg by blast
qed

definition worker_sendable :: "worker_info \<Rightarrow> bool" where
  "worker_sendable w \<longleftrightarrow> int32_range (wi_pid w) \<and> int32_range (wi_capacity w) \<and> int32_range (wi_running_tasks w)
     \<and> finite (wi_queues w) \<and> finite (wi_labels w)"

definition carried_worker :: "clock \<Rightarrow> worker_info \<Rightarrow> worker_info" where
  "carried_worker clk w = w\<lparr>wi_queues := (if wi_queues w = {} then {''default''} else wi_queues w),
     wi_capacity := or_number (wi_capacity w) 1, wi_started_at := clk 0, wi_last_heartbeat := clk 1\<rparr>"

lemma worker_over_the_wire:
  assumes "protobuf_ok pb" "worker_sendable w"
  shows "\<exists>m. worker_to_proto pb w = Inr m \<and> worker_from_proto clk m = Inr (carried_worker clk w)"
proof -
  obtain m where m: "worker_to_proto pb w = Inr m"
    using assms by (auto simp: worker_to_proto_def pb_int32_eq worker_sendable_def)
  then have "worker_from_proto clk m = Inr (carried_worker clk w)"
    using assms by (auto simp: worker_to_proto_def worker_from_proto_def pb_int32_eq sint_in_range
        worker_sendable_def carried_worker_def intro!: worker_info.equality)
  then show ?thesis using m by blast
qed

text \<open>
  A result whose value is JSON comes back from its message exactly as it was, whatever its status,
  except that an empty error text becomes none.
\<close>
theorem result_roundtrip:
  assumes "json_ok (tr_result r)"
  shows "result_from_proto (result_to_proto r)
     = Inr (r\<lparr>tr_error := (if tr_error r = Some [] then None else tr_error r)\<rparr>)"
  using json.of_text_if [OF assms, of "Inr PNone"]
  by (auto simp: result_from_proto_def result_to_proto_def intro!: task_result.equality)

theorem result_roundtrip_witness:
  "result_from_proto (result_to_proto \<lparr>tr_task_id = ''task-1'', tr_worker_id = ''w'', tr_status = SUCCEEDED,
       tr_started_at = 1, tr_finished_at = 2, tr_result = PDict [(''ok'', PBool True), (''s'', PStr ''text'')], tr_error = Some ''''\<rparr>)
     = Inr \<lparr>tr_task_id = ''task-1'', tr_worker_id = ''w'', tr_status = SUCCEEDED,
       tr_started_at = 1, tr_finished_at = 2, tr_result = PDict [(''ok'', PBool True), (''s'', PStr ''text'')], tr_error = None\<rparr>"
  by (subst result_roundtrip) (simp_all add: dict_ok_def)

end
