(* ===== verification/Events.thy ===== *)
theory Events
  imports Models "HOL-Library.Sublist"
begin

text \<open>
  \<open>taskrunner/shared/events.py\<close>: the in-process event bus.  A subscription is an asynchronous
  generator: the part of the history it has still to yield and its bounded \<open>asyncio.Queue\<close>.  The
  sections under the bus's lock contain no \<open>await\<close>, so each operation is one atomic step.
\<close>

section \<open>The bus\<close>

record subscription =
  sb_history :: "cluster_event list"
  sb_queue :: "cluster_event list"

record event_bus =
  eb_replay_size :: nat
  eb_replay :: "cluster_event list"
  eb_subscribers :: "(nat, subscription) dict"

definition new_bus :: "nat \<Rightarrow> event_bus" where
  "new_bus n = \<lparr>eb_replay_size = n, eb_replay = [], eb_subscribers = []\<rparr>"

definition queue_maxsize :: nat where
  "queue_maxsize = 1000"

text \<open>Appending to a \<open>deque(maxlen=n)\<close> discards from the other end.\<close>

definition last_n :: "nat \<Rightarrow> 'a list \<Rightarrow> 'a list" where
  "last_n n xs = drop (length xs - n) xs"

text \<open>\<open>put_nowait\<close> raises \<open>QueueFull\<close> on a full queue, which \<open>publish\<close> suppresses.\<close>

definition put_nowait :: "cluster_event \<Rightarrow> subscription \<Rightarrow> subscription" where
  "put_nowait e sb = (if length (sb_queue sb) \<ge> queue_maxsize then sb
                      else sb\<lparr>sb_queue := sb_queue sb @ [e]\<rparr>)"

definition publish :: "cluster_event \<Rightarrow> event_bus \<Rightarrow> event_bus" where
  "publish e b = b\<lparr>eb_replay := last_n (eb_replay_size b) (eb_replay b @ [e]),
                   eb_subscribers := map (\<lambda>(i, sb). (i, put_nowait e sb)) (eb_subscribers b)\<rparr>"

definition subscribe :: "nat \<Rightarrow> bool \<Rightarrow> event_bus \<Rightarrow> event_bus" where
  "subscribe i replay b = b\<lparr>eb_subscribers :=
     dict_set i \<lparr>sb_history = (if replay then eb_replay b else []), sb_queue = []\<rparr> (eb_subscribers b)\<rparr>"

text \<open>\<open>None\<close>: the generator waits in \<open>queue.get()\<close>.\<close>

definition take_event :: "subscription \<Rightarrow> cluster_event option \<times> subscription" where
  "take_event sb =
     (case sb_history sb of
        e # es \<Rightarrow> (Some e, sb\<lparr>sb_history := es\<rparr>)
      | [] \<Rightarrow> (case sb_queue sb of
                 e # es \<Rightarrow> (Some e, sb\<lparr>sb_queue := es\<rparr>)
               | [] \<Rightarrow> (None, sb)))"

definition next_event :: "nat \<Rightarrow> event_bus \<Rightarrow> cluster_event option \<times> event_bus" where
  "next_event i b =
     (case dict_get (eb_subscribers b) i of
        None \<Rightarrow> (None, b)
      | Some sb \<Rightarrow> (let (e, sb') = take_event sb
                    in (e, b\<lparr>eb_subscribers := dict_set i sb' (eb_subscribers b)\<rparr>)))"

definition unsubscribe :: "nat \<Rightarrow> event_bus \<Rightarrow> event_bus" where
  "unsubscribe i b = b\<lparr>eb_subscribers := dict_del i (eb_subscribers b)\<rparr>"

section \<open>Runs\<close>

datatype bus_call =
    Publish cluster_event | Subscribe nat bool | Next nat | Unsubscribe nat

fun do_call :: "bus_call \<Rightarrow> event_bus \<Rightarrow> (nat \<times> cluster_event) list \<times> event_bus" where
  "do_call (Publish e) b = ([], publish e b)"
| "do_call (Subscribe i r) b = ([], subscribe i r b)"
| "do_call (Next i) b = (case next_event i b of (None, b') \<Rightarrow> ([], b') | (Some e, b') \<Rightarrow> ([(i, e)], b'))"
| "do_call (Unsubscribe i) b = ([], unsubscribe i b)"

fun run_bus :: "bus_call list \<Rightarrow> event_bus \<Rightarrow> (nat \<times> cluster_event) list \<times> event_bus" where
  "run_bus [] b = ([], b)"
| "run_bus (c # cs) b = (let r = do_call c b; rest = run_bus cs (snd r) in (fst r @ fst rest, snd rest))"

definition received :: "nat \<Rightarrow> (nat \<times> cluster_event) list \<Rightarrow> cluster_event list" where
  "received i out = map snd (filter (\<lambda>x. fst x = i) out)"

fun published :: "bus_call list \<Rightarrow> cluster_event list" where
  "published [] = []"
| "published (Publish e # cs) = e # published cs"
| "published (_ # cs) = published cs"

text \<open>The calls in which a subscription stays as it is: no \<open>Subscribe\<close> or \<open>Unsubscribe\<close> of its own.\<close>

definition keeps_subscription :: "nat \<Rightarrow> bus_call list \<Rightarrow> bool" where
  "keeps_subscription i cs \<longleftrightarrow> (\<forall>c \<in> set cs. c \<noteq> Unsubscribe i \<and> (\<forall>r. c \<noteq> Subscribe i r))"

section \<open>Lemmas\<close>

lemma last_n_length [simp]: "length (last_n n xs) = min n (length xs)"
  by (simp add: last_n_def)

lemma last_n_append: "last_n n (last_n n xs @ ys) = last_n n (xs @ ys)"
  by (cases "length xs \<le> n") (simp_all add: last_n_def add.commute)

lemma last_n_id: "length xs \<le> n \<Longrightarrow> last_n n xs = xs"
  by (simp add: last_n_def)

lemma map_of_map_value: "map_of (map (\<lambda>(i, x). (i, f x)) xs) k = map_option f (map_of xs k)"
  by (induction xs) auto

abbreviation sub_of :: "nat \<Rightarrow> event_bus \<Rightarrow> subscription option" where
  "sub_of i b \<equiv> dict_get (eb_subscribers b) i"

lemma sub_of_publish [simp]: "sub_of i (publish e b) = map_option (put_nowait e) (sub_of i b)"
  by (simp add: publish_def map_of_map_value)

lemma sub_of_subscribe [simp]: "sub_of i (subscribe j r b) = (if i = j then
    Some \<lparr>sb_history = (if r then eb_replay b else []), sb_queue = []\<rparr> else sub_of i b)"
  by (simp add: subscribe_def)

lemma sub_of_next: "sub_of i (snd (next_event j b)) =
    (if i = j then map_option (snd \<circ> take_event) (sub_of i b) else sub_of i b)"
  by (auto simp: next_event_def split: option.split prod.split)

lemma sub_of_unsubscribe [simp]: "sub_of i (unsubscribe j b) = (if i = j then None else sub_of i b)"
  by (simp add: unsubscribe_def)

lemma fst_next: "fst (next_event i b) = Option.bind (sub_of i b) (fst \<circ> take_event)"
  by (auto simp: next_event_def split: option.split prod.split)

lemma replay_frame [frame_simps]:
  "eb_replay (subscribe i r b) = eb_replay b" "eb_replay (snd (next_event i b)) = eb_replay b"
  "eb_replay (unsubscribe i b) = eb_replay b" "eb_replay_size (publish e b) = eb_replay_size b"
  "eb_replay_size (subscribe i r b) = eb_replay_size b"
  "eb_replay_size (snd (next_event i b)) = eb_replay_size b"
  "eb_replay_size (unsubscribe i b) = eb_replay_size b"
  by (auto simp: subscribe_def next_event_def unsubscribe_def publish_def split: option.split prod.split)

lemma do_call_next: "do_call (Next i) b = ((case fst (next_event i b) of None \<Rightarrow> [] | Some e \<Rightarrow> [(i, e)]), snd (next_event i b))"
  by (simp split: prod.split option.split)

text \<open>Taking an event moves it from the subscription to the reader.\<close>

definition pending :: "subscription \<Rightarrow> cluster_event list" where
  "pending sb = sb_history sb @ sb_queue sb"

lemma take_event_cases:
  "(pending sb = [] \<and> take_event sb = (None, sb))
   \<or> (\<exists>e sb'. take_event sb = (Some e, sb') \<and> pending sb = e # pending sb'
        \<and> length (sb_queue sb') \<le> length (sb_queue sb))"
  by (auto simp: take_event_def pending_def split: list.split)

lemma put_nowait_cases:
  "pending (put_nowait e sb) = pending sb @ [e]
   \<or> queue_maxsize \<le> length (sb_queue sb) \<and> put_nowait e sb = sb"
  by (auto simp: put_nowait_def pending_def)

end
