(* ===== verification/Engine.thy ===== *)
theory Engine
  imports Broker Store Events Locks Config
begin

text \<open>
  \<open>taskrunner/scheduler/engine.py\<close>: the scheduler, which owns a queue, a store, an event bus, a lock
  manager and the registered workers.

  The handlers run on one event loop.  Apart from \<open>asyncio.to_thread\<close> none of their awaits suspends:
  the locks they take are free whenever the loop runs another coroutine (\<open>Engine_Inv\<close> proves it), so
  a handler is one atomic step of the loop.  The queue, however, is also used by the threads that
  \<open>to_thread\<close> starts.  A handler that touches the queue more than once therefore meets whatever these
  threads do in between: the \<open>gap\<close>s of its definition.

  Envelopes and worker descriptions are objects at addresses; a new object gets the next free address.
\<close>

section \<open>State\<close>

datatype engine_error = QueueError broker_error | StoreError store_error | LockTimeout

record engine =
  en_config :: settings
  en_queue :: broker
  en_store :: store
  en_bus :: event_bus
  en_locks :: locks
  en_workers :: "(string, addr) dict"
  en_wobjs :: "addr \<Rightarrow> worker_info"
  en_completed :: "string set"
  en_results :: "(string, task_result) dict"
  en_drain :: bool
  en_background :: "string list"
  en_services :: bool
  en_next :: addr
  en_wnext :: addr

text \<open>\<open>SchedulerEngine(config)\<close> on a store that was opened before it; \<open>os\<close> and \<open>ws\<close> are the
  contents of memory that no object occupies yet.\<close>

definition new_engine :: "settings \<Rightarrow> store \<Rightarrow> (addr \<Rightarrow> task_envelope) \<Rightarrow> (addr \<Rightarrow> worker_info) \<Rightarrow> engine" where
  "new_engine cfg s os ws = \<lparr>en_config = cfg, en_queue = new_broker (st_max_queue_depth cfg) os,
     en_store = s, en_bus = new_bus 1000, en_locks = [], en_workers = [], en_wobjs = ws,
     en_completed = {}, en_results = [], en_drain = False, en_background = [], en_services = False,
     en_next = 0, en_wnext = 0\<rparr>"

section \<open>Threads\<close>

text \<open>What a worker thread may do to the queue: a poll of a waiting \<open>reserve\<close>, or a requeue pass.\<close>

datatype thread_step =
    ThreadPoll clock "string list" worker_info "string set" seconds
  | ThreadRequeue clock

fun run_thread :: "thread_step \<Rightarrow> broker \<Rightarrow> broker" where
  "run_thread (ThreadPoll clk order w completed lease) q = snd (reserve_poll clk order w completed lease q)"
| "run_thread (ThreadRequeue clk) q = snd (requeue_expired_leases clk q)"

text \<open>
  What a handler gets from outside: the readings of \<open>time()\<close>, the values of \<open>uuid4().hex\<close>, and what
  the threads do in each of its gaps.  Readings are numbered along the longest path through the handler;
  a branch that reads less often leaves its numbers unused.
\<close>

record io =
  io_clk :: clock
  io_hex :: "nat \<Rightarrow> string"
  io_threads :: "nat \<Rightarrow> thread_step list"

definition gap :: "io \<Rightarrow> nat \<Rightarrow> engine \<Rightarrow> engine" where
  "gap io n e = e\<lparr>en_queue := fold run_thread (io_threads io n) (en_queue e)\<rparr>"

section \<open>Steps the handlers share\<close>

definition task_at :: "engine \<Rightarrow> addr \<Rightarrow> task_envelope" where
  "task_at e a = objs (en_queue e) a"

definition save_task :: "seconds \<Rightarrow> addr \<Rightarrow> task_result option \<Rightarrow> engine \<Rightarrow> (engine_error + unit) \<times> engine" where
  "save_task now a res e =
     (case upsert_task now (task_at e a) res (en_store e) of
        (Inl x, s) \<Rightarrow> (Inl (StoreError x), e\<lparr>en_store := s\<rparr>)
      | (Inr _, s) \<Rightarrow> (Inr (), e\<lparr>en_store := s\<rparr>))"

definition save_worker :: "addr \<Rightarrow> engine \<Rightarrow> (engine_error + unit) \<times> engine" where
  "save_worker wa e =
     (case upsert_worker (en_wobjs e wa) (en_store e) of
        (Inl x, s) \<Rightarrow> (Inl (StoreError x), e\<lparr>en_store := s\<rparr>)
      | (Inr _, s) \<Rightarrow> (Inr (), e\<lparr>en_store := s\<rparr>))"

definition announce ::
    "io \<Rightarrow> nat \<Rightarrow> nat \<Rightarrow> event_type \<Rightarrow> (string, pyval) dict \<Rightarrow> engine \<Rightarrow> engine" where
  "announce io h n ty payload e =
     e\<lparr>en_bus := publish (new_event (io_hex io h) (io_clk io n) ty payload) (en_bus e)\<rparr>"

definition upd_worker :: "addr \<Rightarrow> (worker_info \<Rightarrow> worker_info) \<Rightarrow> engine \<Rightarrow> engine" where
  "upd_worker wa f e = e\<lparr>en_wobjs := (en_wobjs e)(wa := f (en_wobjs e wa))\<rparr>"

text \<open>A new envelope object.\<close>

definition alloc_task :: "task_envelope \<Rightarrow> engine \<Rightarrow> addr \<times> engine" where
  "alloc_task t e = (en_next e, e\<lparr>en_next := Suc (en_next e),
     en_queue := (en_queue e)\<lparr>objs := (objs (en_queue e))(en_next e := t)\<rparr>\<rparr>)"

section \<open>Submitting\<close>

text \<open>
  The body of \<open>submit\<close> under the lock.  Creating the envelope reads the clock twice, \<open>queue.submit\<close>
  twice, \<open>upsert_task\<close> once.
\<close>

definition submit_locked :: "io \<Rightarrow> task_spec \<Rightarrow> engine \<Rightarrow> (engine_error + addr) \<times> engine" where
  "submit_locked io spec e =
     (let (a, e1) = alloc_task (new_envelope (io_hex io 0) (io_clk io) (normalized spec)) e
      in case submit (later 2 (io_clk io)) a (en_queue e1) of
           (Inl x, q) \<Rightarrow> (Inl (QueueError x), e1\<lparr>en_queue := q\<rparr>)
         | (Inr b, q) \<Rightarrow>
             (case save_task (io_clk io 4) b None (gap io 0 (e1\<lparr>en_queue := q\<rparr>)) of
                (Inl x, e2) \<Rightarrow> (Inl x, e2)
              | (Inr _, e2) \<Rightarrow> (Inr b, e2)))"

text \<open>
  \<open>submit\<close>: \<open>async with self.locks.acquire("queue:...")\<close> releases the lock on every way out.  When the
  lock is not free the call waits; \<open>LockTimeout\<close> is the end of an unsuccessful wait.
\<close>

definition submit_task :: "io \<Rightarrow> task_spec \<Rightarrow> engine \<Rightarrow> (engine_error + addr) \<times> engine" where
  "submit_task io spec e =
     (let key = ''queue:'' @ ts_queue spec; (got, m) = lock_op (Request 0 key) (en_locks e)
      in if got \<noteq> Entered
         then (Inl LockTimeout,
               e\<lparr>en_locks := snd (lock_op (Resume 0 key) (snd (lock_op (Expire 0 key) m)))\<rparr>)
         else
           let (r, e1) = submit_locked io spec (e\<lparr>en_locks := m\<rparr>);
               e2 = e1\<lparr>en_locks := snd (lock_op (Leave 0 key) (en_locks e1))\<rparr>
           in case r of
                Inl x \<Rightarrow> (Inl x, e2)
              | Inr a \<Rightarrow>
                  (Inr a, (announce io 1 5 TASK_SUBMITTED
                     [(''task_id'', PStr (te_task_id (task_at e2 a))),
                      (''queue'', PStr (ts_queue (te_spec (task_at e2 a))))] e2)\<lparr>en_drain := True\<rparr>))"

text \<open>\<open>[TaskEnvelope(spec=spec.normalized()) for spec in specs]\<close>\<close>

fun alloc_tasks :: "io \<Rightarrow> nat \<Rightarrow> task_spec list \<Rightarrow> engine \<Rightarrow> addr list \<times> engine" where
  "alloc_tasks io i [] e = ([], e)"
| "alloc_tasks io i (s # ss) e =
     (let (a, e1) = alloc_task (new_envelope (io_hex io i) (later (2 * i) (io_clk io)) (normalized s)) e;
          (as, e2) = alloc_tasks io (Suc i) ss e1
      in (a # as, e2))"

text \<open>\<open>for task in submitted: self.store.upsert_task(task)\<close>, from the \<open>n\<close>th reading of the clock on.\<close>

fun save_tasks :: "io \<Rightarrow> nat \<Rightarrow> addr list \<Rightarrow> engine \<Rightarrow> (engine_error + unit) \<times> engine" where
  "save_tasks io n [] e = (Inr (), e)"
| "save_tasks io n (a # as) e =
     (case save_task (io_clk io n) a None (gap io n e) of
        (Inl x, e1) \<Rightarrow> (Inl x, e1)
      | (Inr _, e1) \<Rightarrow> save_tasks io (Suc n) as e1)"

definition submit_batch :: "io \<Rightarrow> task_spec list \<Rightarrow> engine \<Rightarrow> (engine_error + addr list) \<times> engine" where
  "submit_batch io specs e =
     (let k = length specs; (as, e1) = alloc_tasks io 0 specs e
      in case submit_many (later (2 * k) (io_clk io)) as (en_queue e1) of
           (Inl x, q) \<Rightarrow> (Inl (QueueError x), e1\<lparr>en_queue := q\<rparr>)
         | (Inr bs, q) \<Rightarrow>
             (case save_tasks io (4 * k) bs (e1\<lparr>en_queue := q\<rparr>) of
                (Inl x, e2) \<Rightarrow> (Inl x, e2)
              | (Inr _, e2) \<Rightarrow>
                  (Inr bs, (announce io k (5 * k) TASK_SUBMITTED
                     [(''batch_size'', PInt (int (length bs)))] e2)\<lparr>en_drain := True\<rparr>)))"

section \<open>Workers\<close>

definition register_worker :: "io \<Rightarrow> worker_info \<Rightarrow> engine \<Rightarrow> (engine_error + addr) \<times> engine" where
  "register_worker io w e =
     (let wa = en_wnext e;
          e1 = e\<lparr>en_wnext := Suc wa,
                 en_wobjs := (en_wobjs e)(wa := w\<lparr>wi_status := IDLE, wi_last_heartbeat := io_clk io 0\<rparr>),
                 en_workers := dict_set (wi_worker_id w) wa (en_workers e)\<rparr>
      in case save_worker wa e1 of
           (Inl x, e2) \<Rightarrow> (Inl x, e2)
         | (Inr _, e2) \<Rightarrow>
             (Inr wa, (announce io 0 1 WORKER_REGISTERED
                [(''worker_id'', PStr (wi_worker_id w))] e2)\<lparr>en_drain := True\<rparr>))"

definition heartbeat :: "io \<Rightarrow> string \<Rightarrow> int \<Rightarrow> engine \<Rightarrow> (engine_error + addr option) \<times> engine" where
  "heartbeat io wid running e =
     (case dict_get (en_workers e) wid of
        None \<Rightarrow> (Inr None, e)
      | Some wa \<Rightarrow>
          (let e1 = upd_worker wa (\<lambda>w. w\<lparr>wi_last_heartbeat := io_clk io 0, wi_running_tasks := running,
                                       wi_status := (if running \<noteq> 0 then BUSY else IDLE)\<rparr>) e
           in case save_worker wa e1 of
                (Inl x, e2) \<Rightarrow> (Inl x, e2)
              | (Inr _, e2) \<Rightarrow>
                  (Inr (Some wa), announce io 0 1 WORKER_HEARTBEAT
                     [(''worker_id'', PStr (wi_worker_id (en_wobjs e2 wa))),
                      (''running_tasks'', PInt running)] e2)))"

section \<open>Reserving\<close>

text \<open>\<open>reserve_task\<close> up to \<open>asyncio.to_thread\<close>: the worker object the thread will use.\<close>

definition reserve_begin :: "string \<Rightarrow> engine \<Rightarrow> addr option" where
  "reserve_begin wid e =
     (case dict_get (en_workers e) wid of
        None \<Rightarrow> None
      | Some wa \<Rightarrow> if wi_status (en_wobjs e wa) = OFFLINE then None else Some wa)"

text \<open>\<open>reserve_task\<close> after the thread has returned the task at \<open>a\<close>.\<close>

definition reserve_finish ::
    "io \<Rightarrow> string \<Rightarrow> addr \<Rightarrow> addr \<Rightarrow> engine \<Rightarrow> (engine_error + addr option) \<times> engine" where
  "reserve_finish io wid wa a e =
     (let e1 = upd_worker wa (\<lambda>w. w\<lparr>wi_running_tasks := wi_running_tasks w + 1, wi_status := BUSY\<rparr>) e
      in case save_worker wa e1 of
           (Inl x, e2) \<Rightarrow> (Inl x, e2)
         | (Inr _, e2) \<Rightarrow>
             (case save_task (io_clk io 0) a None (gap io 0 e2) of
                (Inl x, e3) \<Rightarrow> (Inl x, e3)
              | (Inr _, e3) \<Rightarrow>
                  (Inr (Some a), announce io 0 1 TASK_DISPATCHED
                     [(''task_id'', PStr (te_task_id (task_at e3 a))), (''worker_id'', PStr wid),
                      (''queue'', PStr (ts_queue (te_spec (task_at e3 a))))] e3)))"

text \<open>
  The whole call: the thread runs \<open>queue.reserve\<close> on the live set of completed tasks, through the
  given turns, and \<open>meanwhile\<close> is what the event loop does before the coroutine runs on.  \<open>None\<close>
  means that the thread is still waiting when the turns end.
\<close>

definition reserve_task ::
    "io \<Rightarrow> string \<Rightarrow> seconds \<Rightarrow> seconds \<Rightarrow> turn list \<Rightarrow> (engine \<Rightarrow> engine) \<Rightarrow> engine
     \<Rightarrow> (engine_error + addr option) option \<times> engine" where
  "reserve_task io wid timeout start turns meanwhile e =
     (case reserve_begin wid e of
        None \<Rightarrow> (Some (Inr None), e)
      | Some wa \<Rightarrow>
          (case reserve start (Some (en_completed e)) (st_lease_seconds (en_config e)) (Some timeout)
                  turns (en_queue e) of
             (None, q) \<Rightarrow> (None, e\<lparr>en_queue := q\<rparr>)
           | (Some (Inl x), q) \<Rightarrow> (Some (Inl (QueueError x)), meanwhile (e\<lparr>en_queue := q\<rparr>))
           | (Some (Inr None), q) \<Rightarrow> (Some (Inr None), meanwhile (e\<lparr>en_queue := q\<rparr>))
           | (Some (Inr (Some a)), q) \<Rightarrow>
               (let (r, e1) = reserve_finish io wid wa a (meanwhile (e\<lparr>en_queue := q\<rparr>))
                in (Some r, e1))))"

section \<open>Reporting results\<close>

text \<open>\<open>x or y\<close> for an optional string: \<open>None\<close> and the empty string are false.\<close>

definition or_str :: "string option \<Rightarrow> string \<Rightarrow> string" where
  "or_str x y = (case x of None \<Rightarrow> y | Some s \<Rightarrow> if s = [] then y else s)"

definition truthy :: "string option \<Rightarrow> bool" where
  "truthy x \<longleftrightarrow> x \<noteq> None \<and> x \<noteq> Some []"

text \<open>The first half of \<open>report_result\<close>: the reporting worker, if it is registered.\<close>

definition release_worker :: "string \<Rightarrow> engine \<Rightarrow> (engine_error + unit) \<times> engine" where
  "release_worker wid e =
     (case dict_get (en_workers e) wid of
        None \<Rightarrow> (Inr (), e)
      | Some wa \<Rightarrow>
          save_worker wa
            (upd_worker wa (\<lambda>w. let n = max 0 (wi_running_tasks w - 1)
                                in w\<lparr>wi_running_tasks := n, wi_status := (if n = 0 then IDLE else BUSY)\<rparr>) e))"

text \<open>The branch on the reported status; the result is the task and the type of the event.\<close>

definition settle_task :: "io \<Rightarrow> task_result \<Rightarrow> engine \<Rightarrow> (engine_error + addr \<times> event_type) \<times> engine" where
  "settle_task io r e =
     (if tr_status r = SUCCEEDED
      then case complete (tr_task_id r) SUCCEEDED None (en_queue e) of
             (Inl x, q) \<Rightarrow> (Inl (QueueError x), e\<lparr>en_queue := q\<rparr>)
           | (Inr a, q) \<Rightarrow>
               (Inr (a, TASK_FINISHED), e\<lparr>en_queue := q, en_completed := insert (tr_task_id r) (en_completed e)\<rparr>)
      else if tr_status r = CANCELLED
      then case complete (tr_task_id r) CANCELLED (tr_error r) (en_queue e) of
             (Inl x, q) \<Rightarrow> (Inl (QueueError x), e\<lparr>en_queue := q\<rparr>)
           | (Inr a, q) \<Rightarrow> (Inr (a, TASK_FAILED), e\<lparr>en_queue := q\<rparr>)
      else case retry (io_clk io) (tr_task_id r) (or_str (tr_error r) ''task failed'') (en_queue e) of
             (Inl x, q) \<Rightarrow> (Inl (QueueError x), e\<lparr>en_queue := q\<rparr>)
           | (Inr a, q) \<Rightarrow> (Inr (a, TASK_FAILED), e\<lparr>en_queue := q\<rparr>))"

text \<open>\<open>append_log\<close> of the outcome.\<close>

definition log_outcome :: "seconds \<Rightarrow> task_result \<Rightarrow> engine \<Rightarrow> engine" where
  "log_outcome now r e = e\<lparr>en_store := append_log now (tr_task_id r)
     (if truthy (tr_error r) then ''ERROR'' else ''INFO'')
     (or_str (tr_error r) (''completed in '' @ fmt3 (duration_seconds r) @ ''s'')) (en_store e)\<rparr>"

definition report_result :: "io \<Rightarrow> task_result \<Rightarrow> engine \<Rightarrow> (engine_error + addr) \<times> engine" where
  "report_result io r e =
     (case get (tr_task_id r) (en_queue e) of
        Inl x \<Rightarrow> (Inl (QueueError x), e)
      | Inr _ \<Rightarrow>
          (case release_worker (tr_worker_id r) e of
             (Inl x, e1) \<Rightarrow> (Inl x, e1)
           | (Inr _, e1) \<Rightarrow>
               (case settle_task io r (gap io 0 e1) of
                  (Inl x, e2) \<Rightarrow> (Inl x, e2)
                | (Inr (a, ty), e2) \<Rightarrow>
                    (let e3 = gap io 1 (e2\<lparr>en_results := dict_set (tr_task_id r) r (en_results e2)\<rparr>)
                     in case save_task (io_clk io 2) a (Some r) e3 of
                          (Inl x, e4) \<Rightarrow> (Inl x, e4)
                        | (Inr _, e4) \<Rightarrow>
                            (let e5 = gap io 2 (log_outcome (io_clk io 3) r e4)
                             in (Inr a, (announce io 0 4 ty
                                  [(''task_id'', PStr (tr_task_id r)), (''worker_id'', PStr (tr_worker_id r)),
                                   (''status'', PStr (status_str (te_status (task_at e5 a)))),
                                   (''duration_seconds'', PFloat (duration_seconds r))] e5)
                                  \<lparr>en_drain := True\<rparr>))))))"

section \<open>Cancelling and retrying by hand\<close>

definition cancel_task :: "io \<Rightarrow> string \<Rightarrow> engine \<Rightarrow> (engine_error + addr) \<times> engine" where
  "cancel_task io tid e =
     (case cancel tid (en_queue e) of
        (Inl x, q) \<Rightarrow> (Inl (QueueError x), e\<lparr>en_queue := q\<rparr>)
      | (Inr a, q) \<Rightarrow>
          (case save_task (io_clk io 0) a None (gap io 0 (e\<lparr>en_queue := q\<rparr>)) of
             (Inl x, e1) \<Rightarrow> (Inl x, e1)
           | (Inr _, e1) \<Rightarrow>
               (Inr a, announce io 0 1 TASK_FAILED
                  [(''task_id'', PStr tid), (''status'', PStr (status_str CANCELLED))] e1)))"

definition retry_task :: "io \<Rightarrow> string \<Rightarrow> engine \<Rightarrow> (engine_error + addr) \<times> engine" where
  "retry_task io tid e =
     (case retry (io_clk io) tid ''manual retry'' (en_queue e) of
        (Inl x, q) \<Rightarrow> (Inl (QueueError x), e\<lparr>en_queue := q\<rparr>)
      | (Inr a, q) \<Rightarrow>
          (case save_task (io_clk io 2) a None (gap io 0 (e\<lparr>en_queue := q\<rparr>)) of
             (Inl x, e1) \<Rightarrow> (Inl x, e1)
           | (Inr _, e1) \<Rightarrow> (Inr a, e1\<lparr>en_drain := True\<rparr>)))"

end
