(* ===== verification/Engine_Services.thy ===== *)
theory Engine_Services
  imports Engine
begin

text \<open>
  The rest of \<open>taskrunner/scheduler/engine.py\<close>: the background services, one pass of each of their
  loops, and the reports on the scheduler's state.
\<close>

section \<open>Background services\<close>

text \<open>A running background task leaves the set only when it ends or is cancelled.\<close>

definition start_background_services :: "engine \<Rightarrow> engine" where
  "start_background_services e =
     (if en_services e then e
      else e\<lparr>en_services := True,
             en_background := en_background e @ [''heartbeat_reaper'', ''lease_reaper'', ''pressure_reporter'']\<rparr>)"

definition stop_background_services :: "engine \<Rightarrow> engine" where
  "stop_background_services e = e\<lparr>en_background := [], en_services := False\<rparr>"

text \<open>
  One worker in a pass of the heartbeat reaper.  \<open>n\<close> numbers the clock readings of
  \<open>mark_worker_offline\<close>; \<open>now\<close> was read before the loop.
\<close>

definition stale :: "seconds \<Rightarrow> engine \<Rightarrow> worker_info \<Rightarrow> bool" where
  "stale now e w \<longleftrightarrow> wi_status w \<noteq> OFFLINE
     \<and> now - wi_last_heartbeat w > st_heartbeat_timeout_seconds (en_config e)"

fun reap_workers :: "seconds \<Rightarrow> clock \<Rightarrow> addr list \<Rightarrow> engine \<Rightarrow> (engine_error + unit) \<times> engine" where
  "reap_workers now clk [] e = (Inr (), e)"
| "reap_workers now clk (wa # was) e =
     (if stale now e (en_wobjs e wa)
      then case save_worker wa (upd_worker wa (\<lambda>w. w\<lparr>wi_status := OFFLINE\<rparr>) e) of
             (Inl x, e1) \<Rightarrow> (Inl x, e1)
           | (Inr _, e1) \<Rightarrow>
               reap_workers now (later 1 clk) was
                 (e1\<lparr>en_store := mark_worker_offline (clk 0) (wi_worker_id (en_wobjs e1 wa)) (en_store e1)\<rparr>)
      else reap_workers now clk was e)"

definition heartbeat_reaper_pass :: "clock \<Rightarrow> engine \<Rightarrow> (engine_error + unit) \<times> engine" where
  "heartbeat_reaper_pass clk e = reap_workers (clk 0) (later 1 clk) (map snd (en_workers e)) e"

text \<open>A pass of the lease reaper: the requeueing runs in a thread, the writes on the loop.\<close>

definition lease_reaper_pass :: "clock \<Rightarrow> io \<Rightarrow> engine \<Rightarrow> (engine_error + unit) \<times> engine" where
  "lease_reaper_pass clk io e =
     (case requeue_expired_leases clk (en_queue e) of
        (Inl x, q) \<Rightarrow> (Inl (QueueError x), e\<lparr>en_queue := q\<rparr>)
      | (Inr as, q) \<Rightarrow> save_tasks io 0 as (e\<lparr>en_queue := q\<rparr>))"

definition pressure_reporter_pass :: "io \<Rightarrow> engine \<Rightarrow> engine" where
  "pressure_reporter_pass io e =
     (let (s, q) = snapshot (io_clk io 0) (en_queue e); e1 = e\<lparr>en_queue := q\<rparr>
      in if qs_pressure s \<ge> 8/10
         then announce io 0 1 QUEUE_PRESSURE [(''pressure'', PFloat (qs_pressure s))] e1
         else e1)"

section \<open>Reports\<close>

definition take_snapshot :: "seconds \<Rightarrow> engine \<Rightarrow> queue_snapshot \<times> engine" where
  "take_snapshot now e = (let (s, q) = snapshot now (en_queue e) in (s, e\<lparr>en_queue := q\<rparr>))"

definition workers_of :: "engine \<Rightarrow> worker_info list" where
  "workers_of e = map (\<lambda>(k, wa). en_wobjs e wa) (en_workers e)"

text \<open>\<open>metrics\<close>, with the host name and process id of the scheduler.\<close>

definition metrics :: "string \<Rightarrow> int \<Rightarrow> seconds \<Rightarrow> engine \<Rightarrow> (string, pyval) dict \<times> engine" where
  "metrics host pid now e =
     (let (s, e1) = take_snapshot now e
      in ([(''host'', PStr host),
           (''pid'', PInt pid),
           (''queue'', PDict (snapshot_to_dict s)),
           (''workers'', PList (map (\<lambda>w. PDict (worker_to_dict w)) (workers_of e1))),
           (''tasks'', PDict (map (\<lambda>(k, n). (k, PInt n)) (task_counts (en_store e1)))),
           (''results'', PInt (int (length (en_results e1))))], e1))"

record autoscaling =
  as_current_workers :: int
  as_desired_workers :: int
  as_pressure :: real

definition autoscaling_recommendation :: "seconds \<Rightarrow> engine \<Rightarrow> autoscaling \<times> engine" where
  "autoscaling_recommendation now e =
     (let (s, e1) = take_snapshot now e;
          online = filter (\<lambda>w. wi_status w \<noteq> OFFLINE) (workers_of e1);
          total = sum_list (map wi_capacity online);
          total_capacity = (if total = 0 then 1 else total);
          backlog_ratio = py_trunc (of_int (qs_queued s + qs_delayed s) / of_int total_capacity);
          n = int (length online)
      in (\<lparr>as_current_workers = n, as_desired_workers = max 1 (min 32 (backlog_ratio + n)),
           as_pressure = qs_pressure s\<rparr>, e1))"

section \<open>Describing a worker\<close>

text \<open>\<open>build_worker_info\<close>; the two default factories read the clock in field order.\<close>

definition or_set :: "'a set option \<Rightarrow> 'a set \<Rightarrow> 'a set" where
  "or_set x y = (case x of None \<Rightarrow> y | Some s \<Rightarrow> if s = {} then y else s)"

definition build_worker_info ::
    "string \<Rightarrow> int \<Rightarrow> clock \<Rightarrow> string \<Rightarrow> string set option \<Rightarrow> string set option \<Rightarrow> int \<Rightarrow> worker_info" where
  "build_worker_info host pid clk wid queues labels capacity = \<lparr>
     wi_worker_id = wid, wi_host = host, wi_pid = pid,
     wi_queues = or_set queues {''default''}, wi_capacity = capacity, wi_labels = or_set labels {},
     wi_status = IDLE, wi_running_tasks = 0, wi_started_at = clk 0, wi_last_heartbeat = clk 1\<rparr>"

end
