(* ===== verification/Engine_Inv.thy ===== *)
theory Engine_Inv
  imports Engine_Services Broker_Steps
begin

text \<open>
  The scheduler's invariant and its preservation by every handler, whatever the threads do in the
  handler's gaps.
\<close>

section \<open>Interference by threads\<close>

text \<open>
  Rely and guarantee: actors that keep an invariant and change the state only as the relation allows.
  Then so does any sequence of their actions, which is what a handler may assume about a gap.
\<close>

locale interference =
  fixes inv :: "'s \<Rightarrow> bool" and rely :: "'s \<Rightarrow> 's \<Rightarrow> bool" and act :: "'a \<Rightarrow> 's \<Rightarrow> 's"
  assumes rely_refl: "rely s s"
    and rely_trans: "rely s t \<Longrightarrow> rely t u \<Longrightarrow> rely s u"
    and act_inv: "inv s \<Longrightarrow> inv (act a s)"
    and act_rely: "inv s \<Longrightarrow> rely s (act a s)"
begin

lemma run_inv: "inv s \<Longrightarrow> inv (fold act as s)"
  by (induction as arbitrary: s) (simp_all add: act_inv)

lemma run_rely: "inv s \<Longrightarrow> rely s (fold act as s)"
proof (induction as arbitrary: s)
  case (Cons a as)
  have "rely (act a s) (fold act as (act a s))" by (rule Cons.IH [OF act_inv [OF Cons.prems]])
  then show ?case using rely_trans [OF act_rely [OF Cons.prems]] by simp
qed (simp add: rely_refl)

end

text \<open>
  What a thread leaves alone: which tasks there are, which are cancelled, the identity and
  specification of every envelope, and the envelopes that are no tasks of the queue.
\<close>

definition thread_rely :: "broker \<Rightarrow> broker \<Rightarrow> bool" where
  "thread_rely q q' \<longleftrightarrow> tasks q' = tasks q \<and> cancelled q' = cancelled q \<and> max_depth q' = max_depth q
     \<and> (\<forall>a. te_spec (objs q' a) = te_spec (objs q a) \<and> te_task_id (objs q' a) = te_task_id (objs q a)
          \<and> te_created_at (objs q' a) = te_created_at (objs q a)
          \<and> (te_attempts (objs q a) \<le> te_attempts (objs q' a)))"

lemma poll_rely:
  assumes "broker_inv q"
  shows "thread_rely q (snd (reserve_poll clk order w completed lease q))"
  by (cases rule: reserve_poll_cases [OF assms, of clk order w completed lease])
    (simp_all add: thread_rely_def scanned_fields)

lemma requeue_rely:
  assumes "broker_inv q"
  shows "thread_rely q (snd (requeue_expired_leases clk q))"
proof -
  from requeue_spec [OF assms] obtain as q' where
    r: "requeue_expired_leases clk q = (Inr as, q')" and q': "requeued (clk 0) (inflight q) q as q'" by blast
  have "te_spec (objs q' a) = te_spec (objs q a) \<and> te_task_id (objs q' a) = te_task_id (objs q a)
      \<and> te_created_at (objs q' a) = te_created_at (objs q a) \<and> te_attempts (objs q a) \<le> te_attempts (objs q' a)" for a
  proof (cases "a \<in> set as")
    case True
    then obtain t where "objs q' a = retried t ''lease expired'' (objs q a)"
      using q' unfolding requeued_def by metis
    then show ?thesis by (simp add: retried_def)
  next
    case False
    then have "objs q' a = objs q a" using q' unfolding requeued_def by metis
    then show ?thesis by simp
  qed
  with q' r show ?thesis by (simp add: thread_rely_def requeued_def)
qed

interpretation threads: interference broker_inv thread_rely run_thread
proof
  fix q q' q'' :: broker and s
  show "thread_rely q q" by (simp add: thread_rely_def)
  show "thread_rely q q' \<Longrightarrow> thread_rely q' q'' \<Longrightarrow> thread_rely q q''"
    unfolding thread_rely_def by (metis order_trans)
  show "broker_inv q \<Longrightarrow> broker_inv (run_thread s q)"
    by (cases s) (simp_all add: reserve_poll_inv requeue_inv)
  show "broker_inv q \<Longrightarrow> thread_rely q (run_thread s q)"
    by (cases s) (simp_all add: poll_rely requeue_rely)
qed

section \<open>The invariant\<close>

definition locks_free :: "engine \<Rightarrow> bool" where
  "locks_free e \<longleftrightarrow> (\<forall>key. lock_of key (en_locks e) = new_lock)"

definition addrs_ok :: "engine \<Rightarrow> bool" where
  "addrs_ok e \<longleftrightarrow> (\<forall>a \<in> ran (map_of (tasks (en_queue e))). a < en_next e)"

text \<open>Workers are registered under their own ids.\<close>

definition workers_ok :: "engine \<Rightarrow> bool" where
  "workers_ok e \<longleftrightarrow> dict_ok (en_workers e) \<and>
     (\<forall>wid wa. dict_get (en_workers e) wid = Some wa \<longrightarrow>
        wi_worker_id (en_wobjs e wa) = wid \<and> wa < en_wnext e)"

text \<open>Completed tasks and results belong to known tasks.\<close>

definition known_ok :: "engine \<Rightarrow> bool" where
  "known_ok e \<longleftrightarrow> dict_ok (en_results e) \<and> en_completed e \<union> fst ` set (en_results e) \<subseteq> dom (map_of (tasks (en_queue e)))"

definition engine_inv :: "engine \<Rightarrow> bool" where
  "engine_inv e \<longleftrightarrow> broker_inv (en_queue e) \<and> store_inv (en_store e) \<and> locks_free e \<and> addrs_ok e
     \<and> workers_ok e \<and> known_ok e"

lemmas engine_parts = locks_free_def addrs_ok_def workers_ok_def known_ok_def

lemma engine_invD:
  assumes "engine_inv e"
  shows "broker_inv (en_queue e)" "store_inv (en_store e)" "locks_free e" "addrs_ok e" "workers_ok e" "known_ok e"
  using assms by (simp_all add: engine_inv_def)

lemma new_engine_inv: "store_inv s \<Longrightarrow> engine_inv (new_engine cfg s os ws)"
  by (simp add: engine_inv_def new_engine_def engine_parts new_broker_inv) (simp add: new_broker_def)

subsection \<open>Updates of single fields\<close>

lemma engine_inv_idle [simp]:
  "engine_inv (e\<lparr>en_bus := b\<rparr>) = engine_inv e" "engine_inv (e\<lparr>en_drain := d\<rparr>) = engine_inv e"
  "engine_inv (e\<lparr>en_background := bg\<rparr>) = engine_inv e" "engine_inv (e\<lparr>en_services := sv\<rparr>) = engine_inv e"
  by (simp_all add: engine_inv_def engine_parts)

lemma announce_inv [simp]: "engine_inv (announce io h n ty p e) = engine_inv e"
  by (simp add: announce_def)

lemma engine_inv_store: "engine_inv e \<Longrightarrow> store_inv s \<Longrightarrow> engine_inv (e\<lparr>en_store := s\<rparr>)"
  by (simp add: engine_inv_def engine_parts)

lemma engine_inv_queue:
  "engine_inv e \<Longrightarrow> broker_inv q \<Longrightarrow> tasks q = tasks (en_queue e) \<Longrightarrow> engine_inv (e\<lparr>en_queue := q\<rparr>)"
  by (simp add: engine_inv_def engine_parts)

lemma upd_worker_inv [keeps_inv]:
  "engine_inv e \<Longrightarrow> (\<And>w. wi_worker_id (f w) = wi_worker_id w) \<Longrightarrow> engine_inv (upd_worker wa f e)"
  by (auto simp: engine_inv_def engine_parts upd_worker_def)

lemma gap_inv [keeps_inv]: "engine_inv e \<Longrightarrow> engine_inv (gap io n e)"
proof -
  assume inv: "engine_inv e"
  note q = engine_invD(1) [OF inv]
  have "thread_rely (en_queue e) (fold run_thread (io_threads io n) (en_queue e))"
    by (rule threads.run_rely [OF q])
  then show ?thesis
    unfolding gap_def
    by (intro engine_inv_queue [OF inv] threads.run_inv [OF q]) (simp add: thread_rely_def)
qed

lemma gap_fields [simp]:
  "en_store (gap io n e) = en_store e" "en_bus (gap io n e) = en_bus e" "en_locks (gap io n e) = en_locks e"
  "en_workers (gap io n e) = en_workers e" "en_wobjs (gap io n e) = en_wobjs e"
  "en_completed (gap io n e) = en_completed e" "en_results (gap io n e) = en_results e"
  "en_config (gap io n e) = en_config e" "en_next (gap io n e) = en_next e" "en_wnext (gap io n e) = en_wnext e"
  "en_drain (gap io n e) = en_drain e"
  by (simp_all add: gap_def)

lemma gap_quiet: "io_threads io n = [] \<Longrightarrow> gap io n e = e"
  by (simp add: gap_def)

lemma gap_rely: "engine_inv e \<Longrightarrow> thread_rely (en_queue e) (en_queue (gap io n e))"
  unfolding gap_def using threads.run_rely [OF engine_invD(1)] by simp

subsection \<open>Writes to the store\<close>

lemma save_task_eq: "snd (save_task now a res e) = e\<lparr>en_store := snd (upsert_task now (task_at e a) res (en_store e))\<rparr>"
  by (simp add: save_task_def split: prod.split sum.split)

lemma save_worker_eq: "snd (save_worker wa e) = e\<lparr>en_store := snd (upsert_worker (en_wobjs e wa) (en_store e))\<rparr>"
  by (simp add: save_worker_def split: prod.split sum.split)

lemma save_task_inv [keeps_inv]: "engine_inv e \<Longrightarrow> engine_inv (snd (save_task now a res e))"
  unfolding save_task_eq by (intro engine_inv_store upsert_task_inv engine_invD(2))

lemma save_worker_inv [keeps_inv]: "engine_inv e \<Longrightarrow> engine_inv (snd (save_worker wa e))"
  unfolding save_worker_eq by (intro engine_inv_store upsert_worker_inv engine_invD(2))

lemma save_tasks_inv [keeps_inv]: "engine_inv e \<Longrightarrow> engine_inv (snd (save_tasks io n as e))"
proof (induction as arbitrary: n e)
  case (Cons a as)
  have "engine_inv (snd (save_task (io_clk io n) a None (gap io n e)))"
    by (intro save_task_inv gap_inv Cons.prems)
  with Cons.IH show ?case
    by (cases "save_task (io_clk io n) a None (gap io n e)") (auto split: sum.split)
qed simp

section \<open>Handlers on workers\<close>

lemma register_worker_inv [keeps_inv]:
  assumes inv: "engine_inv e"
  shows "engine_inv (snd (register_worker io w e))"
proof -
  define e1 where "e1 = e\<lparr>en_wnext := Suc (en_wnext e),
     en_wobjs := (en_wobjs e)(en_wnext e := w\<lparr>wi_status := IDLE, wi_last_heartbeat := io_clk io 0\<rparr>),
     en_workers := dict_set (wi_worker_id w) (en_wnext e) (en_workers e)\<rparr>"
  have "workers_ok e1"
    using engine_invD(5) [OF inv] by (fastforce simp: workers_ok_def e1_def)
  then have "engine_inv e1"
    using inv by (simp add: engine_inv_def e1_def locks_free_def addrs_ok_def known_ok_def)
  then have "engine_inv (snd (save_worker (en_wnext e) e1))" by (rule save_worker_inv)
  then show ?thesis
    unfolding register_worker_def Let_def e1_def [symmetric]
    by (cases "save_worker (en_wnext e) e1") (auto split: sum.split)
qed

lemma heartbeat_inv [keeps_inv]:
  assumes inv: "engine_inv e"
  shows "engine_inv (snd (heartbeat io wid running e))"
proof (cases "dict_get (en_workers e) wid")
  case (Some wa)
  define e1 where "e1 = upd_worker wa (\<lambda>w. w\<lparr>wi_last_heartbeat := io_clk io 0, wi_running_tasks := running,
     wi_status := (if running \<noteq> 0 then BUSY else IDLE)\<rparr>) e"
  have "engine_inv (snd (save_worker wa e1))"
    unfolding e1_def by (intro save_worker_inv upd_worker_inv inv) simp
  moreover have "heartbeat io wid running e = (case save_worker wa e1 of
      (Inl x, e2) \<Rightarrow> (Inl x, e2)
    | (Inr _, e2) \<Rightarrow> (Inr (Some wa), announce io 0 1 WORKER_HEARTBEAT
        [(''worker_id'', PStr (wi_worker_id (en_wobjs e2 wa))), (''running_tasks'', PInt running)] e2))"
    by (simp only: heartbeat_def Some option.case Let_def e1_def)
  ultimately show ?thesis by (cases "save_worker wa e1") (auto split: sum.split)
qed (simp add: heartbeat_def inv)

lemma reserve_finish_inv [keeps_inv]:
  assumes inv: "engine_inv e"
  shows "engine_inv (snd (reserve_finish io wid wa a e))"
proof -
  define e1 where "e1 = upd_worker wa (\<lambda>w. w\<lparr>wi_running_tasks := wi_running_tasks w + 1, wi_status := BUSY\<rparr>) e"
  have e1: "engine_inv (snd (save_worker wa e1))"
    unfolding e1_def by (intro save_worker_inv upd_worker_inv inv) simp
  show ?thesis
  proof (cases "save_worker wa e1")
    case (Pair r e2)
    then have "engine_inv (snd (save_task (io_clk io 0) a None (gap io 0 e2)))"
      using e1 by (intro save_task_inv gap_inv) simp
    then show ?thesis
      using Pair e1 unfolding reserve_finish_def Let_def e1_def [symmetric]
      by (cases "save_task (io_clk io 0) a None (gap io 0 e2)") (auto split: sum.split)
  qed
qed

lemma release_worker_inv [keeps_inv]: "engine_inv e \<Longrightarrow> engine_inv (snd (release_worker wid e))"
  by (auto simp: release_worker_def Let_def intro!: save_worker_inv upd_worker_inv split: option.split)

lemma reap_workers_inv [keeps_inv]: "engine_inv e \<Longrightarrow> engine_inv (snd (reap_workers now clk was e))"
proof (induction now clk was e rule: reap_workers.induct)
  case (2 now clk wa was e)
  let ?e1 = "upd_worker wa (\<lambda>w. w\<lparr>wi_status := OFFLINE\<rparr>) e"
  show ?case
  proof (cases "stale now e (en_wobjs e wa)")
    case True
    have inv1: "engine_inv (snd (save_worker wa ?e1))"
      by (intro save_worker_inv upd_worker_inv "2.prems") simp
    show ?thesis
    proof (cases "save_worker wa ?e1")
      case (Pair r e2)
      show ?thesis
      proof (cases r)
        case (Inr u)
        have "engine_inv (e2\<lparr>en_store := mark_worker_offline (clk 0) (wi_worker_id (en_wobjs e2 wa)) (en_store e2)\<rparr>)"
          using inv1 Pair by (intro engine_inv_store mark_worker_offline_inv engine_invD(2)) simp_all
        from "2.IH"(1) [OF True _ _ this] Pair Inr True show ?thesis by (simp add: later_def)
      qed (use inv1 Pair True in simp)
    qed
  next
    case False
    with "2.IH"(2) [OF False "2.prems"] show ?thesis by simp
  qed
qed simp

lemma heartbeat_reaper_inv [keeps_inv]: "engine_inv e \<Longrightarrow> engine_inv (snd (heartbeat_reaper_pass clk e))"
  unfolding heartbeat_reaper_pass_def by (rule reap_workers_inv)

section \<open>Handlers on tasks\<close>

lemma alloc_task_inv:
  assumes inv: "engine_inv e" and al: "alloc_task t e = (a, e')"
  shows "engine_inv e'" "a = en_next e" "task_at e' a = t" "tasks (en_queue e') = tasks (en_queue e)"
    "a \<notin> ran (map_of (tasks (en_queue e)))"
proof -
  have e': "a = en_next e" "e' = e\<lparr>en_next := Suc (en_next e),
     en_queue := (en_queue e)\<lparr>objs := (objs (en_queue e))(en_next e := t)\<rparr>\<rparr>"
    using al by (auto simp: alloc_task_def)
  have new: "en_next e \<notin> ran (map_of (tasks (en_queue e)))"
    using engine_invD(4) [OF inv] by (auto simp: addrs_ok_def)
  have "broker_inv ((en_queue e)\<lparr>objs := (objs (en_queue e))(en_next e := t)\<rparr>)"
    by (rule alloc_inv [OF engine_invD(1) [OF inv] new])
  then show "engine_inv e'"
    using inv by (fastforce simp: e' engine_inv_def engine_parts)
  show "a = en_next e" "task_at e' a = t" "tasks (en_queue e') = tasks (en_queue e)"
    "a \<notin> ran (map_of (tasks (en_queue e)))"
    using e' new by (simp_all add: task_at_def)
qed

lemma engine_inv_admitted:
  assumes inv: "engine_inv e" and q: "broker_inv q"
    and sub: "dom (map_of (tasks (en_queue e))) \<subseteq> dom (map_of (tasks q))"
    and ran: "\<And>a. a \<in> ran (map_of (tasks q)) \<Longrightarrow> a < en_next e"
  shows "engine_inv (e\<lparr>en_queue := q\<rparr>)"
proof -
  have "known_ok (e\<lparr>en_queue := q\<rparr>)"
    using engine_invD(6) [OF inv] subset_trans [OF _ sub] by (simp add: known_ok_def)
  then show ?thesis
    using inv q ran by (simp add: engine_inv_def locks_free_def addrs_ok_def workers_ok_def)
qed

lemma submit_fields:
  "tasks (snd (submit clk a q)) =
     (if depth q \<ge> max_depth q then tasks q else dict_set (te_task_id (objs q a)) a (tasks q))"
  by (simp add: submit_def)

lemma new_envelope_id [simp]: "te_task_id (new_envelope hex clk s) = ''task-'' @ hex"
  by (simp add: new_envelope_def)

text \<open>\<open>uuid4()\<close> gave an id that no task has.\<close>

definition fresh_hex :: "string \<Rightarrow> engine \<Rightarrow> bool" where
  "fresh_hex hex e \<longleftrightarrow> dict_get (tasks (en_queue e)) (''task-'' @ hex) = None"

lemma locks_field_inv:
  "engine_inv e \<Longrightarrow> (\<And>key. lock_of key m = new_lock) \<Longrightarrow> engine_inv (e\<lparr>en_locks := m\<rparr>)"
  by (simp add: engine_inv_def engine_parts)

lemma submit_locked_eq:
  assumes al: "alloc_task (new_envelope (io_hex io 0) (io_clk io) (normalized spec)) e = (a, e1)"
  shows "submit_locked io spec e =
    (let q0 = en_queue e1; q = snd (submit (later 2 (io_clk io)) a q0); e2 = gap io 0 (e1\<lparr>en_queue := q\<rparr>)
     in if depth q0 \<ge> max_depth q0
        then (Inl (QueueError (QueueFullError (depth q0) (max_depth q0))), e1)
        else (case fst (save_task (io_clk io 4) a None e2) of Inl x \<Rightarrow> Inl x | Inr _ \<Rightarrow> Inr a,
              snd (save_task (io_clk io 4) a None e2)))"
  by (simp add: submit_locked_def al submit_def Let_def split: prod.split sum.split)

lemma submit_locked_locks:
  "submit_locked io spec (e\<lparr>en_locks := m\<rparr>) = apsnd (\<lambda>x. x\<lparr>en_locks := m\<rparr>) (submit_locked io spec e)"
  by (simp add: submit_locked_def alloc_task_def Let_def save_task_def gap_def task_at_def apsnd_def map_prod_def
      split: prod.split sum.split)

lemma submitted_queue_inv:
  assumes inv: "engine_inv e" and fresh: "dict_get (tasks (en_queue e)) (te_task_id t) = None"
    and al: "alloc_task t e = (a, e1)"
  shows "engine_inv (e1\<lparr>en_queue := snd (submit clk a (en_queue e1))\<rparr>)"
proof -
  note e1 = alloc_task_inv [OF inv al]
  let ?q = "snd (submit clk a (en_queue e1))"
  have none: "dict_get (tasks (en_queue e1)) (te_task_id (objs (en_queue e1) a)) = None"
    using fresh e1(3,4) by (simp add: task_at_def)
  have lt: "a < en_next e1" using al by (auto simp: alloc_task_def)
  show ?thesis
  proof (rule engine_inv_admitted [OF e1(1)])
    show "broker_inv ?q" by (rule submit_inv [OF engine_invD(1) [OF e1(1)] none])
    show "dom (map_of (tasks (en_queue e1))) \<subseteq> dom (map_of (tasks ?q))"
      by (auto simp: submit_fields)
    fix b assume "b \<in> ran (map_of (tasks ?q))"
    then have "b = a \<or> b \<in> ran (map_of (tasks (en_queue e1)))"
      by (auto simp: submit_fields ran_def split: if_splits)
    then show "b < en_next e1"
      using lt engine_invD(4) [OF e1(1)] by (auto simp: addrs_ok_def)
  qed
qed

lemma submit_locked_inv [keeps_inv]:
  assumes inv: "engine_inv e" and fresh: "fresh_hex (io_hex io 0) e"
  shows "engine_inv (snd (submit_locked io spec e))"
proof -
  obtain a e1 where al: "alloc_task (new_envelope (io_hex io 0) (io_clk io) (normalized spec)) e = (a, e1)"
    by (cases "alloc_task (new_envelope (io_hex io 0) (io_clk io) (normalized spec)) e")
  have "engine_inv (gap io 0 (e1\<lparr>en_queue := snd (submit (later 2 (io_clk io)) a (en_queue e1))\<rparr>))"
    using fresh by (intro gap_inv submitted_queue_inv [OF inv _ al]) (simp add: fresh_hex_def)
  then show ?thesis
    using alloc_task_inv(1) [OF inv al] by (auto simp: submit_locked_eq [OF al] Let_def intro: save_task_inv)
qed

text \<open>On a free lock, \<open>submit\<close> does not wait.\<close>

lemma request_free:
  assumes "lock_of key m = new_lock"
  obtains m1 where "lock_op (Request c key) m = (Entered, m1)"
    "lock_of key m1 = \<lparr>lk_locked = True, lk_waiters = [], lk_inside = [c]\<rparr>"
    "\<And>k. k \<noteq> key \<Longrightarrow> lock_of k m1 = lock_of k m"
  using assms that by (simp add: at_key_def lock_request_def new_lock_def)

lemma leave_sole:
  assumes "lock_of key m = \<lparr>lk_locked = True, lk_waiters = [], lk_inside = [c]\<rparr>"
  shows "lock_of k (snd (lock_op (Leave c key) m)) = (if k = key then new_lock else lock_of k m)"
  using assms by (simp add: lock_of_at_key lock_leave_def wake_up_first_def new_lock_def)

lemma submit_task_eq:
  assumes "engine_inv e"
  obtains m r e1 where
    "submit_locked io spec e = (r, e1)" and "\<And>k. lock_of k m = new_lock" and
    "submit_task io spec e = (case r of
        Inl x \<Rightarrow> (Inl x, e1\<lparr>en_locks := m\<rparr>)
      | Inr a \<Rightarrow> (Inr a, (announce io 1 5 TASK_SUBMITTED
          [(''task_id'', PStr (te_task_id (task_at e1 a))),
           (''queue'', PStr (ts_queue (te_spec (task_at e1 a))))] (e1\<lparr>en_locks := m\<rparr>))\<lparr>en_drain := True\<rparr>))"
proof -
  let ?key = "''queue:'' @ ts_queue spec"
  have free: "lock_of k (en_locks e) = new_lock" for k
    using engine_invD(3) [OF assms] by (simp add: locks_free_def)
  from request_free [OF free] obtain m where
    m: "lock_op (Request 0 ?key) (en_locks e) = (Entered, m)"
      "lock_of ?key m = \<lparr>lk_locked = True, lk_waiters = [], lk_inside = [0]\<rparr>"
      "\<And>k. k \<noteq> ?key \<Longrightarrow> lock_of k m = lock_of k (en_locks e)" by metis
  obtain r e1 where sl: "submit_locked io spec e = (r, e1)" by (cases "submit_locked io spec e")
  let ?m = "snd (lock_op (Leave 0 ?key) m)"
  have "lock_of k ?m = new_lock" for k
    using leave_sole [OF m(2), of k] m(3) free by simp
  moreover have "submit_task io spec e = (case r of
        Inl x \<Rightarrow> (Inl x, e1\<lparr>en_locks := ?m\<rparr>)
      | Inr a \<Rightarrow> (Inr a, (announce io 1 5 TASK_SUBMITTED
          [(''task_id'', PStr (te_task_id (task_at e1 a))),
           (''queue'', PStr (ts_queue (te_spec (task_at e1 a))))] (e1\<lparr>en_locks := ?m\<rparr>))\<lparr>en_drain := True\<rparr>))"
    using m(1) sl unfolding submit_task_def Let_def
    by (simp add: submit_locked_locks task_at_def del: lock_op.simps split: sum.split)
  ultimately show ?thesis using sl that by blast
qed

lemma submit_task_inv [keeps_inv]:
  assumes inv: "engine_inv e" and fresh: "fresh_hex (io_hex io 0) e"
  shows "engine_inv (snd (submit_task io spec e))"
proof (rule submit_task_eq [OF inv, of io spec])
  fix m r e1
  assume sl: "submit_locked io spec e = (r, e1)" and m: "\<And>k. lock_of k m = new_lock"
    and eq: "submit_task io spec e = (case r of
        Inl x \<Rightarrow> (Inl x, e1\<lparr>en_locks := m\<rparr>)
      | Inr a \<Rightarrow> (Inr a, (announce io 1 5 TASK_SUBMITTED
          [(''task_id'', PStr (te_task_id (task_at e1 a))),
           (''queue'', PStr (ts_queue (te_spec (task_at e1 a))))] (e1\<lparr>en_locks := m\<rparr>))\<lparr>en_drain := True\<rparr>))"
  have "engine_inv e1" using submit_locked_inv [OF inv fresh, of spec] sl by simp
  then have "engine_inv (e1\<lparr>en_locks := m\<rparr>)" using m by (rule locks_field_inv)
  then show ?thesis unfolding eq by (simp split: sum.split)
qed

text \<open>Completing, retrying and cancelling keep the tasks and the address bound.\<close>

lemma complete_known:
  assumes "broker_inv q" and "dict_get (tasks q) tid = Some a" and "status \<in> terminal"
  shows "fst (complete tid status error q) = Inr a" "tasks (snd (complete tid status error q)) = tasks q"
    "objs (snd (complete tid status error q)) = (objs q)(a := (objs q a)\<lparr>te_status := status,
       te_last_error := error, te_lease_deadline := None\<rparr>)"
    "broker_inv (snd (complete tid status error q))"
  using assms complete_inv [of q status tid error] by (simp_all add: complete_eq)

lemma cancel_known:
  assumes "broker_inv q" and "dict_get (tasks q) tid = Some a"
  shows "fst (cancel tid q) = Inr a" "tasks (snd (cancel tid q)) = tasks q"
    "objs (snd (cancel tid q)) = (objs q)(a := (objs q a)\<lparr>te_status := CANCELLED\<rparr>)"
  using assms by (simp_all add: cancel_eq)

lemma get_eq: "get tid q = (case dict_get (tasks q) tid of None \<Rightarrow> Inl (TaskNotFoundError tid) | Some a \<Rightarrow> Inr a)"
  by (simp add: get_def)

lemma settle_task_unknown:
  assumes "engine_inv e" and "dict_get (tasks (en_queue e)) (tr_task_id r) = None"
  shows "settle_task io r e = (Inl (QueueError (TaskNotFoundError (tr_task_id r))), e)"
  using assms engine_invD(1) [OF assms(1)] by (simp add: settle_task_def complete_eq retry_unknown)

text \<open>What a report does to the envelope, and the event it announces.\<close>

definition settled :: "io \<Rightarrow> task_result \<Rightarrow> task_envelope \<Rightarrow> task_envelope" where
  "settled io r t =
     (if tr_status r = SUCCEEDED then t\<lparr>te_status := SUCCEEDED, te_last_error := None, te_lease_deadline := None\<rparr>
      else if tr_status r = CANCELLED
      then t\<lparr>te_status := CANCELLED, te_last_error := tr_error r, te_lease_deadline := None\<rparr>
      else retried (io_clk io 0) (or_str (tr_error r) ''task failed'') t)"

lemma settle_task_known:
  assumes inv: "engine_inv e" and a: "dict_get (tasks (en_queue e)) (tr_task_id r) = Some a"
  obtains q where
    "settle_task io r e = (Inr (a, if tr_status r = SUCCEEDED then TASK_FINISHED else TASK_FAILED),
       e\<lparr>en_queue := q, en_completed := (if tr_status r = SUCCEEDED then insert (tr_task_id r) (en_completed e)
          else en_completed e)\<rparr>)"
    and "broker_inv q" "tasks q = tasks (en_queue e)"
      "objs q = (objs (en_queue e))(a := settled io r (objs (en_queue e) a))"
proof -
  note b = engine_invD(1) [OF inv]
  consider "tr_status r = SUCCEEDED" | "tr_status r = CANCELLED" | "tr_status r \<notin> {SUCCEEDED, CANCELLED}" by blast
  then show ?thesis
  proof cases
    case 1
    note c = complete_known [OF b a, of SUCCEEDED None]
    then obtain q where q: "complete (tr_task_id r) SUCCEEDED None (en_queue e) = (Inr a, q)"
      by (metis prod.collapse insertI1 terminal_def)
    from c q 1 show ?thesis
      by (intro that [of q]) (simp_all add: settle_task_def settled_def terminal_def)
  next
    case 2
    note c = complete_known [OF b a, of CANCELLED "tr_error r"]
    then obtain q where q: "complete (tr_task_id r) CANCELLED (tr_error r) (en_queue e) = (Inr a, q)"
      by (metis prod.collapse insertCI terminal_def)
    from c q 2 show ?thesis
      by (intro that [of q]) (simp_all add: settle_task_def settled_def terminal_def)
  next
    case 3
    let ?why = "or_str (tr_error r) ''task failed''"
    note c = retry_known [OF b a, of "io_clk io" ?why] retry_inv [OF b, of "io_clk io" "tr_task_id r" ?why]
    then obtain q where q: "retry (io_clk io) (tr_task_id r) ?why (en_queue e) = (Inr a, q)"
      by (metis prod.collapse)
    from c q 3 show ?thesis
      by (intro that [of q]) (simp_all add: settle_task_def settled_def)
  qed
qed

lemma settle_task_inv [keeps_inv]:
  assumes inv: "engine_inv e"
  shows "engine_inv (snd (settle_task io r e))"
proof (cases "dict_get (tasks (en_queue e)) (tr_task_id r)")
  case None
  then show ?thesis using settle_task_unknown [OF inv] inv by simp
next
  case (Some a)
  from settle_task_known [OF inv Some, of io] obtain q where
    s: "settle_task io r e = (Inr (a, if tr_status r = SUCCEEDED then TASK_FINISHED else TASK_FAILED),
       e\<lparr>en_queue := q, en_completed := (if tr_status r = SUCCEEDED then insert (tr_task_id r) (en_completed e)
          else en_completed e)\<rparr>)" and q: "broker_inv q" "tasks q = tasks (en_queue e)" by metis
  show ?thesis
    using engine_inv_queue [OF inv q] Some q(2)
    by (auto simp: s engine_inv_def locks_free_def addrs_ok_def workers_ok_def known_ok_def)
qed

lemma add_result_inv:
  assumes inv: "engine_inv e" and "dict_get (tasks (en_queue e)) tid \<noteq> None"
  shows "engine_inv (e\<lparr>en_results := dict_set tid r (en_results e)\<rparr>)"
proof -
  have "fst ` set (dict_set tid r (en_results e)) = insert tid (fst ` set (en_results e))"
    by (simp add: dom_update)
  then show ?thesis
    using assms by (auto simp: engine_inv_def locks_free_def addrs_ok_def workers_ok_def known_ok_def)
qed

lemma log_outcome_inv [keeps_inv]: "engine_inv e \<Longrightarrow> engine_inv (log_outcome now r e)"
  unfolding log_outcome_def by (intro engine_inv_store append_log_inv engine_invD(2))

end
