(* ===== verification/Engine_Steps.thy ===== *)
theory Engine_Steps
  imports Engine_Inv
begin

text \<open>
  The scheduler as a transition system: the remaining handlers keep the invariant, and so does every
  interleaving of handlers, background passes and threads.
\<close>

section \<open>Handlers\<close>

lemma gap_tasks: "engine_inv e \<Longrightarrow> tasks (en_queue (gap io n e)) = tasks (en_queue e)"
  using gap_rely [of e io n] by (simp add: thread_rely_def)

lemma save_worker_queue [simp]: "en_queue (snd (save_worker wa e)) = en_queue e"
  by (simp add: save_worker_eq)

lemma save_task_queue [simp]: "en_queue (snd (save_task now a res e)) = en_queue e"
  by (simp add: save_task_eq)

lemma upd_worker_queue [simp]: "en_queue (upd_worker wa f e) = en_queue e"
  by (simp add: upd_worker_def)

lemma release_worker_queue [simp]: "en_queue (snd (release_worker wid e)) = en_queue e"
  by (simp add: release_worker_def split: option.split)

lemma task_write_inv:
  assumes "engine_inv (e\<lparr>en_queue := q\<rparr>)"
  shows "engine_inv (snd (save_task now a res (gap io n (e\<lparr>en_queue := q\<rparr>))))"
  by (intro save_task_inv gap_inv assms)

lemma report_result_inv [keeps_inv]:
  assumes inv: "engine_inv e"
  shows "engine_inv (snd (report_result io r e))"
proof (cases "dict_get (tasks (en_queue e)) (tr_task_id r)")
  case None
  then show ?thesis using inv by (simp add: report_result_def get_eq)
next
  case (Some a)
  obtain rw e1 where rw: "release_worker (tr_worker_id r) e = (rw, e1)" by (cases "release_worker (tr_worker_id r) e")
  have e1: "engine_inv e1" "en_queue e1 = en_queue e"
    using release_worker_inv [OF inv, of "tr_worker_id r"] release_worker_queue [of "tr_worker_id r" e] rw by simp_all
  have g: "engine_inv (gap io 0 e1)" "dict_get (tasks (en_queue (gap io 0 e1))) (tr_task_id r) = Some a"
    using gap_inv [OF e1(1)] gap_tasks [OF e1(1)] e1(2) Some by simp_all
  obtain s e2 where s: "settle_task io r (gap io 0 e1) = (Inr (a, s), e2)"
    and t: "tasks (en_queue e2) = tasks (en_queue (gap io 0 e1))"
    using settle_task_known [OF g, of io] by (metis engine.select_convs(2) engine.surjective engine.update_convs(2,8))
  have e2: "engine_inv e2" using settle_task_inv [OF g(1), of io r] s by simp
  define e3 where "e3 = gap io 1 (e2\<lparr>en_results := dict_set (tr_task_id r) r (en_results e2)\<rparr>)"
  have e3: "engine_inv e3"
    unfolding e3_def using t g(2) by (intro gap_inv add_result_inv [OF e2]) simp
  obtain rt e4 where rt: "save_task (io_clk io 2) a (Some r) e3 = (rt, e4)" by (cases "save_task (io_clk io 2) a (Some r) e3")
  have e4: "engine_inv e4" using save_task_inv [OF e3, of "io_clk io 2" a "Some r"] rt by simp
  have e5: "engine_inv (gap io 2 (log_outcome (io_clk io 3) r e4))" by (intro gap_inv log_outcome_inv e4)
  show ?thesis
    using Some rw s rt e1 e2 e4 e5 by (auto simp: report_result_def get_eq Let_def e3_def split: sum.split)
qed

lemma cancel_task_inv [keeps_inv]:
  assumes inv: "engine_inv e"
  shows "engine_inv (snd (cancel_task io tid e))"
proof -
  note b = engine_invD(1) [OF inv]
  let ?q = "snd (cancel tid (en_queue e))"
  have "tasks ?q = tasks (en_queue e)" using cancel_eq [OF b] by (simp split: option.split)
  then have "engine_inv (e\<lparr>en_queue := ?q\<rparr>)" by (rule engine_inv_queue [OF inv cancel_inv [OF b]])
  note w = this task_write_inv [OF this]
  show ?thesis
  proof (cases "cancel tid (en_queue e)")
    case (Pair x q)
    show ?thesis
    proof (cases x)
      case (Inr a)
      have "engine_inv (snd (save_task (io_clk io 0) a None (gap io 0 (e\<lparr>en_queue := q\<rparr>))))"
        using w(2) Pair by simp
      then show ?thesis
        using Inr Pair by (cases "save_task (io_clk io 0) a None (gap io 0 (e\<lparr>en_queue := q\<rparr>))")
          (auto simp: cancel_task_def split: sum.split)
    qed (use w(1) Pair in \<open>simp add: cancel_task_def\<close>)
  qed
qed

lemma retry_tasks: "broker_inv q \<Longrightarrow> tasks (snd (retry clk tid reason q)) = tasks q"
  by (cases "dict_get (tasks q) tid") (simp_all add: retry_unknown retry_known)

lemma retry_task_inv [keeps_inv]:
  assumes inv: "engine_inv e"
  shows "engine_inv (snd (retry_task io tid e))"
proof -
  note b = engine_invD(1) [OF inv]
  let ?q = "snd (retry (io_clk io) tid ''manual retry'' (en_queue e))"
  have "engine_inv (e\<lparr>en_queue := ?q\<rparr>)" by (rule engine_inv_queue [OF inv retry_inv [OF b] retry_tasks [OF b]])
  note w = this task_write_inv [OF this]
  show ?thesis
  proof (cases "retry (io_clk io) tid ''manual retry'' (en_queue e)")
    case (Pair x q)
    show ?thesis
    proof (cases x)
      case (Inr a)
      have "engine_inv (snd (save_task (io_clk io 2) a None (gap io 0 (e\<lparr>en_queue := q\<rparr>))))"
        using w(2) Pair by simp
      then show ?thesis
        using Inr Pair by (cases "save_task (io_clk io 2) a None (gap io 0 (e\<lparr>en_queue := q\<rparr>))")
          (auto simp: retry_task_def split: sum.split)
    qed (use w(1) Pair in \<open>simp add: retry_task_def\<close>)
  qed
qed

lemma lease_reaper_inv [keeps_inv]:
  assumes inv: "engine_inv e"
  shows "engine_inv (snd (lease_reaper_pass clk io e))"
proof -
  note b = engine_invD(1) [OF inv]
  from requeue_spec [OF b] obtain as q where
    r: "requeue_expired_leases clk (en_queue e) = (Inr as, q)" and q: "requeued (clk 0) (inflight (en_queue e)) (en_queue e) as q"
    by blast
  have "engine_inv (e\<lparr>en_queue := q\<rparr>)" using q by (intro engine_inv_queue [OF inv]) (simp_all add: requeued_def)
  then show ?thesis using r by (simp add: lease_reaper_pass_def save_tasks_inv)
qed

lemma snapshot_tasks [simp]: "tasks (snd (snapshot now q)) = tasks q"
  by (simp add: snapshot_def Let_def)

lemma take_snapshot_inv [keeps_inv]: "engine_inv e \<Longrightarrow> engine_inv (snd (take_snapshot now e))"
  using engine_inv_queue [OF _ snapshot_inv [OF engine_invD(1)]]
  by (simp add: take_snapshot_def split: prod.split) (metis snapshot_tasks snd_conv)

lemma pressure_reporter_inv [keeps_inv]: "engine_inv e \<Longrightarrow> engine_inv (pressure_reporter_pass io e)"
  using take_snapshot_inv [of e "io_clk io 0"]
  by (cases "snapshot (io_clk io 0) (en_queue e)") (simp add: pressure_reporter_pass_def take_snapshot_def Let_def)

lemma metrics_inv [keeps_inv]: "engine_inv e \<Longrightarrow> engine_inv (snd (metrics host pid now e))"
  using take_snapshot_inv [of e now] by (cases "take_snapshot now e") (simp add: metrics_def Let_def)

lemma autoscaling_inv [keeps_inv]: "engine_inv e \<Longrightarrow> engine_inv (snd (autoscaling_recommendation now e))"
  using take_snapshot_inv [of e now] by (cases "take_snapshot now e") (simp add: autoscaling_recommendation_def Let_def)

lemma services_inv [keeps_inv]:
  "engine_inv e \<Longrightarrow> engine_inv (start_background_services e)"
  "engine_inv e \<Longrightarrow> engine_inv (stop_background_services e)"
  by (simp_all add: start_background_services_def stop_background_services_def)

section \<open>Batches\<close>

text \<open>What the handler needs of \<open>uuid4()\<close>: the ids are new and different.\<close>

definition fresh_hexes :: "io \<Rightarrow> nat \<Rightarrow> nat \<Rightarrow> engine \<Rightarrow> bool" where
  "fresh_hexes io i n e \<longleftrightarrow> distinct (map (io_hex io) [i..<i + n]) \<and> list_all (\<lambda>j. fresh_hex (io_hex io j) e) [i..<i + n]"

lemma alloc_tasks_spec:
  assumes "engine_inv e"
  shows "alloc_tasks io i ss e = (as, e') \<Longrightarrow> engine_inv e' \<and> tasks (en_queue e') = tasks (en_queue e)
     \<and> as = [en_next e..<en_next e + length ss] \<and> en_next e' = en_next e + length ss
     \<and> (\<forall>a < en_next e. task_at e' a = task_at e a)
     \<and> map (\<lambda>a. te_task_id (task_at e' a)) as = map (\<lambda>j. ''task-'' @ io_hex io j) [i..<i + length ss]
     \<and> max_depth (en_queue e') = max_depth (en_queue e)"
  using assms
proof (induction ss arbitrary: i e as e')
  case (Cons s ss)
  obtain a e1 where al: "alloc_task (new_envelope (io_hex io i) (later (2 * i) (io_clk io)) (normalized s)) e = (a, e1)"
    by (cases "alloc_task (new_envelope (io_hex io i) (later (2 * i) (io_clk io)) (normalized s)) e")
  obtain bs where rest: "alloc_tasks io (Suc i) ss e1 = (bs, e')" and as: "as = a # bs"
    using Cons.prems(1) al by (auto split: prod.splits)
  note e1 = alloc_task_inv [OF Cons.prems(2) al]
  have n1: "en_next e1 = Suc (en_next e)" "max_depth (en_queue e1) = max_depth (en_queue e)"
    "\<And>b. b \<noteq> a \<Longrightarrow> task_at e1 b = task_at e b"
    using al by (auto simp: alloc_task_def task_at_def)
  note ih = Cons.IH [OF rest e1(1)]
  have "te_task_id (task_at e' a) = ''task-'' @ io_hex io i"
    using ih n1(1) e1(2,3) by simp
  moreover have up: "[m..<m + length (s # ss)] = m # [Suc m..<Suc m + length ss]" for m
    by (simp add: upt_conv_Cons del: upt_Suc)
  moreover have "map (\<lambda>a. te_task_id (task_at e' a)) bs = map (\<lambda>j. ''task-'' @ io_hex io j) [Suc i..<Suc i + length ss]"
    using ih by blast
  ultimately have "map (\<lambda>a. te_task_id (task_at e' a)) as
      = map (\<lambda>j. ''task-'' @ io_hex io j) [i..<i + length (s # ss)]"
    by (simp only: as up list.map)
  moreover have "as = [en_next e..<en_next e + length (s # ss)]"
    using ih n1(1) e1(2) unfolding as up by simp
  ultimately show ?case
    using ih n1 e1(2,4) by simp
qed simp

lemma submit_many_fields:
  "dom (map_of (tasks q)) \<subseteq> dom (map_of (tasks (snd (submit_many clk as q))))
   \<and> ran (map_of (tasks (snd (submit_many clk as q)))) \<subseteq> ran (map_of (tasks q)) \<union> set as"
proof (induction clk as q rule: submit_many.induct)
  case (2 clk a as q)
  show ?case
  proof (cases "depth q \<ge> max_depth q")
    case False
    have "dom (map_of (tasks q)) \<subseteq> dom (map_of (tasks (admit clk a q)))"
      "ran (map_of (tasks (admit clk a q))) \<subseteq> insert a (ran (map_of (tasks q)))"
      by (auto simp: ran_def)
    moreover have eq: "snd (submit_many clk (a # as) q) = snd (submit_many (later 2 clk) as (admit clk a q))"
      using False by (cases "submit_many (later 2 clk) as (admit clk a q)") (auto split: sum.split)
    moreover have "set (a # as) = insert a (set as)" by simp
    moreover note "2.IH" [OF False]
    ultimately show ?thesis unfolding eq by blast
  qed auto
qed auto

lemma batch_fresh:
  assumes inv: "engine_inv e" and fresh: "fresh_hexes io 0 (length ss) e"
    and al: "alloc_tasks io 0 ss e = (as, e1)"
  shows "fresh_batch as (en_queue e1)"
proof -
  note s = alloc_tasks_spec [OF inv al]
  have ids: "map (\<lambda>a. te_task_id (objs (en_queue e1) a)) as = map (\<lambda>j. ''task-'' @ io_hex io j) [0..<0 + length ss]"
    using s unfolding task_at_def by blast
  have "inj_on (io_hex io) {0..<length ss}"
    using fresh by (simp add: fresh_hexes_def distinct_map)
  then have "distinct (map (\<lambda>a. te_task_id (objs (en_queue e1) a)) as)"
    unfolding ids by (auto simp: distinct_map inj_on_def)
  moreover have "dict_get (tasks (en_queue e1)) (te_task_id (objs (en_queue e1) a)) = None" if "a \<in> set as" for a
  proof -
    have "te_task_id (objs (en_queue e1) a) \<in> set (map (\<lambda>a. te_task_id (objs (en_queue e1) a)) as)"
      using that by auto
    then obtain j where "j < length ss" "te_task_id (objs (en_queue e1) a) = ''task-'' @ io_hex io j"
      unfolding ids by auto
    then show ?thesis using fresh s by (simp add: fresh_hexes_def fresh_hex_def list_all_iff)
  qed
  ultimately show ?thesis by (simp add: fresh_batch_def)
qed

lemma submit_batch_queue_inv:
  assumes inv: "engine_inv e" and fresh: "fresh_hexes io 0 (length ss) e"
    and al: "alloc_tasks io 0 ss e = (as, e1)"
  shows "engine_inv (e1\<lparr>en_queue := snd (submit_many clk as (en_queue e1))\<rparr>)"
proof -
  note s = alloc_tasks_spec [OF inv al] and batch = batch_fresh [OF inv fresh al]
  have e1: "engine_inv e1" using s by blast
  show ?thesis
  proof (rule engine_inv_admitted [OF e1])
    show "broker_inv (snd (submit_many clk as (en_queue e1)))"
      by (rule submit_many_inv [OF engine_invD(1) [OF e1] batch])
    fix b assume "b \<in> ran (map_of (tasks (snd (submit_many clk as (en_queue e1)))))"
    then have "b \<in> ran (map_of (tasks (en_queue e1))) \<or> b \<in> set as" using submit_many_fields by fast
    then show "b < en_next e1"
      using s engine_invD(4) [OF e1] by (auto simp: addrs_ok_def)
  qed (use submit_many_fields in blast)
qed

lemma submit_batch_inv [keeps_inv]:
  assumes inv: "engine_inv e" and fresh: "fresh_hexes io 0 (length ss) e"
  shows "engine_inv (snd (submit_batch io ss e))"
proof -
  let ?clk = "later (2 * length ss) (io_clk io)"
  obtain as e1 where al: "alloc_tasks io 0 ss e = (as, e1)" by (cases "alloc_tasks io 0 ss e")
  obtain r q where sm: "submit_many ?clk as (en_queue e1) = (r, q)" by (cases "submit_many ?clk as (en_queue e1)")
  have q: "engine_inv (e1\<lparr>en_queue := q\<rparr>)" using submit_batch_queue_inv [OF inv fresh al, of ?clk] sm by simp
  have "engine_inv (snd (save_tasks io n bs (e1\<lparr>en_queue := q\<rparr>)))" for n bs by (rule save_tasks_inv [OF q])
  with q al sm show ?thesis
    by (auto simp: submit_batch_def Let_def split: sum.split prod.split) (metis snd_conv)+
qed

section \<open>The transition system\<close>

text \<open>
  One step of the event loop or of a thread.  \<open>finish\<close> is a coroutine of \<open>reserve_task\<close> that runs on
  after its thread has returned; the polls of these threads and the requeueing of the lease reaper
  are \<open>thread\<close> steps.  \<open>leases\<close> is a pass of the lease reaper that nothing interrupts; when other handlers run
  between the return of its thread and its writes, it is a \<open>thread\<close> step and, later, \<open>lease_rows\<close> with the
  tasks it got.
\<close>

inductive engine_step :: "engine \<Rightarrow> engine \<Rightarrow> bool" where
  submit: "fresh_hex (io_hex io 0) e \<Longrightarrow> engine_step e (snd (submit_task io spec e))"
| batch: "fresh_hexes io 0 (length ss) e \<Longrightarrow> engine_step e (snd (submit_batch io ss e))"
| register: "engine_step e (snd (register_worker io w e))"
| beat: "engine_step e (snd (heartbeat io wid running e))"
| thread: "engine_step e (e\<lparr>en_queue := run_thread s (en_queue e)\<rparr>)"
| finish: "engine_step e (snd (reserve_finish io wid wa a e))"
| report: "engine_step e (snd (report_result io r e))"
| cancel: "engine_step e (snd (cancel_task io tid e))"
| retry: "engine_step e (snd (retry_task io tid e))"
| start: "engine_step e (start_background_services e)"
| stop: "engine_step e (stop_background_services e)"
| reap: "engine_step e (snd (heartbeat_reaper_pass clk e))"
| leases: "engine_step e (snd (lease_reaper_pass clk io e))"
| lease_rows: "set as \<subseteq> ran (map_of (tasks (en_queue e))) \<Longrightarrow> engine_step e (snd (save_tasks io n as e))"
| pressure: "engine_step e (pressure_reporter_pass io e)"
| snapshot: "engine_step e (snd (take_snapshot now e))"

inductive engine_reachable :: "engine \<Rightarrow> bool" where
  new: "store_inv s \<Longrightarrow> engine_reachable (new_engine cfg s os ws)"
| step: "engine_reachable e \<Longrightarrow> engine_step e e' \<Longrightarrow> engine_reachable e'"

lemma thread_inv [keeps_inv]: "engine_inv e \<Longrightarrow> engine_inv (e\<lparr>en_queue := run_thread s (en_queue e)\<rparr>)"
  using gap_inv [of e "\<lparr>io_clk = \<lambda>_. 0, io_hex = \<lambda>_. '''', io_threads = \<lambda>_. [s]\<rparr>" 0]
  by (simp add: gap_def)

lemma engine_step_inv: "engine_step e e' \<Longrightarrow> engine_inv e \<Longrightarrow> engine_inv e'"
  by (induction rule: engine_step.induct) (auto intro: keeps_inv)

lemma engine_reachable_inv: "engine_reachable e \<Longrightarrow> engine_inv e"
  by (induction rule: engine_reachable.induct) (auto intro: new_engine_inv engine_step_inv)

end
