(* ===== verification/Engine_Frame.thy ===== *)
theory Engine_Frame
  imports Engine_Steps
begin

text \<open>
  What the handlers leave alone.  A component of the scheduler's state that no write to the store, the queue,
  the bus, the locks, the workers or the counters touches is the same after every handler; the locale
  proves it once, for every such component.
\<close>

section \<open>Handlers as sequences of calls\<close>

text \<open>A call that may raise, followed by the rest of a handler.\<close>

lemma call_then:
  assumes "P (snd p)" and "\<And>y e1. p = (Inr y, e1) \<Longrightarrow> P e1 \<Longrightarrow> P (snd (f y e1))"
  shows "P (snd (case p of (Inl x, e1) \<Rightarrow> (Inl (g x), e1) | (Inr y, e1) \<Rightarrow> f y e1))"
  using assms by (cases p; cases "fst p") auto

text \<open>The same for a call of the queue.\<close>

lemma queue_call_then:
  assumes "\<And>q. P (e\<lparr>en_queue := q\<rparr>)" and "\<And>y q. P (snd (f y q))"
  shows "P (snd (case p of (Inl x, q) \<Rightarrow> (Inl (g x), e\<lparr>en_queue := q\<rparr>) | (Inr y, q) \<Rightarrow> f y q))"
  using assms by (cases p; cases "fst p") auto

section \<open>Untouched components\<close>

locale engine_frame =
  fixes field :: "engine \<Rightarrow> 'f"
  assumes field_writes [simp]:
    "field (e\<lparr>en_store := s\<rparr>) = field e" "field (e\<lparr>en_queue := q\<rparr>) = field e"
    "field (e\<lparr>en_bus := b\<rparr>) = field e" "field (e\<lparr>en_locks := m\<rparr>) = field e"
    "field (e\<lparr>en_workers := ws\<rparr>) = field e" "field (e\<lparr>en_wobjs := os\<rparr>) = field e"
    "field (e\<lparr>en_drain := d\<rparr>) = field e" "field (e\<lparr>en_results := rs\<rparr>) = field e"
    "field (e\<lparr>en_next := n\<rparr>) = field e" "field (e\<lparr>en_wnext := n\<rparr>) = field e"
begin

lemma frame_gap [simp]: "field (gap io n e) = field e"
  by (simp add: gap_def)

lemma frame_save_worker [simp]: "field (snd (save_worker wa e)) = field e"
  by (simp add: save_worker_eq)

lemma frame_upd_worker [simp]: "field (upd_worker wa f e) = field e"
  by (simp add: upd_worker_def)

lemma frame_release_worker [simp]: "field (snd (release_worker wid e)) = field e"
  by (simp add: release_worker_def split: option.split)

lemma frame_alloc_task [simp]: "field (snd (alloc_task t e)) = field e"
  by (simp add: alloc_task_def)

lemma frame_save_task [simp]: "field (snd (save_task now a res e)) = field e"
  by (simp add: save_task_eq)

lemma frame_announce [simp]: "field (announce io h n ty p e) = field e"
  by (simp add: announce_def)

lemma frame_log_outcome [simp]: "field (log_outcome now r e) = field e"
  by (simp add: log_outcome_def)

lemma frame_save_tasks [simp]: "field (snd (save_tasks io n as e)) = field e"
proof (induction as arbitrary: n e)
  case (Cons a as)
  show ?case
    unfolding save_tasks.simps
    by (rule call_then [where P = "\<lambda>x. field x = field e"]) (simp_all add: Cons)
qed simp

lemma frame_alloc_tasks [simp]: "field (snd (alloc_tasks io i ss e)) = field e"
proof (induction ss arbitrary: i e)
  case (Cons s ss)
  let ?a = "alloc_task (new_envelope (io_hex io i) (later (2 * i) (io_clk io)) (normalized s)) e"
  have "field (snd (alloc_tasks io (Suc i) ss (snd ?a))) = field e" by (simp add: Cons)
  then show ?case by (cases ?a; cases "alloc_tasks io (Suc i) ss (snd ?a)") simp
qed simp

lemma frame_submit_locked [simp]: "field (snd (submit_locked io spec e)) = field e"
proof -
  let ?t = "new_envelope (io_hex io 0) (io_clk io) (normalized spec)"
  obtain a e1 where al: "alloc_task ?t e = (a, e1)" by (cases "alloc_task ?t e")
  then have "field e1 = field e" using frame_alloc_task [of ?t e] by simp
  then show ?thesis by (simp add: submit_locked_eq [OF al] Let_def)
qed

lemma frame_submit_task: "engine_inv e \<Longrightarrow> field (snd (submit_task io spec e)) = field e"
  by (rule submit_task_eq [of e io spec], assumption)
    (use frame_submit_locked [of io spec e] in \<open>auto split: sum.split\<close>)

lemma frame_submit_batch: "field (snd (submit_batch io ss e)) = field e"
proof -
  obtain as e1 where al: "alloc_tasks io 0 ss e = (as, e1)" by (cases "alloc_tasks io 0 ss e")
  then have e1: "field e1 = field e" using frame_alloc_tasks [of io 0 ss e] by simp
  obtain r q where sm: "submit_many (later (2 * length ss) (io_clk io)) as (en_queue e1) = (r, q)" by fastforce
  show ?thesis
  proof (cases r)
    case (Inr bs)
    have "field (snd (case save_tasks io (4 * length ss) bs (e1\<lparr>en_queue := q\<rparr>) of
        (Inl x, e2) \<Rightarrow> (Inl x, e2)
      | (Inr _, e2) \<Rightarrow> (Inr bs, (announce io (length ss) (5 * length ss) TASK_SUBMITTED
          [(''batch_size'', PInt (int (length bs)))] e2)\<lparr>en_drain := True\<rparr>))) = field e"
      by (rule call_then [where P = "\<lambda>x. field x = field e"]) (simp_all add: e1)
    then show ?thesis using al sm Inr by (simp add: submit_batch_def Let_def)
  qed (use al sm e1 in \<open>simp add: submit_batch_def Let_def\<close>)
qed

lemma frame_register_worker: "field (snd (register_worker io w e)) = field e"
  unfolding register_worker_def Let_def
  by (rule call_then [where P = "\<lambda>x. field x = field e"]) simp_all

lemma frame_heartbeat: "field (snd (heartbeat io wid n e)) = field e"
proof (cases "dict_get (en_workers e) wid")
  case (Some wa)
  show ?thesis
    unfolding heartbeat_def Some option.case Let_def
    by (rule call_then [where P = "\<lambda>x. field x = field e"]) simp_all
qed (simp add: heartbeat_def)

lemma frame_reserve_finish: "field (snd (reserve_finish io wid wa a e)) = field e"
  unfolding reserve_finish_def Let_def
  by (rule call_then [where P = "\<lambda>x. field x = field e"], simp,
      rule call_then [where P = "\<lambda>x. field x = field e"]) simp_all

lemma frame_cancel_task: "field (snd (cancel_task io tid e)) = field e"
  unfolding cancel_task_def
  by (rule queue_call_then [where P = "\<lambda>x. field x = field e"], simp,
      rule call_then [where P = "\<lambda>x. field x = field e"]) simp_all

lemma frame_retry_task: "field (snd (retry_task io tid e)) = field e"
  unfolding retry_task_def
  by (rule queue_call_then [where P = "\<lambda>x. field x = field e"], simp,
      rule call_then [where P = "\<lambda>x. field x = field e"]) simp_all

lemma frame_lease_reaper: "field (snd (lease_reaper_pass clk io e)) = field e"
  unfolding lease_reaper_pass_def
  by (rule queue_call_then [where P = "\<lambda>x. field x = field e"]) simp_all

lemma frame_reap_workers: "field (snd (reap_workers now clk was e)) = field e"
proof (induction was arbitrary: clk e)
  case (Cons wa was)
  have "field (snd (case save_worker wa (upd_worker wa (\<lambda>w. w\<lparr>wi_status := OFFLINE\<rparr>) e) of
      (Inl x, e1) \<Rightarrow> (Inl x, e1)
    | (Inr _, e1) \<Rightarrow> reap_workers now (later 1 clk) was
        (e1\<lparr>en_store := mark_worker_offline (clk 0) (wi_worker_id (en_wobjs e1 wa)) (en_store e1)\<rparr>))) = field e"
    by (rule call_then [where P = "\<lambda>x. field x = field e"]) (simp_all add: Cons)
  then show ?case using Cons [of clk e] by (simp del: later_apply)
qed simp

lemma frame_heartbeat_reaper: "field (snd (heartbeat_reaper_pass clk e)) = field e"
  by (simp add: heartbeat_reaper_pass_def frame_reap_workers)

lemma frame_pressure_reporter: "field (pressure_reporter_pass io e) = field e"
  by (simp add: pressure_reporter_pass_def Let_def split: prod.split)

lemma frame_take_snapshot: "field (snd (take_snapshot now e)) = field e"
  by (simp add: take_snapshot_def Let_def split: prod.split)

lemmas frame_handlers = frame_submit_task frame_submit_batch frame_register_worker frame_heartbeat
  frame_reserve_finish frame_cancel_task frame_retry_task frame_lease_reaper frame_heartbeat_reaper
  frame_pressure_reporter frame_take_snapshot

end

text \<open>A component that reports of success do not touch either.\<close>

locale engine_frame_reports = engine_frame +
  assumes field_completed [simp]: "field (e\<lparr>en_completed := c\<rparr>) = field e"
begin

lemma frame_settle_task [simp]: "field (snd (settle_task io r e)) = field e"
  by (auto simp: settle_task_def split: prod.split sum.split)

lemma frame_report_result: "field (snd (report_result io r e)) = field e"
proof (cases "get (tr_task_id r) (en_queue e)")
  case (Inr a)
  let ?P = "\<lambda>x. field x = field e"
  show ?thesis
    unfolding report_result_def Inr sum.case Let_def
  proof (rule call_then [where P = ?P], goal_cases)
    case (2 y e1)
    show ?case
    proof (rule call_then [where P = ?P], goal_cases)
      case (2 z e2)
      obtain a ty where z: "z = (a, ty)" by (cases z)
      show ?case unfolding z prod.case by (rule call_then [where P = ?P]) (use 2 in simp_all)
    qed (use 2 in simp)
  qed simp
qed (simp add: report_result_def)

text \<open>Only starting and stopping the services are left.\<close>

lemma frame_step:
  assumes "engine_step e e'" "engine_inv e"
  shows "field e' = field e \<or> e' = start_background_services e \<or> e' = stop_background_services e"
  using assms by (induction rule: engine_step.induct) (simp_all add: frame_handlers frame_report_result)

end

end
