(* ===== verification/Engine_Submit.thy ===== *)
theory Engine_Submit
  imports Engine_Frame Broker_Props
begin

text \<open>Properties of the scheduler: its invariant, and what the two submitting handlers do.\<close>

section \<open>Consistency\<close>

text \<open>A new scheduler, an environment without threads, and a first submitted task.\<close>

definition demo_settings :: settings where
  "demo_settings = (default_settings (Some 4))\<lparr>st_max_queue_depth := 2\<rparr>"

definition quiet :: "seconds \<Rightarrow> (nat \<Rightarrow> string) \<Rightarrow> io" where
  "quiet t hex = \<lparr>io_clk = \<lambda>_. t, io_hex = hex, io_threads = \<lambda>_. []\<rparr>"

definition demo_engine :: engine where
  "demo_engine = new_engine demo_settings new_store demo_objs (\<lambda>_. demo_worker)"

definition demo_hex :: "nat \<Rightarrow> string" where
  "demo_hex n = show_nat n"

definition demo_submitted :: engine where
  "demo_submitted = snd (submit_task (quiet 10 demo_hex) (default_spec ''m:f'') demo_engine)"

lemma demo_engine_reachable: "engine_reachable demo_engine"
  unfolding demo_engine_def by (rule engine_reachable.new) simp

lemma fresh_hex_demo: "fresh_hex hex demo_engine"
  by (simp add: fresh_hex_def demo_engine_def new_engine_def new_broker_def)

lemma demo_submitted_reachable: "engine_reachable demo_submitted"
  unfolding demo_submitted_def
  by (rule engine_reachable.step [OF demo_engine_reachable engine_step.submit [OF fresh_hex_demo]])

text \<open>
  C15. In every state the scheduler can reach, whatever handlers, background passes and threads have
  run in any order: no lock is held or waited for between two steps of the event loop; the workers
  are registered under their own ids; the completed tasks and the recorded results belong to tasks of
  the queue; every task is filed under its own id with a normalised specification; the primary keys
  of both tables are unique and the log ids increase.
\<close>
theorem engine_consistent:
  assumes "engine_reachable e"
  shows "lock_of key (en_locks e) = new_lock
    \<and> (dict_get (en_workers e) wid = Some wa \<longrightarrow> wi_worker_id (en_wobjs e wa) = wid)
    \<and> (tid \<in> en_completed e \<or> dict_get (en_results e) tid \<noteq> None \<longrightarrow> dict_get (tasks (en_queue e)) tid \<noteq> None)
    \<and> (dict_get (tasks (en_queue e)) tid = Some a \<longrightarrow> te_task_id (task_at e a) = tid \<and> spec_ok (te_spec (task_at e a)))
    \<and> distinct (map rt_task_id (db_tasks (en_store e))) \<and> distinct (map rw_worker_id (db_workers (en_store e)))
    \<and> sorted_wrt (<) (map rl_id (db_logs (en_store e)))"
proof -
  note inv = engine_reachable_inv [OF assms]
  note d = engine_invD [OF inv]
  have "tid \<in> fst ` set (en_results e)" if "dict_get (en_results e) tid \<noteq> None"
    using that by (auto dest: map_of_SomeD intro: rev_image_eqI)
  then have "dict_get (tasks (en_queue e)) tid \<noteq> None"
    if "tid \<in> en_completed e \<or> dict_get (en_results e) tid \<noteq> None"
    using that d(6) by (auto simp: known_ok_def dom_def)
  moreover have "te_task_id (task_at e a) = tid \<and> spec_ok (te_spec (task_at e a))"
    if "dict_get (tasks (en_queue e)) tid = Some a"
    using binvD(3) [OF d(1)] that by (simp add: ids_ok_def task_at_def)
  ultimately show ?thesis
    using d(2,3,5) by (simp add: store_inv_def locks_free_def workers_ok_def)
qed

theorem engine_consistent_witness:
  "lock_of ''queue:default'' (en_locks demo_submitted) = new_lock
    \<and> te_task_id (task_at demo_submitted 0) = ''task-0'' \<and> spec_ok (te_spec (task_at demo_submitted 0))"
proof -
  have "dict_get (tasks (en_queue demo_submitted)) ''task-0'' = Some 0" by code_simp
  with engine_consistent [OF demo_submitted_reachable, of "''queue:default''" _ _ "''task-0''" 0]
  show ?thesis by simp
qed

section \<open>Submitting\<close>

lemma alloc_depth:
  assumes inv: "engine_inv e" and al: "alloc_task t e = (a, e1)"
  shows "depth (en_queue e1) = depth (en_queue e)" "max_depth (en_queue e1) = max_depth (en_queue e)"
    "en_store e1 = en_store e" "en_bus e1 = en_bus e"
proof -
  have "b \<noteq> a" if "(i, b) \<in> set (tasks (en_queue e))" for i b
  proof -
    have "dict_get (tasks (en_queue e)) i = Some b"
      using that binvD(1) [OF engine_invD(1) [OF inv]] by (simp add: dicts_ok_def dict_ok_def)
    then show ?thesis using alloc_task_inv(5) [OF inv al] by (auto simp: ran_def)
  qed
  moreover have "e1 = e\<lparr>en_next := Suc a, en_queue := (en_queue e)\<lparr>objs := (objs (en_queue e))(a := t)\<rparr>\<rparr>"
    using al by (auto simp: alloc_task_def)
  ultimately have "filter (\<lambda>(i, b). te_status (objs (en_queue e1) b) \<in> terminal) (tasks (en_queue e))
      = filter (\<lambda>(i, b). te_status (objs (en_queue e) b) \<in> terminal) (tasks (en_queue e))"
    by (intro filter_cong) auto
  then show "depth (en_queue e1) = depth (en_queue e)" "max_depth (en_queue e1) = max_depth (en_queue e)"
    "en_store e1 = en_store e" "en_bus e1 = en_bus e"
    using al by (auto simp: depth_def alloc_task_def)
qed

definition stored_as :: "task_envelope \<Rightarrow> task_row option \<Rightarrow> bool" where
  "stored_as t row \<longleftrightarrow> (\<exists>r. row = Some r \<and> rt_task_id r = te_task_id t \<and> rt_status r = te_status t
     \<and> rt_attempts r = te_attempts t \<and> rt_error r = te_last_error t
     \<and> rt_assigned_worker r = te_assigned_worker t)"

lemma stored_as_upsert:
  assumes "task_fits t"
  shows "stored_as t (task_row (te_task_id t) (snd (upsert_task now t res s)))"
proof (cases "task_row (te_task_id t) s")
  case None
  then show ?thesis using assms by (simp add: stored_as_def task_row_upsert_task task_row_of_def)
next
  case (Some r)
  then have "rt_task_id r = te_task_id t" by (rule lookup_row_key)
  with Some assms show ?thesis
    by (simp add: stored_as_def task_row_upsert_task task_row_of_def merge_task_row_def)
qed

lemma save_task_ok:
  assumes "task_fits (task_at e a)"
  shows "fst (save_task now a res e) = Inr ()"
    "stored_as (task_at e a) (task_row (te_task_id (task_at e a)) (en_store (snd (save_task now a res e))))"
proof -
  obtain s where "upsert_task now (task_at e a) res (en_store e) = (Inr (), s)"
    using upsert_task_ok [OF assms] by (metis prod.collapse)
  then show "fst (save_task now a res e) = Inr ()"
    "stored_as (task_at e a) (task_row (te_task_id (task_at e a)) (en_store (snd (save_task now a res e))))"
    using stored_as_upsert [OF assms, of now res "en_store e"] by (simp_all add: save_task_def)
qed

lemma save_task_fails:
  assumes "\<not> task_fits (task_at e a)"
  shows "\<exists>i. save_task now a res e = (Inl (StoreError (OverflowError i)), e)"
  using upsert_task_fails [OF assms, of now res "en_store e"] by (auto simp: save_task_def)

lemma task_at_gap:
  assumes "engine_inv e"
  shows "te_spec (task_at (gap io n e) a) = te_spec (task_at e a)"
    "te_task_id (task_at (gap io n e) a) = te_task_id (task_at e a)"
  using gap_rely [OF assms, of io n] by (simp_all add: thread_rely_def task_at_def)

lemma submit_task_outcomes:
  assumes "engine_reachable e" and "fresh_hex (io_hex io 0) e"
  shows "let (r, e') = submit_task io spec e; tid = ''task-'' @ io_hex io 0
    in if depth (en_queue e) \<ge> max_depth (en_queue e)
       then r = Inl (QueueError (QueueFullError (depth (en_queue e)) (max_depth (en_queue e))))
         \<and> tasks (en_queue e') = tasks (en_queue e) \<and> en_store e' = en_store e \<and> en_bus e' = en_bus e
       else \<exists>a. tasks (en_queue e') = tasks (en_queue e) @ [(tid, a)]
         \<and> te_task_id (task_at e' a) = tid \<and> te_spec (task_at e' a) = normalized spec
         \<and> (if task_fits (task_at e' a)
            then r = Inr a \<and> stored_as (task_at e' a) (task_row tid (en_store e'))
              \<and> en_bus e' = publish (new_event (io_hex io 1) (io_clk io 5) TASK_SUBMITTED
                   [(''task_id'', PStr tid), (''queue'', PStr (ts_queue (normalized spec)))]) (en_bus e)
            else (\<exists>i. r = Inl (StoreError (OverflowError i))) \<and> en_store e' = en_store e \<and> en_bus e' = en_bus e)"
proof (rule submit_task_eq [OF engine_reachable_inv [OF assms(1)], of io spec])
  fix m r1 e1
  note inv = engine_reachable_inv [OF assms(1)]
  let ?t = "new_envelope (io_hex io 0) (io_clk io) (normalized spec)" and ?tid = "''task-'' @ io_hex io 0"
  assume sl: "submit_locked io spec e = (r1, e1)"
    and eq: "submit_task io spec e = (case r1 of
        Inl x \<Rightarrow> (Inl x, e1\<lparr>en_locks := m\<rparr>)
      | Inr a \<Rightarrow> (Inr a, (announce io 1 5 TASK_SUBMITTED
          [(''task_id'', PStr (te_task_id (task_at e1 a))),
           (''queue'', PStr (ts_queue (te_spec (task_at e1 a))))] (e1\<lparr>en_locks := m\<rparr>))\<lparr>en_drain := True\<rparr>))"
  obtain a e0 where al: "alloc_task ?t e = (a, e0)" by (cases "alloc_task ?t e")
  note al_eqs = alloc_task_inv [OF inv al] alloc_depth [OF inv al]
  show ?thesis
  proof (cases "depth (en_queue e) \<ge> max_depth (en_queue e)")
    case True
    with sl al_eqs have "r1 = Inl (QueueError (QueueFullError (depth (en_queue e)) (max_depth (en_queue e))))" "e1 = e0"
      by (simp_all add: submit_locked_eq [OF al] Let_def)
    with True al_eqs show ?thesis by (simp add: eq)
  next
    case False
    let ?q = "snd (submit (later 2 (io_clk io)) a (en_queue e0))" and ?e2 = "gap io 0 (e0\<lparr>en_queue := snd (submit (later 2 (io_clk io)) a (en_queue e0))\<rparr>)"
    have inv_q: "engine_inv (e0\<lparr>en_queue := ?q\<rparr>)"
      using assms(2) by (intro submitted_queue_inv [OF inv _ al]) (simp add: fresh_hex_def)
    have id_a: "te_task_id (objs (en_queue e0) a) = ?tid" "te_spec (objs (en_queue e0) a) = normalized spec"
      using al_eqs(3) by (simp_all add: task_at_def new_envelope_def)
    have "tasks ?q = dict_set ?tid a (tasks (en_queue e))"
      using False al_eqs id_a by (simp add: submit_fields)
    then have tq: "tasks (en_queue ?e2) = tasks (en_queue e) @ [(?tid, a)]"
      using assms(2) gap_tasks [OF inv_q] by (simp add: fresh_hex_def dict_set_fresh)
    have ta: "te_task_id (task_at ?e2 a) = ?tid" "te_spec (task_at ?e2 a) = normalized spec"
      using task_at_gap [OF inv_q, of io 0 a] False al_eqs id_a
      by (simp_all add: task_at_def submit_def queued_as_def)
    have r1: "r1 = (case fst (save_task (io_clk io 4) a None ?e2) of Inl x \<Rightarrow> Inl x | Inr _ \<Rightarrow> Inr a)"
      "e1 = snd (save_task (io_clk io 4) a None ?e2)"
      using sl False al_eqs by (simp_all add: submit_locked_eq [OF al] Let_def)
    have e1: "en_queue e1 = en_queue ?e2" "task_at e1 a = task_at ?e2 a" "en_bus e1 = en_bus e"
      using r1(2) al_eqs by (simp_all add: task_at_def save_task_eq)
    have "en_store ?e2 = en_store e" using al_eqs by simp
    show ?thesis
    proof (cases "task_fits (task_at ?e2 a)")
      case True
      note ok = save_task_ok [OF True, of "io_clk io 4" None]
      have "r1 = Inr a" using r1(1) ok(1) by simp
      moreover have "stored_as (task_at e1 a) (task_row ?tid (en_store e1))"
        using ok(2) ta(1) e1(2) r1(2) by simp
      ultimately show ?thesis
        using False True tq ta e1 by (simp add: eq announce_def task_at_def)
    next
      case nofit: False
      then obtain i where s: "save_task (io_clk io 4) a None ?e2 = (Inl (StoreError (OverflowError i)), ?e2)"
        using save_task_fails by blast
      then have "r1 = Inl (StoreError (OverflowError i))" "e1 = ?e2" using r1 by simp_all
      then show ?thesis
        using False nofit tq ta al_eqs e1 by (simp add: eq task_at_def)
    qed
  qed
qed

text \<open>
  C13. \<open>submit\<close> never waits for its lock, and has three outcomes, whatever threads do meanwhile.  A full
  queue raises \<open>QueueFullError\<close>: no task, row or event is added.  Otherwise the task is in the queue
  under its new id with the normalised specification; if SQLite can hold its integers, its row agrees
  with the task as the queue has it by then, one event is published and the task is returned; if not,
  the call raises \<open>OverflowError\<close> and yet the task stays in the queue, without row and event.
\<close>
theorem submit_outcomes:
  assumes "engine_reachable e" and "fresh_hex (io_hex io 0) e"
  shows "let (r, e') = submit_task io spec e; tid = ''task-'' @ io_hex io 0
    in if depth (en_queue e) \<ge> max_depth (en_queue e)
       then r = Inl (QueueError (QueueFullError (depth (en_queue e)) (max_depth (en_queue e))))
         \<and> tasks (en_queue e') = tasks (en_queue e) \<and> en_store e' = en_store e \<and> en_bus e' = en_bus e
       else \<exists>a. tasks (en_queue e') = tasks (en_queue e) @ [(tid, a)]
         \<and> te_task_id (task_at e' a) = tid \<and> te_spec (task_at e' a) = normalized spec
         \<and> (if task_fits (task_at e' a)
            then r = Inr a \<and> stored_as (task_at e' a) (task_row tid (en_store e'))
              \<and> en_bus e' = publish (new_event (io_hex io 1) (io_clk io 5) TASK_SUBMITTED
                   [(''task_id'', PStr tid), (''queue'', PStr (ts_queue (normalized spec)))]) (en_bus e)
            else (\<exists>i. r = Inl (StoreError (OverflowError i))) \<and> en_store e' = en_store e \<and> en_bus e' = en_bus e)"
  by (rule submit_task_outcomes [OF assms])

text \<open>A priority beyond 64 bits, as \<open>POST /tasks\<close> accepts it: the error leaves the task queued.\<close>

theorem submit_outcomes_witness:
  "\<exists>i. fst (submit_task (quiet 10 demo_hex) ((default_spec ''m:f'')\<lparr>ts_priority := 2 ^ 63\<rparr>) demo_engine)
      = Inl (StoreError (OverflowError i))
   \<and> map fst (tasks (en_queue (snd (submit_task (quiet 10 demo_hex)
         ((default_spec ''m:f'')\<lparr>ts_priority := 2 ^ 63\<rparr>) demo_engine)))) = [''task-0'']"
proof -
  let ?spec = "(default_spec ''m:f'')\<lparr>ts_priority := 2 ^ 63\<rparr>"
  obtain r e' where s: "submit_task (quiet 10 demo_hex) ?spec demo_engine = (r, e')"
    by (cases "submit_task (quiet 10 demo_hex) ?spec demo_engine")
  have h: "demo_hex 0 = ''0''" by code_simp
  have q: "tasks (en_queue demo_engine) = []" "\<not> max_depth (en_queue demo_engine) \<le> depth (en_queue demo_engine)"
    by (simp_all add: demo_engine_def new_engine_def new_broker_def demo_settings_def depth_def)
  have "\<not> task_fits t" if "te_spec t = normalized ?spec" for t
    using that by (simp add: task_fits_def int64_def normalized_def)
  then show ?thesis
    using submit_outcomes [OF demo_engine_reachable, of "quiet 10 demo_hex" ?spec] fresh_hex_demo s h q
    by (auto simp: quiet_def Let_def)
qed

section \<open>Batches\<close>

lemma submit_many_overflow:
  assumes "broker_inv q" and "fresh_batch as q" and "depth q \<le> max_depth q"
    and "max_depth q < depth q + int (length as)"
  shows "fst (submit_many clk as q) = Inl (QueueFullError (max_depth q) (max_depth q))
    \<and> (\<forall>tid. dict_get (tasks (snd (submit_many clk as q))) tid \<noteq> None \<longleftrightarrow>
         dict_get (tasks q) tid \<noteq> None
         \<or> tid \<in> set (map (\<lambda>a. te_task_id (objs q a)) (take (nat (max_depth q - depth q)) as)))"
  using assms
proof (induction clk as q rule: submit_many.induct)
  case (2 clk a as q)
  show ?case
  proof (cases "depth q \<ge> max_depth q")
    case True
    with "2.prems" show ?thesis by simp
  next
    case False
    let ?q = "admit clk a q" and ?k = "nat (max_depth q - depth q)"
    note f = fresh_batch_step [OF "2.prems"(2)]
    have d: "depth ?q = depth q + 1" by (rule depth_admit [OF "2.prems"(1) f(1)])
    have k: "?k = Suc (nat (max_depth ?q - depth ?q))" using False d by simp
    have ids: "te_task_id (objs ?q b) = te_task_id (objs q b)" for b by (simp add: queued_as_def)
    note IH = "2.IH" [OF False admit_inv [OF "2.prems"(1) f(1)] f(2)]
    have ov: "fst (submit_many (later 2 clk) as ?q) = Inl (QueueFullError (max_depth q) (max_depth q))
      \<and> (\<forall>tid. dict_get (tasks (snd (submit_many (later 2 clk) as ?q))) tid \<noteq> None \<longleftrightarrow>
         dict_get (tasks ?q) tid \<noteq> None
         \<or> tid \<in> set (map (\<lambda>a. te_task_id (objs q a)) (take (nat (max_depth ?q - depth ?q)) as)))"
      using IH d False "2.prems" by (simp add: ids del: later_apply admit_fields(6))
    then obtain q' where q': "submit_many (later 2 clk) as ?q = (Inl (QueueFullError (max_depth q) (max_depth q)), q')"
      by (metis prod.collapse)
    have "dict_get (tasks ?q) tid \<noteq> None \<longleftrightarrow> tid = te_task_id (objs q a) \<or> dict_get (tasks q) tid \<noteq> None" for tid
      by simp
    with ov q' False k show ?thesis by (auto simp del: later_apply)
  qed
qed simp

lemma alloc_tasks_depth:
  assumes "engine_inv e"
  shows "alloc_tasks io i ss e = (as, e1) \<Longrightarrow> depth (en_queue e1) = depth (en_queue e)
    \<and> en_store e1 = en_store e \<and> en_bus e1 = en_bus e"
  using assms
proof (induction ss arbitrary: i e as)
  case (Cons s ss)
  let ?t = "new_envelope (io_hex io i) (later (2 * i) (io_clk io)) (normalized s)"
  obtain a e0 where al: "alloc_task ?t e = (a, e0)" by (cases "alloc_task ?t e")
  obtain bs where rest: "alloc_tasks io (Suc i) ss e0 = (bs, e1)"
    using Cons.prems(1) al by (auto split: prod.splits)
  from Cons.IH [OF rest alloc_task_inv(1) [OF Cons.prems(2) al]] alloc_depth [OF Cons.prems(2) al]
  show ?case by simp
qed simp

lemma batch_ids:
  assumes "engine_inv e" and fresh: "fresh_hexes io 0 (length ss) e" and "alloc_tasks io 0 ss e = (as, e1)"
  shows "fresh_batch as (en_queue e1)"
    "map (\<lambda>a. te_task_id (objs (en_queue e1) a)) as = map (\<lambda>j. ''task-'' @ io_hex io j) [0..<length ss]"
    "length as = length ss"
proof -
  note s = alloc_tasks_spec [OF assms(1,3)]
  show ids: "map (\<lambda>a. te_task_id (objs (en_queue e1) a)) as = map (\<lambda>j. ''task-'' @ io_hex io j) [0..<length ss]"
    using s unfolding task_at_def by (metis add_0)
  show "length as = length ss" using s by simp
  show "fresh_batch as (en_queue e1)" by (rule batch_fresh [OF assms])
qed

text \<open>
  C27. A batch that does not fit raises \<open>QueueFullError\<close> but is half accepted: the tasks before the
  limit stay in the queue, to be run, while none of the batch is written to the store and no event is
  published.
\<close>
theorem failed_batch_stays_queued:
  assumes "engine_reachable e" and "fresh_hexes io 0 (length ss) e"
    and "depth (en_queue e) \<le> max_depth (en_queue e)"
    and "max_depth (en_queue e) < depth (en_queue e) + int (length ss)"
  shows "let (r, e') = submit_batch io ss e; room = nat (max_depth (en_queue e) - depth (en_queue e))
    in r = Inl (QueueError (QueueFullError (max_depth (en_queue e)) (max_depth (en_queue e))))
      \<and> en_store e' = en_store e \<and> en_bus e' = en_bus e
      \<and> (\<forall>tid. dict_get (tasks (en_queue e')) tid \<noteq> None \<longleftrightarrow> dict_get (tasks (en_queue e)) tid \<noteq> None
           \<or> tid \<in> set (map (\<lambda>j. ''task-'' @ io_hex io j) [0..<room]))"
proof -
  note inv = engine_reachable_inv [OF assms(1)]
  let ?room = "nat (max_depth (en_queue e) - depth (en_queue e))"
  obtain as e1 where al: "alloc_tasks io 0 ss e = (as, e1)" by (cases "alloc_tasks io 0 ss e")
  note spec = alloc_tasks_spec [OF inv al] and dep = alloc_tasks_depth [OF inv al]
    and ids = batch_ids [OF inv assms(2) al]
  have room: "?room \<le> length ss" using assms(3,4) by simp
  have "map (\<lambda>a. te_task_id (objs (en_queue e1) a)) (take ?room as) = map (\<lambda>j. ''task-'' @ io_hex io j) [0..<?room]"
    using arg_cong [OF ids(2), of "take ?room"] room by (simp only: take_map) (simp only: take_upt add_0)
  moreover define clk where "clk = later (2 * length ss) (io_clk io)"
  have q1: "broker_inv (en_queue e1)" "tasks (en_queue e1) = tasks (en_queue e)"
    "max_depth (en_queue e1) = max_depth (en_queue e)" "depth (en_queue e1) = depth (en_queue e)"
    using spec dep engine_invD(1) by blast+
  have "fst (submit_many clk as (en_queue e1)) = Inl (QueueFullError (max_depth (en_queue e)) (max_depth (en_queue e)))
    \<and> (\<forall>tid. dict_get (tasks (snd (submit_many clk as (en_queue e1)))) tid \<noteq> None \<longleftrightarrow>
         dict_get (tasks (en_queue e)) tid \<noteq> None
         \<or> tid \<in> set (map (\<lambda>a. te_task_id (objs (en_queue e1) a)) (take ?room as)))"
    using submit_many_overflow [OF q1(1) ids(1), of clk, unfolded q1(2-4) ids(3)] assms(3,4) by blast
  ultimately have sm: "fst (submit_many clk as (en_queue e1)) = Inl (QueueFullError (max_depth (en_queue e)) (max_depth (en_queue e)))"
    "\<forall>tid. dict_get (tasks (snd (submit_many clk as (en_queue e1)))) tid \<noteq> None \<longleftrightarrow>
         dict_get (tasks (en_queue e)) tid \<noteq> None \<or> tid \<in> set (map (\<lambda>j. ''task-'' @ io_hex io j) [0..<?room])"
    by metis+
  obtain q where q: "submit_many clk as (en_queue e1)
      = (Inl (QueueFullError (max_depth (en_queue e)) (max_depth (en_queue e))), q)"
    using sm(1) by (metis prod.collapse)
  have "submit_batch io ss e = (Inl (QueueError (QueueFullError (max_depth (en_queue e)) (max_depth (en_queue e)))),
      e1\<lparr>en_queue := q\<rparr>)"
    using al q by (simp add: submit_batch_def Let_def clk_def)
  then show ?thesis using sm(2) dep q by (simp add: Let_def)
qed

text \<open>Three tasks for a queue that holds two.\<close>

theorem failed_batch_stays_queued_witness:
  "let (r, e') = submit_batch (quiet 10 demo_hex) (map default_spec [''m:a'', ''m:b'', ''m:c'']) demo_engine;
       room = nat (max_depth (en_queue demo_engine) - depth (en_queue demo_engine))
    in r = Inl (QueueError (QueueFullError (max_depth (en_queue demo_engine)) (max_depth (en_queue demo_engine))))
      \<and> en_store e' = en_store demo_engine \<and> en_bus e' = en_bus demo_engine
      \<and> (\<forall>tid. dict_get (tasks (en_queue e')) tid \<noteq> None \<longleftrightarrow> dict_get (tasks (en_queue demo_engine)) tid \<noteq> None
           \<or> tid \<in> set (map (\<lambda>j. ''task-'' @ io_hex (quiet 10 demo_hex) j) [0..<room]))"
proof (rule failed_batch_stays_queued [OF demo_engine_reachable])
  have d: "distinct (map demo_hex [0..<3])" by code_simp
  then show "fresh_hexes (quiet 10 demo_hex) 0 (length (map default_spec [''m:a'', ''m:b'', ''m:c''])) demo_engine"
    by (simp add: fresh_hexes_def quiet_def fresh_hex_demo list_all_iff numeral_3_eq_3)
qed (simp_all add: demo_engine_def new_engine_def new_broker_def demo_settings_def depth_def)

end
