(* ===== verification/Rpc.thy ===== *)
theory Rpc
  imports Codec_Props Engine_Submit
begin

text \<open>
  \<open>taskrunner/grpc/server.py\<close> and \<open>client.py\<close>: the service that decodes a request, calls the scheduler
  and encodes the answer, and the client that does the reverse.

  The transport between the two is a parameter of the client: a function of the request and of the state
  of the world that gives the answer or the failure of the call.  Requests and answers with one or two
  fields are passed as these fields.
\<close>

section \<open>The service\<close>

datatype rpc_error = CodecFailed codec_error | EngineFailed engine_error | NotConnected | TransportFailed string

type_synonym ('q, 'a, 'st) call = "'q \<Rightarrow> 'st \<Rightarrow> (rpc_error + 'a) \<times> 'st"

definition codec_result :: "codec_error + 'a \<Rightarrow> rpc_error + 'a" where
  "codec_result r = (case r of Inl x \<Rightarrow> Inl (CodecFailed x) | Inr y \<Rightarrow> Inr y)"

text \<open>The answer of most calls: the task as it is when it is encoded.\<close>

definition answer_task ::
    "protobuf \<Rightarrow> io \<Rightarrow> nat \<Rightarrow> (engine_error + addr) \<times> engine \<Rightarrow> (rpc_error + task_message) \<times> engine" where
  "answer_task pb io n re =
     (case re of
        (Inl x, e) \<Rightarrow> (Inl (EngineFailed x), e)
      | (Inr a, e) \<Rightarrow>
          (let e1 = gap io n e in (codec_result (task_to_proto pb (task_at e1 a)), e1)))"

definition submit_task_rpc ::
    "protobuf \<Rightarrow> io \<Rightarrow> spec_message \<Rightarrow> engine \<Rightarrow> (rpc_error + task_message) \<times> engine" where
  "submit_task_rpc pb io m e =
     (case spec_from_proto pb m of
        Inl x \<Rightarrow> (Inl (CodecFailed x), e)
      | Inr spec \<Rightarrow> answer_task pb io 1 (submit_task io spec e))"

text \<open>Decoding the worker reads the clock twice, before the scheduler does.\<close>

definition register_worker_rpc ::
    "protobuf \<Rightarrow> io \<Rightarrow> worker_message \<Rightarrow> engine \<Rightarrow> (rpc_error + worker_message) \<times> engine" where
  "register_worker_rpc pb io m e =
     (case worker_from_proto (io_clk io) m of
        Inl x \<Rightarrow> (Inl (CodecFailed x), e)
      | Inr w \<Rightarrow>
          (case register_worker (io\<lparr>io_clk := later 2 (io_clk io)\<rparr>) w e of
             (Inl x, e1) \<Rightarrow> (Inl (EngineFailed x), e1)
           | (Inr wa, e1) \<Rightarrow> (codec_result (worker_to_proto pb (en_wobjs e1 wa)), e1)))"

text \<open>\<open>known\<close> is the flag of the answer, which carries the worker exactly when it is set.\<close>

definition heartbeat_rpc ::
    "protobuf \<Rightarrow> io \<Rightarrow> string \<times> 32 word \<Rightarrow> engine \<Rightarrow> (rpc_error + worker_message option) \<times> engine" where
  "heartbeat_rpc pb io req e =
     (case heartbeat io (fst req) (sint (snd req)) e of
        (Inl x, e1) \<Rightarrow> (Inl (EngineFailed x), e1)
      | (Inr None, e1) \<Rightarrow> (Inr None, e1)
      | (Inr (Some wa), e1) \<Rightarrow>
          (and_then (codec_result (worker_to_proto pb (en_wobjs e1 wa))) (\<lambda>m. Inr (Some m)), e1))"

text \<open>\<open>None\<close> as the first result: the call is still waiting for a task when the turns end.\<close>

definition reserve_task_rpc ::
    "protobuf \<Rightarrow> io \<Rightarrow> seconds \<Rightarrow> turn list \<Rightarrow> (engine \<Rightarrow> engine) \<Rightarrow> string \<times> real \<Rightarrow> engine
     \<Rightarrow> (rpc_error + task_message option) option \<times> engine" where
  "reserve_task_rpc pb io start turns meanwhile req e =
     (case reserve_task io (fst req) (or_number (snd req) 1) start turns meanwhile e of
        (None, e1) \<Rightarrow> (None, e1)
      | (Some (Inl x), e1) \<Rightarrow> (Some (Inl (EngineFailed x)), e1)
      | (Some (Inr None), e1) \<Rightarrow> (Some (Inr None), e1)
      | (Some (Inr (Some a)), e1) \<Rightarrow>
          (case answer_task pb io 1 (Inr a, e1) of
             (r, e2) \<Rightarrow> (Some (and_then r (\<lambda>m. Inr (Some m))), e2)))"

text \<open>A transport for \<open>reserve\<close> that reaches the service; a poll that still waits is given up.\<close>

definition reserve_net ::
    "protobuf \<Rightarrow> io \<Rightarrow> seconds \<Rightarrow> turn list \<Rightarrow> (string \<times> real, task_message option, engine) call" where
  "reserve_net pb io start turns req e =
     (case reserve_task_rpc pb io start turns (\<lambda>e. e) req e of
        (Some answer, e1) \<Rightarrow> (answer, e1)
      | (None, e1) \<Rightarrow> (Inl (TransportFailed ''deadline exceeded''), e1))"

definition report_result_rpc ::
    "protobuf \<Rightarrow> io \<Rightarrow> result_message \<Rightarrow> engine \<Rightarrow> (rpc_error + task_message) \<times> engine" where
  "report_result_rpc pb io m e =
     (case result_from_proto m of
        Inl x \<Rightarrow> (Inl (CodecFailed x), e)
      | Inr r \<Rightarrow> answer_task pb io 3 (report_result io r e))"

definition cancel_task_rpc ::
    "protobuf \<Rightarrow> io \<Rightarrow> string \<Rightarrow> engine \<Rightarrow> (rpc_error + task_message) \<times> engine" where
  "cancel_task_rpc pb io tid e = answer_task pb io 1 (cancel_task io tid e)"

definition retry_task_rpc ::
    "protobuf \<Rightarrow> io \<Rightarrow> string \<Rightarrow> engine \<Rightarrow> (rpc_error + task_message) \<times> engine" where
  "retry_task_rpc pb io tid e = answer_task pb io 1 (retry_task io tid e)"

section \<open>The client\<close>

datatype channel_state = NoChannel | OpenChannel | ClosedChannel

record scheduler_client =
  sc_target :: string
  sc_channel :: channel_state
  sc_stub :: bool

definition new_client :: "settings \<Rightarrow> string option \<Rightarrow> scheduler_client" where
  "new_client cfg target = \<lparr>sc_target = or_str target (grpc_target cfg), sc_channel = NoChannel, sc_stub = False\<rparr>"

definition enter_client :: "scheduler_client \<Rightarrow> scheduler_client" where
  "enter_client c = c\<lparr>sc_channel := OpenChannel, sc_stub := True\<rparr>"

definition exit_client :: "scheduler_client \<Rightarrow> scheduler_client" where
  "exit_client c = (if sc_channel c = NoChannel then c else c\<lparr>sc_channel := ClosedChannel\<rparr>)"

definition client_stub :: "scheduler_client \<Rightarrow> rpc_error + unit" where
  "client_stub c = (if sc_stub c then Inr () else Inl NotConnected)"

text \<open>
  A call of the client: the stub must be there, the request is encoded, the transport is called and its
  answer is decoded.
\<close>

definition client_call ::
    "scheduler_client \<Rightarrow> codec_error + 'q \<Rightarrow> ('q, 'a, 'st) call \<Rightarrow> ('a \<Rightarrow> codec_error + 'b) \<Rightarrow> 'st
     \<Rightarrow> (rpc_error + 'b) \<times> 'st" where
  "client_call c req net decode st =
     (case and_then (client_stub c) (\<lambda>_. codec_result req) of
        Inl x \<Rightarrow> (Inl x, st)
      | Inr q \<Rightarrow>
          (case net q st of
             (r, st1) \<Rightarrow> (and_then r (\<lambda>a. codec_result (decode a)), st1)))"

definition client_submit ::
    "protobuf \<Rightarrow> (spec_message, task_message, 'st) call \<Rightarrow> scheduler_client \<Rightarrow> task_spec \<Rightarrow> 'st
     \<Rightarrow> (rpc_error + task_envelope) \<times> 'st" where
  "client_submit pb net c spec = client_call c (spec_to_proto pb spec) net (task_from_proto pb)"

definition client_register_worker ::
    "protobuf \<Rightarrow> (worker_message, worker_message, 'st) call \<Rightarrow> scheduler_client \<Rightarrow> worker_info \<Rightarrow> 'st
     \<Rightarrow> (rpc_error + unit) \<times> 'st" where
  "client_register_worker pb net c w = client_call c (worker_to_proto pb w) net (\<lambda>_. Inr ())"

definition client_heartbeat ::
    "protobuf \<Rightarrow> (string \<times> 32 word, worker_message option, 'st) call \<Rightarrow> scheduler_client \<Rightarrow> string \<Rightarrow> int
     \<Rightarrow> 'st \<Rightarrow> (rpc_error + bool) \<times> 'st" where
  "client_heartbeat pb net c wid running =
     client_call c (and_then (pb_int32 pb running) (\<lambda>n. Inr (wid, n))) net (\<lambda>a. Inr (a \<noteq> None))"

definition client_reserve ::
    "protobuf \<Rightarrow> (string \<times> real, task_message option, 'st) call \<Rightarrow> scheduler_client \<Rightarrow> string \<Rightarrow> real
     \<Rightarrow> 'st \<Rightarrow> (rpc_error + task_envelope option) \<times> 'st" where
  "client_reserve pb net c wid timeout =
     client_call c (Inr (wid, timeout)) net
       (\<lambda>a. case a of None \<Rightarrow> Inr None | Some m \<Rightarrow> and_then (task_from_proto pb m) (\<lambda>t. Inr (Some t)))"

definition client_report_result ::
    "protobuf \<Rightarrow> (result_message, task_message, 'st) call \<Rightarrow> scheduler_client \<Rightarrow> task_result \<Rightarrow> 'st
     \<Rightarrow> (rpc_error + task_envelope) \<times> 'st" where
  "client_report_result pb net c r = client_call c (Inr (result_to_proto r)) net (task_from_proto pb)"

definition client_cancel ::
    "protobuf \<Rightarrow> (string, task_message, 'st) call \<Rightarrow> scheduler_client \<Rightarrow> string \<Rightarrow> 'st
     \<Rightarrow> (rpc_error + task_envelope) \<times> 'st" where
  "client_cancel pb net c tid = client_call c (Inr tid) net (task_from_proto pb)"

definition client_retry ::
    "protobuf \<Rightarrow> (string, task_message, 'st) call \<Rightarrow> scheduler_client \<Rightarrow> string \<Rightarrow> 'st
     \<Rightarrow> (rpc_error + task_envelope) \<times> 'st" where
  "client_retry pb net c tid = client_call c (Inr tid) net (task_from_proto pb)"

lemma enter_client_stub [simp]: "client_stub (enter_client c) = Inr ()"
  by (simp add: client_stub_def enter_client_def)

section \<open>Remote calls and local ones\<close>

lemma codec_result_simps [simp]:
  "codec_result (Inl x) = Inl (CodecFailed x)" "codec_result (Inr y) = Inr y"
  by (simp_all add: codec_result_def)

text \<open>A task that can be encoded reaches the caller as \<open>carried_task\<close> says.\<close>

lemma answer_decoded:
  assumes "protobuf_ok pb" "task_sendable (task_at (gap io n e) a)"
  shows "\<exists>p. mset p = mset (ts_payload (te_spec (task_at (gap io n e) a)))
    \<and> and_then (fst (answer_task pb io n (Inr a, e))) (\<lambda>m. codec_result (task_from_proto pb m))
      = Inr (carried_task p (task_at (gap io n e) a))"
proof -
  obtain m p where "task_to_proto pb (task_at (gap io n e) a) = Inr m"
    "mset p = mset (ts_payload (te_spec (task_at (gap io n e) a)))"
    "task_from_proto pb m = Inr (carried_task p (task_at (gap io n e) a))"
    using task_over_the_wire [OF assms] by blast
  then show ?thesis by (auto simp: answer_task_def Let_def)
qed

lemma answer_state: "snd (answer_task pb io n (r, e)) = (case r of Inl _ \<Rightarrow> e | Inr _ \<Rightarrow> gap io n e)"
  by (cases r) (simp_all add: answer_task_def Let_def)

lemma sendable_carried:
  assumes "sendable s" "mset p = mset (ts_payload s)"
  shows "sendable ((carried s)\<lparr>ts_payload := p\<rparr>)"
proof -
  have "distinct (map fst p)" using assms by (metis dict_ok_def json_ok_dict mset_eq_imp_distinct_iff mset_map payload_ok_def sendable_def)
  moreover have "set p = set (ts_payload s)" using assms(2) by (rule mset_eq_setD)
  ultimately have "payload_ok p" using assms(1) by (simp add: sendable_def payload_ok_def dict_ok_def list_all_iff)
  then show ?thesis using assms(1) spec_ok_carried [of s] by (simp add: sendable_def spec_ok_def carried_def)
qed

lemma range_carried:
  "int32_range (ts_priority s) \<Longrightarrow> int32_range (ts_priority (carried s))"
  "int32_range (ts_max_retries s) \<Longrightarrow> int32_range (ts_max_retries (carried s))"
  by (simp_all add: carried_def or_number_def int32_range_def)

lemma submitted_spec:
  assumes "engine_reachable e" "fresh_hex (io_hex io 0) e" "submit_task io s e = (Inr a, e1)"
  shows "te_spec (task_at e1 a) = normalized s" "engine_inv e1"
proof -
  show "te_spec (task_at e1 a) = normalized s"
    using submit_task_outcomes [OF assms(1,2), of s] assms(3) by (auto simp: Let_def split: if_splits)
  show "engine_inv e1"
    using engine_reachable_inv [OF engine_reachable.step [OF assms(1) engine_step.submit [OF assms(2), of s]]] assms(3)
    by simp
qed

text \<open>
  C16. Submitting through a connected client and the service is submitting \<open>carried s\<close> (the payload
  possibly reordered) to the scheduler: the scheduler ends up as after the local call, up to what threads
  do before the answer is encoded, an error of the scheduler is the error of the call, and the returned
  envelope is the queued task without its lease.  So a task submitted with the most urgent priority 0
  is queued with priority 100, and a retry backoff of 0 becomes 1.5 seconds.
\<close>
theorem remote_submit:
  assumes "engine_reachable e" and "fresh_hex (io_hex io 0) e" and "protobuf_ok pb" and "sendable s"
    and "int32_range (ts_priority s)" and "int32_range (ts_max_retries s)"
  shows "\<exists>p. mset p = mset (ts_payload s) \<and>
    (let (r, e1) = submit_task io ((carried s)\<lparr>ts_payload := p\<rparr>) e;
         (answer, e2) = client_submit pb (submit_task_rpc pb io) (enter_client c) s e
     in case r of
          Inl x \<Rightarrow> answer = Inl (EngineFailed x) \<and> e2 = e1
        | Inr a \<Rightarrow> e2 = gap io 1 e1 \<and> te_spec (task_at e2 a) = (carried s)\<lparr>ts_payload := p\<rparr>
            \<and> (int32_range (te_attempts (task_at e2 a)) \<longrightarrow>
                (\<exists>p'. mset p' = mset (ts_payload s) \<and> answer = Inr (carried_task p' (task_at e2 a)))))"
proof -
  obtain m p where m: "spec_to_proto pb s = Inr m" "mset p = mset (ts_payload s)"
    "spec_from_proto pb m = Inr ((carried s)\<lparr>ts_payload := p\<rparr>)"
    using spec_over_the_wire [OF assms(3-6)] by blast
  let ?s = "(carried s)\<lparr>ts_payload := p\<rparr>"
  obtain r e1 where r: "submit_task io ?s e = (r, e1)" by (cases "submit_task io ?s e")
  have call: "client_submit pb (submit_task_rpc pb io) (enter_client c) s e
      = (and_then (fst (answer_task pb io 1 (r, e1))) (\<lambda>a. codec_result (task_from_proto pb a)),
         snd (answer_task pb io 1 (r, e1)))"
    by (simp add: client_submit_def client_call_def m submit_task_rpc_def r split: prod.split)
  have sent: "sendable ?s" by (rule sendable_carried [OF assms(4) m(2)])
  show ?thesis
  proof (cases r)
    case (Inl x)
    then show ?thesis using m(2) by (intro exI [of _ p]) (simp add: r call answer_task_def)
  next
    case (Inr a)
    let ?t = "task_at (gap io 1 e1) a"
    note sub = submitted_spec [OF assms(1,2) r [unfolded Inr]]
    have spec: "te_spec ?t = ?s"
      using sub(1) task_at_gap(1) [OF sub(2)] sent by (simp add: normalized_id sendable_def)
    have "\<exists>p'. mset p' = mset (ts_payload s) \<and> and_then (fst (answer_task pb io 1 (r, e1)))
        (\<lambda>a. codec_result (task_from_proto pb a)) = Inr (carried_task p' ?t)"
      if "int32_range (te_attempts ?t)"
    proof -
      have "task_sendable ?t"
        using that spec sent range_carried [of s] assms(5,6) by (simp add: task_sendable_def)
      from answer_decoded [OF assms(3) this] show ?thesis using spec m(2) Inr by simp
    qed
    then show ?thesis using m(2) spec Inr by (intro exI [of _ p]) (simp add: r call answer_state)
  qed
qed

text \<open>Priority 0 goes in, 100 is queued.\<close>

definition urgent_spec :: task_spec where
  "urgent_spec = (default_spec ''m:f'')\<lparr>ts_priority := 0\<rparr>"

theorem remote_submit_witness:
  "ts_priority (te_spec (task_at (snd (client_submit demo_protobuf (submit_task_rpc demo_protobuf (quiet 10 demo_hex))
     (enter_client (new_client demo_settings None)) urgent_spec demo_engine)) 0)) = 100"
proof -
  have "sendable urgent_spec" "int32_range (ts_priority urgent_spec)" "int32_range (ts_max_retries urgent_spec)"
    by (simp_all add: sendable_def spec_ok_def urgent_spec_def default_spec_def payload_ok_def int32_range_def)
  note w = remote_submit [OF demo_engine_reachable fresh_hex_demo protobuf_ok_demo this, of "quiet 10 demo_hex"
      "new_client demo_settings None"]
  have "fst (submit_task (quiet 10 demo_hex) ((carried urgent_spec)\<lparr>ts_payload := []\<rparr>) demo_engine) = Inr 0" by code_simp
  moreover have "ts_payload urgent_spec = []" "ts_priority (carried urgent_spec) = 100"
    by (simp_all add: urgent_spec_def default_spec_def carried_def or_number_def)
  ultimately show ?thesis
    using w by (auto simp: Let_def split: prod.splits)
qed

end
