(* ===== verification/Executor.thy ===== *)
theory Executor
  imports Models Text
begin

text \<open>
  \<open>taskrunner/workers/executor.py\<close>: how a worker finds the function of a task, runs it by its kind under a
  timeout, and turns every ending into a \<open>TaskResult\<close>.

  User code is a parameter: the files and modules that exist, what loading them gives, and what calling a
  function does.  A function returns a plain value or a coroutine; a coroutine is described by what
  awaiting it does, and by what it does when the task that awaits it is cancelled: it may let the
  \<open>CancelledError\<close> through, turn it into another exception or catch it and return.
\<close>

section \<open>Exceptions and user code\<close>

text \<open>\<open>Exc\<close> is an \<open>Exception\<close> with its class name and its text; the other two are not \<open>Exception\<close>s.\<close>

datatype exn = Exc string string | CancelledError | BaseExc string

datatype returned = Plain pyval | Awaitable "exn + pyval" "exn + pyval"

datatype attribute = Callable "(string, pyval) dict \<Rightarrow> exn + returned" | NotCallable

type_synonym module = "string \<Rightarrow> attribute option"

text \<open>
  \<open>us_resolve\<close> is \<open>Path.resolve\<close>, \<open>us_loader\<close> tells whether \<open>spec_from_file_location\<close> finds a loader for a path, \<open>us_exec\<close> and \<open>us_import\<close>
  are the two ways to a module, \<open>us_process\<close> is what the process pool makes of a call (arguments and
  results are pickled), and \<open>us_coroutine\<close> the text of a coroutine object that nobody awaited.
\<close>

record user_code =
  us_exists :: "string \<Rightarrow> bool"
  us_resolve :: "string \<Rightarrow> string"
  us_loader :: "string \<Rightarrow> bool"
  us_exec :: "string \<Rightarrow> exn + module"
  us_import :: "string \<Rightarrow> exn + module"
  us_process :: "exn + returned \<Rightarrow> exn + pyval"
  us_coroutine :: string

section \<open>Finding the function\<close>

definition ends_with :: "string \<Rightarrow> string \<Rightarrow> bool" where
  "ends_with s t \<longleftrightarrow> length t \<le> length s \<and> drop (length s - length t) s = t"

definition squoted :: "string \<Rightarrow> string" where
  "squoted s = CHR 0x27 # s @ [CHR 0x27]"

definition bad_target :: exn where
  "bad_target = Exc ''ValueError'' (''target must use '' @ squoted ''path/to/file.py:function_name'' @ '' or '' @ squoted ''module:function_name'')"

definition load_module :: "user_code \<Rightarrow> string \<Rightarrow> exn + module" where
  "load_module u path =
     (if ends_with path ''.py'' \<or> us_exists u path
      then (let resolved = us_resolve u path
            in if us_loader u resolved then us_exec u resolved
               else Inl (Exc ''ImportError'' (''cannot import task module '' @ resolved)))
      else us_import u path)"

definition load_callable :: "user_code \<Rightarrow> string \<Rightarrow> exn + ((string, pyval) dict \<Rightarrow> exn + returned)" where
  "load_callable u target =
     (let (module_path, sep, function_name) = partition_on CHR '':'' target
      in if module_path = [] \<or> function_name = [] then Inl bad_target
         else and_then (load_module u module_path) (\<lambda>m.
           case m function_name of
             Some (Callable f) \<Rightarrow> Inr f
           | _ \<Rightarrow> Inl (Exc ''AttributeError'' (target @ '' is not callable''))))"

definition run_sync_target :: "user_code \<Rightarrow> string \<Rightarrow> (string, pyval) dict \<Rightarrow> exn + returned" where
  "run_sync_target u target payload = and_then (load_callable u target) (\<lambda>f. f payload)"

section \<open>Running by kind\<close>

text \<open>What the thread pool returns is the value itself; of a coroutine only its text ever reaches anything.\<close>

definition plain :: "user_code \<Rightarrow> returned \<Rightarrow> pyval" where
  "plain u r = (case r of Plain v \<Rightarrow> v | Awaitable _ _ \<Rightarrow> PStr (us_coroutine u))"

definition execute_by_kind :: "user_code \<Rightarrow> task_envelope \<Rightarrow> exn + pyval" where
  "execute_by_kind u t =
     (let target = ts_target (te_spec t); payload = ts_payload (te_spec t)
      in case ts_kind (te_spec t) of
           CPU \<Rightarrow> us_process u (run_sync_target u target payload)
         | ASYNC \<Rightarrow>
             and_then (load_callable u target) (\<lambda>f.
             and_then (f payload) (\<lambda>r. case r of Awaitable ending _ \<Rightarrow> ending | Plain v \<Rightarrow> Inr v))
         | _ \<Rightarrow> and_then (run_sync_target u target payload) (\<lambda>r. Inr (plain u r)))"

text \<open>
  How the body ends once it is cancelled: the futures of the two pools raise \<open>CancelledError\<close>, a coroutine
  decides for itself.  A body that never suspends cannot be waiting when the cancellation comes.
\<close>

definition cancelled_body :: "user_code \<Rightarrow> task_envelope \<Rightarrow> exn + pyval" where
  "cancelled_body u t =
     (if ts_kind (te_spec t) = ASYNC
      then case and_then (load_callable u (ts_target (te_spec t))) (\<lambda>f. f (ts_payload (te_spec t))) of
          Inr (Awaitable _ reaction) \<Rightarrow> reaction
        | _ \<Rightarrow> Inl CancelledError
      else Inl CancelledError)"

text \<open>Whether the value of a finished body is a coroutine that nobody awaited.\<close>

definition unawaited :: "user_code \<Rightarrow> task_envelope \<Rightarrow> bool" where
  "unawaited u t \<longleftrightarrow> ts_kind (te_spec t) \<in> {IO, SCHEDULED}
     \<and> (case run_sync_target u (ts_target (te_spec t)) (ts_payload (te_spec t)) of
          Inr (Awaitable _ _) \<Rightarrow> True | _ \<Rightarrow> False)"

section \<open>Executing a task\<close>

text \<open>
  \<open>asyncio.wait_for\<close> on a body whose end the event loop sees after \<open>took\<close> seconds, while the caller may be
  cancelled after \<open>cancel\<close> seconds, which the body meets as \<open>reaction\<close> says.  Code that runs without suspending
  is never interrupted: its \<open>took\<close> is 0.
\<close>

definition wait_for :: "seconds \<Rightarrow> seconds \<Rightarrow> seconds option \<Rightarrow> exn + 'a \<Rightarrow> exn + 'a \<Rightarrow> exn + 'a" where
  "wait_for timeout took cancel reaction r =
     (if (case cancel of None \<Rightarrow> False | Some c \<Rightarrow> c < min took timeout) then reaction
      else if took > timeout then Inl (Exc ''TimeoutError'' [])
      else r)"

definition as_result :: "clock \<Rightarrow> task_envelope \<Rightarrow> string \<Rightarrow> exn + pyval \<Rightarrow> exn + task_result" where
  "as_result clk t worker_id ending =
     (let result = (\<lambda>status value error. Inr \<lparr>tr_task_id = te_task_id t, tr_worker_id = worker_id,
            tr_status = status, tr_started_at = clk 0, tr_finished_at = clk 1, tr_result = value, tr_error = error\<rparr>)
      in case ending of
           Inr v \<Rightarrow> result SUCCEEDED v None
         | Inl (Exc name msg) \<Rightarrow> result FAILED PNone (Some (name @ '': '' @ msg))
         | Inl x \<Rightarrow> Inl x)"

definition execute ::
    "user_code \<Rightarrow> clock \<Rightarrow> seconds \<Rightarrow> seconds option \<Rightarrow> task_envelope \<Rightarrow> string \<Rightarrow> exn + task_result" where
  "execute u clk took cancel t worker_id =
     as_result clk t worker_id
       (wait_for (ts_timeout_seconds (te_spec t)) took cancel (cancelled_body u t) (execute_by_kind u t))"

text \<open>The rest of an execution that was cancelled while it waited for its body.\<close>

definition execute_cancelled :: "user_code \<Rightarrow> clock \<Rightarrow> task_envelope \<Rightarrow> string \<Rightarrow> exn + task_result" where
  "execute_cancelled u clk t worker_id = as_result clk t worker_id (cancelled_body u t)"

section \<open>The pools\<close>

record executor =
  ex_max_processes :: int
  ex_max_threads :: int
  ex_shutdown :: bool
  ex_threads_open :: bool
  ex_processes_open :: bool

text \<open>\<open>mp.cpu_count()\<close> raises when it does not know; \<open>x or y\<close> takes zero for absent.\<close>

definition new_executor :: "int \<Rightarrow> int option \<Rightarrow> int \<Rightarrow> executor" where
  "new_executor cpus max_processes max_threads =
     \<lparr>ex_max_processes = (case max_processes of
          None \<Rightarrow> max 1 ((if cpus = 0 then 2 else cpus) - 1)
        | Some n \<Rightarrow> if n = 0 then max 1 ((if cpus = 0 then 2 else cpus) - 1) else n),
      ex_max_threads = max_threads, ex_shutdown = False, ex_threads_open = True, ex_processes_open = True\<rparr>"

definition shutdown_executor :: "executor \<Rightarrow> executor" where
  "shutdown_executor x =
     (if ex_shutdown x then x
      else x\<lparr>ex_shutdown := True, ex_threads_open := False, ex_processes_open := False\<rparr>)"

lemma shutdown_executor_idem [simp]: "shutdown_executor (shutdown_executor x) = shutdown_executor x"
  by (simp add: shutdown_executor_def)

section \<open>Every ending\<close>

lemma execute_ids:
  "execute u clk took cancel t wid = Inr r \<Longrightarrow>
     tr_task_id r = te_task_id t \<and> tr_worker_id r = wid \<and> tr_started_at r = clk 0 \<and> tr_finished_at r = clk 1"
  by (auto simp: execute_def as_result_def Let_def split: sum.splits exn.splits)

lemma execute_cancelled_pool: "ts_kind (te_spec t) \<noteq> ASYNC \<Longrightarrow> execute_cancelled u clk t wid = Inl CancelledError"
  by (simp add: execute_cancelled_def cancelled_body_def as_result_def)

text \<open>
  Executing a task that nobody cancels gives exactly one result with the task's and the worker's id,
  unless user code raises outside \<open>Exception\<close>.  It is a success with the value and no error exactly when
  the body ends in time and returns.  Otherwise it is a failure without value, whose error text is
  never empty: \<open>TimeoutError\<close> past the timeout, the exception's class and text if the body raised.
  A cancellation that comes first gives what the body makes of it: in the pools no result at all.
\<close>
lemma execute_outcome:
  "case cancel of
      Some c \<Rightarrow> c < min took (ts_timeout_seconds (te_spec t)) \<longrightarrow> execute u clk took cancel t wid = execute_cancelled u clk t wid
    | None \<Rightarrow>
        (if took > ts_timeout_seconds (te_spec t)
         then \<exists>r. execute u clk took None t wid = Inr r \<and> tr_status r = FAILED \<and> tr_error r = Some ''TimeoutError: '' \<and> tr_result r = PNone
         else case execute_by_kind u t of
             Inr v \<Rightarrow> \<exists>r. execute u clk took None t wid = Inr r \<and> tr_status r = SUCCEEDED \<and> tr_error r = None \<and> tr_result r = v
           | Inl (Exc name msg) \<Rightarrow> \<exists>r. execute u clk took None t wid = Inr r \<and> tr_status r = FAILED
               \<and> tr_error r = Some (name @ '': '' @ msg) \<and> tr_result r = PNone
           | Inl x \<Rightarrow> execute u clk took None t wid = Inl x)"
  by (auto simp: execute_def execute_cancelled_def as_result_def wait_for_def Let_def split: option.split sum.split exn.split)

text \<open>
  C37. A coroutine function submitted with kind \<open>io\<close> or \<open>scheduled\<close> is reported as succeeded whenever it
  can be called in time, although its body has not run: whatever awaiting it would do, an exception included,
  makes no difference to the result.
\<close>
theorem unawaited_coroutine_succeeds:
  assumes "ts_kind (te_spec t) \<in> {IO, SCHEDULED}"
    and "load_callable u (ts_target (te_spec t)) = Inr f"
    and "f (ts_payload (te_spec t)) = Inr (Awaitable ending reaction)"
    and "took \<le> ts_timeout_seconds (te_spec t)"
  shows "\<exists>r. execute u clk took None t wid = Inr r \<and> tr_status r = SUCCEEDED \<and> tr_error r = None
    \<and> tr_result r = PStr (us_coroutine u)"
  using assms by (auto simp: execute_def as_result_def wait_for_def execute_by_kind_def run_sync_target_def plain_def Let_def)

text \<open>A job that always fails when it is awaited.\<close>

definition demo_code :: user_code where
  "demo_code = \<lparr>us_exists = (\<lambda>_. True), us_resolve = (\<lambda>p. p), us_loader = (\<lambda>_. True),
     us_exec = (\<lambda>p. Inr (\<lambda>f. if f = ''run'' then Some (Callable (\<lambda>_. Inr (Awaitable (Inl (Exc ''RuntimeError'' ''boom'')) (Inl CancelledError))))
                             else None)),
     us_import = (\<lambda>_. Inl (Exc ''ModuleNotFoundError'' [])), us_process = (\<lambda>_. Inl (Exc ''TypeError'' ''cannot pickle'')),
     us_coroutine = ''<coroutine object run>''\<rparr>"

theorem unawaited_coroutine_succeeds_witness:
  "\<exists>r. execute demo_code (\<lambda>_. 0) 1 None (new_envelope ''x'' (\<lambda>_. 0) (default_spec ''jobs.py:run'')) ''w'' = Inr r
     \<and> tr_status r = SUCCEEDED \<and> tr_error r = None \<and> tr_result r = PStr (us_coroutine demo_code)"
proof (rule unawaited_coroutine_succeeds)
  show "load_callable demo_code (ts_target (te_spec (new_envelope ''x'' (\<lambda>_. 0) (default_spec ''jobs.py:run''))))
      = Inr (\<lambda>_. Inr (Awaitable (Inl (Exc ''RuntimeError'' ''boom'')) (Inl CancelledError)))"
    by (simp add: load_callable_def load_module_def demo_code_def partition_on_def new_envelope_def default_spec_def)
qed (simp_all add: new_envelope_def default_spec_def)

end
