(* ===== verification/Ipc.thy ===== *)
theory Ipc
  imports Models Text "HOL-Library.Word"
begin

text \<open>
  \<open>taskrunner/workers/ipc.py\<close>: the queues, the pipe, the shared counters and the socket of a worker node.

  The shared memory is a list of bytes.  A pipe end holds what the other end has sent and it has not yet
  received.  The directory that socket files are made in is the set of the paths that exist.
\<close>

section \<open>Packing\<close>

unbundle bit_operations_syntax

text \<open>\<open>struct.pack("!QQQ", a, b, c)\<close>: three unsigned 64-bit integers, most significant byte first; an integer
outside the range is a \<open>struct.error\<close>.\<close>

datatype ipc_error = StructError | OSError string | FileNotFoundError string

type_synonym byte = "8 word"

definition to_bytes :: "64 word \<Rightarrow> byte list" where
  "to_bytes w = map (\<lambda>i. ucast (drop_bit (8 * i) w)) [7, 6, 5, 4, 3, 2, 1, 0]"

definition of_bytes :: "byte list \<Rightarrow> 64 word" where
  "of_bytes bs = foldl (\<lambda>w b. push_bit 8 w OR ucast b) 0 bs"

definition u64 :: "int \<Rightarrow> bool" where
  "u64 i \<longleftrightarrow> 0 \<le> i \<and> i < 2 ^ 64"

definition pack_u64s :: "int list \<Rightarrow> ipc_error + byte list" where
  "pack_u64s is = (if list_all u64 is then Inr (concat (map (\<lambda>i. to_bytes (word_of_int i)) is)) else Inl StructError)"

definition unpack_u64s :: "byte list \<Rightarrow> (int \<times> int \<times> int)" where
  "unpack_u64s bs =
     (uint (of_bytes (take 8 bs)), uint (of_bytes (take 8 (drop 8 bs))), uint (of_bytes (take 8 (drop 16 bs))))"

lemma length_to_bytes [simp]: "length (to_bytes w) = 8"
  by (simp add: to_bytes_def)

lemma split_byte:
  "push_bit 8 (drop_bit (n + 8) w) OR ucast (ucast (drop_bit n w) :: byte) = (drop_bit n w :: 64 word)"
  by (rule bit_word_eqI) (auto simp add: bit_simps not_le)

lemma top_byte: "ucast (ucast (drop_bit 56 w) :: byte) = (drop_bit 56 w :: 64 word)"
  by (rule bit_word_eqI) (auto simp add: bit_simps not_le dest: bit_imp_le_length)

lemma of_bytes_to_bytes [simp]: "of_bytes (to_bytes w) = w"
  using split_byte [of 48 w] split_byte [of 40 w] split_byte [of 32 w] split_byte [of 24 w] split_byte [of 16 w]
    split_byte [of 8 w] split_byte [of 0 w]
  by (simp add: of_bytes_def to_bytes_def top_byte)

lemma length_pack: "pack_u64s is = Inr bs \<Longrightarrow> length bs = 8 * length is"
  by (auto simp: pack_u64s_def length_concat comp_def sum_list_triv split: if_splits)

lemma unpack_pack: "pack_u64s [a, b, c] = Inr bs \<Longrightarrow> unpack_u64s bs = (a, b, c)"
  by (auto simp: pack_u64s_def unpack_u64s_def u64_def uint_word_of_int_eq take_bit_int_eq_self split: if_splits)

section \<open>Channels\<close>

datatype pipe_end = ParentEnd | ChildEnd

datatype listener = InetListener string int | UnixListener string

record ipc =
  ip_task_queue :: "pyval list"
  ip_result_queue :: "pyval list"
  ip_to_parent :: "pyval list"
  ip_to_child :: "pyval list"
  ip_pipe_open :: bool
  ip_buf :: "byte list"
  ip_linked :: bool
  ip_socket_path :: string
  ip_listener :: "listener option"

definition default_socket_path :: "bool \<Rightarrow> int \<Rightarrow> string" where
  "default_socket_path nt pid = (if nt then ''127.0.0.1:0'' else ''/tmp/taskrunner-'' @ show_int pid @ ''.sock'')"

definition new_ipc :: "bool \<Rightarrow> int \<Rightarrow> ipc" where
  "new_ipc nt pid = \<lparr>ip_task_queue = [], ip_result_queue = [], ip_to_parent = [], ip_to_child = [],
     ip_pipe_open = True, ip_buf = replicate 64 0, ip_linked = True,
     ip_socket_path = default_socket_path nt pid, ip_listener = None\<rparr>"

text \<open>\<open>buf[:24] = struct.pack(...)\<close> and \<open>struct.unpack(..., buf[:24])\<close>\<close>

definition write_shared_counters :: "int \<Rightarrow> int \<Rightarrow> int \<Rightarrow> ipc \<Rightarrow> (ipc_error + unit) \<times> ipc" where
  "write_shared_counters running completed failed s =
     (case pack_u64s [running, completed, failed] of
        Inl x \<Rightarrow> (Inl x, s)
      | Inr bs \<Rightarrow> (Inr (), s\<lparr>ip_buf := bs @ drop 24 (ip_buf s)\<rparr>))"

definition read_shared_counters :: "ipc \<Rightarrow> int \<times> int \<times> int" where
  "read_shared_counters s = unpack_u64s (take 24 (ip_buf s))"

text \<open>\<open>contextlib_suppress_file.__enter__\<close>: unlink, a missing file is no error.\<close>

definition unlink :: "string \<Rightarrow> string set \<Rightarrow> (ipc_error + unit) \<times> string set" where
  "unlink p files = (if p \<in> files then (Inr (), files - {p}) else (Inl (FileNotFoundError p), files))"

definition suppress_file :: "string \<Rightarrow> string set \<Rightarrow> (ipc_error + unit) \<times> string set" where
  "suppress_file p files =
     (case unlink p files of
        (Inl (FileNotFoundError _), fs) \<Rightarrow> (Inr (), fs)
      | (r, fs) \<Rightarrow> (r, fs))"

text \<open>Binding a Unix socket makes its file, which must not exist; \<open>port\<close> is the free port the system picks.\<close>

definition bind_unix :: "string \<Rightarrow> string set \<Rightarrow> (ipc_error + listener) \<times> string set" where
  "bind_unix p files =
     (if p \<in> files then (Inl (OSError ''Address already in use''), files)
      else (Inr (UnixListener p), insert p files))"

definition start_socket_listener ::
    "bool \<Rightarrow> int \<Rightarrow> string set \<Rightarrow> ipc \<Rightarrow> (ipc_error + listener) \<times> string set \<times> ipc" where
  "start_socket_listener nt port files s =
     (if nt then (let l = InetListener ''127.0.0.1'' port in (Inr l, files, s\<lparr>ip_listener := Some l\<rparr>))
      else
        (case suppress_file (ip_socket_path s) files of
           (Inl x, fs) \<Rightarrow> (Inl x, fs, s)
         | (Inr _, fs) \<Rightarrow>
             (case bind_unix (ip_socket_path s) fs of
                (Inl x, fs1) \<Rightarrow> (Inl x, fs1, s)
              | (Inr l, fs1) \<Rightarrow> (Inr l, fs1, s\<lparr>ip_listener := Some l\<rparr>))))"

definition send_pipe :: "pipe_end \<Rightarrow> pyval \<Rightarrow> ipc \<Rightarrow> (ipc_error + unit) \<times> ipc" where
  "send_pipe pe v s =
     (if \<not> ip_pipe_open s then (Inl (OSError ''handle is closed''), s)
      else (Inr (), (case pe of ParentEnd \<Rightarrow> s\<lparr>ip_to_child := ip_to_child s @ [v]\<rparr>
                              | ChildEnd \<Rightarrow> s\<lparr>ip_to_parent := ip_to_parent s @ [v]\<rparr>)))"

text \<open>\<open>None\<close>: \<open>recv\<close> blocks, because nothing has been sent.\<close>

definition recv_pipe :: "pipe_end \<Rightarrow> ipc \<Rightarrow> (ipc_error + pyval) option \<times> ipc" where
  "recv_pipe pe s =
     (if \<not> ip_pipe_open s then (Some (Inl (OSError ''handle is closed'')), s)
      else (case pe of
              ParentEnd \<Rightarrow> (case ip_to_parent s of [] \<Rightarrow> (None, s) | v # vs \<Rightarrow> (Some (Inr v), s\<lparr>ip_to_parent := vs\<rparr>))
            | ChildEnd \<Rightarrow> (case ip_to_child s of [] \<Rightarrow> (None, s) | v # vs \<Rightarrow> (Some (Inr v), s\<lparr>ip_to_child := vs\<rparr>))))"

text \<open>
  Unlinking the shared memory a second time is an error, and then the socket file stays; on Windows
  unlinking does nothing.
\<close>

definition close_ipc :: "bool \<Rightarrow> string set \<Rightarrow> ipc \<Rightarrow> (ipc_error + unit) \<times> string set \<times> ipc" where
  "close_ipc nt files s =
     (let s1 = s\<lparr>ip_pipe_open := False\<rparr>
      in if \<not> nt \<and> \<not> ip_linked s1 then (Inl (FileNotFoundError ''shared memory''), files, s1)
         else
           let s2 = s1\<lparr>ip_linked := False\<rparr>
           in if nt then (Inr (), files, s2)
              else case suppress_file (ip_socket_path s2) files of (r, fs) \<Rightarrow> (r, fs, s2))"

section \<open>What the channels promise\<close>

definition ipc_ok :: "ipc \<Rightarrow> bool" where
  "ipc_ok s \<longleftrightarrow> length (ip_buf s) = 64"

lemma ipc_ok_new [simp]: "ipc_ok (new_ipc nt pid)"
  by (simp add: ipc_ok_def new_ipc_def)

lemma ipc_ok_write: "ipc_ok s \<Longrightarrow> ipc_ok (snd (write_shared_counters a b c s))"
  using length_pack [of "[a, b, c]"]
  by (auto simp: write_shared_counters_def ipc_ok_def split: sum.split)

lemma write_u64:
  assumes "u64 a" "u64 b" "u64 c"
  shows "fst (write_shared_counters a b c s) = Inr ()"
    "read_shared_counters (snd (write_shared_counters a b c s)) = (a, b, c)"
proof -
  obtain bs where bs: "pack_u64s [a, b, c] = Inr bs" using assms by (simp add: pack_u64s_def)
  then have "length bs = 24" using length_pack [OF bs] by simp
  then show "fst (write_shared_counters a b c s) = Inr ()"
    "read_shared_counters (snd (write_shared_counters a b c s)) = (a, b, c)"
    using bs unpack_pack [OF bs] by (simp_all add: write_shared_counters_def read_shared_counters_def)
qed

lemma write_not_u64:
  "\<not> (u64 a \<and> u64 b \<and> u64 c) \<Longrightarrow> write_shared_counters a b c s = (Inl StructError, s)"
  by (auto simp: write_shared_counters_def pack_u64s_def)

text \<open>
  C38. The shared counters read back as they were written, for every three unsigned 64-bit numbers, and
  the rest of the 64 bytes stays; any other number is a \<open>struct.error\<close> that leaves the memory unchanged.
\<close>
theorem counters_roundtrip:
  assumes "ipc_ok s"
  shows "let (r, s') = write_shared_counters a b c s
    in if u64 a \<and> u64 b \<and> u64 c
       then r = Inr () \<and> read_shared_counters s' = (a, b, c) \<and> ipc_ok s' \<and> drop 24 (ip_buf s') = drop 24 (ip_buf s)
       else r = Inl StructError \<and> s' = s"
proof (cases "u64 a \<and> u64 b \<and> u64 c")
  case True
  then obtain bs where bs: "pack_u64s [a, b, c] = Inr bs" by (simp add: pack_u64s_def)
  show ?thesis
    using True write_u64 [of a b c s] ipc_ok_write [OF assms, of a b c] bs length_pack [OF bs]
    by (simp add: write_shared_counters_def)
next
  case False
  then show ?thesis using write_not_u64 [OF False, of s] by auto
qed

theorem counters_roundtrip_witness:
  "read_shared_counters (snd (write_shared_counters 2 5 (2 ^ 64 - 1) (new_ipc False 7))) = (2, 5, 2 ^ 64 - 1)
   \<and> fst (write_shared_counters (- 1) 0 0 (new_ipc False 7)) = Inl StructError"
  using counters_roundtrip [OF ipc_ok_new [of False 7], of 2 5 "2 ^ 64 - 1"]
    counters_roundtrip [OF ipc_ok_new [of False 7], of "- 1" 0 0]
  by (auto simp: u64_def split: prod.splits)

text \<open>A second worker on the same path takes the file over; closing removes it.\<close>

lemma listener_always_binds:
  "\<exists>l. start_socket_listener nt port files s = (Inr l, (if nt then files else insert (ip_socket_path s) files),
       s\<lparr>ip_listener := Some l\<rparr>)"
  by (auto simp: start_socket_listener_def suppress_file_def unlink_def bind_unix_def Let_def)

lemma pipe_delivers:
  "ip_pipe_open s \<Longrightarrow> ip_to_child s = [] \<Longrightarrow>
     fst (recv_pipe ChildEnd (snd (send_pipe ParentEnd v s))) = Some (Inr v)"
  by (simp add: send_pipe_def recv_pipe_def)

end
