(* ===== verification/Worker.thy ===== *)
theory Worker
  imports Engine_Services Executor Ipc
begin

text \<open>
  \<open>taskrunner/workers/manager.py\<close>: a worker node.

  The runtime is one event loop with a heartbeat coroutine and one consumer coroutine per slot; each runs
  from one await to the next, so a step is what one of them does between two awaits, and steps of
  different coroutines interleave freely.  What an await gives (the answer or the failure of a call to the
  scheduler, the end of an execution) is the event that starts the step.
\<close>

section \<open>State\<close>

text \<open>Where a consumer waits: for \<open>reserve\<close>, in \<open>sleep(0.1)\<close>, for its execution to start, in the executor,
in the executor with a cancellation on its way to the body, for \<open>report_result\<close>; or how it has ended.\<close>

datatype consumer =
    Polling
  | Napping
  | Starting task_envelope
  | Executing task_envelope
  | Cancelling task_envelope
  | Reporting task_envelope task_result
  | Ended "exn option"

datatype heart = Beating | Reregistering | HeartNapping | HeartEnded "exn option"

text \<open>\<open>wr_running\<close> holds the slots whose execution is in \<open>_running\<close>; \<open>wr_sent\<close> is the history of the results
passed to \<open>transport.report_result\<close>.\<close>

record worker_runtime =
  wr_config :: settings
  wr_worker :: worker_info
  wr_executor :: executor
  wr_ipc :: ipc
  wr_stop :: bool
  wr_running :: "nat list"
  wr_completed :: int
  wr_failed :: int
  wr_consumers :: "consumer list"
  wr_heart :: heart
  wr_sent :: "task_result list"

text \<open>What the constructor reads from its surroundings.\<close>

record node =
  nd_hex :: string
  nd_host :: string
  nd_pid :: int
  nd_cpus :: int
  nd_windows :: bool
  nd_clk :: clock

definition or_int :: "int option \<Rightarrow> int \<Rightarrow> int" where
  "or_int x y = (case x of None \<Rightarrow> y | Some n \<Rightarrow> if n = 0 then y else n)"

definition new_runtime ::
    "node \<Rightarrow> settings \<Rightarrow> string option \<Rightarrow> string set option \<Rightarrow> string set option \<Rightarrow> int option \<Rightarrow> worker_runtime" where
  "new_runtime nd cfg worker_id queues labels capacity =
     (let w = \<lparr>wi_worker_id = or_str worker_id (''worker-'' @ take 8 (nd_hex nd)), wi_host = nd_host nd,
          wi_pid = nd_pid nd, wi_queues = or_set queues {''default''},
          wi_capacity = or_int capacity (st_worker_capacity cfg), wi_labels = or_set labels {},
          wi_status = STARTING, wi_running_tasks = 0, wi_started_at = nd_clk nd 0, wi_last_heartbeat = nd_clk nd 1\<rparr>
      in \<lparr>wr_config = cfg, wr_worker = w,
          wr_executor = new_executor (nd_cpus nd) (Some (wi_capacity w)) 16,
          wr_ipc = new_ipc (nd_windows nd) (nd_pid nd),
          wr_stop = False, wr_running = [], wr_completed = 0, wr_failed = 0,
          wr_consumers = [], wr_heart = HeartEnded None, wr_sent = []\<rparr>)"

definition request_shutdown :: "worker_runtime \<Rightarrow> worker_runtime" where
  "request_shutdown r = r\<lparr>wr_stop := True\<rparr>"

section \<open>The consumers\<close>

definition set_consumer :: "nat \<Rightarrow> consumer \<Rightarrow> worker_runtime \<Rightarrow> worker_runtime" where
  "set_consumer i c r = r\<lparr>wr_consumers := (wr_consumers r)[i := c]\<rparr>"

text \<open>The head of the loop \<open>while not self._stop.is_set()\<close>.\<close>

definition loop_head :: "worker_runtime \<Rightarrow> consumer" where
  "loop_head r = (if wr_stop r then Ended None else Polling)"

text \<open>The execution of slot \<open>i\<close> is over: its callback discards it, the consumer goes on as \<open>c\<close>.\<close>

definition leave_slot :: "nat \<Rightarrow> consumer \<Rightarrow> worker_runtime \<Rightarrow> worker_runtime" where
  "leave_slot i c r = set_consumer i c (r\<lparr>wr_running := removeAll i (wr_running r)\<rparr>)"

definition publish_counters :: "worker_runtime \<Rightarrow> (exn + unit) \<times> worker_runtime" where
  "publish_counters r =
     (case write_shared_counters (int (length (wr_running r))) (wr_completed r) (wr_failed r) (wr_ipc r) of
        (Inl _, s) \<Rightarrow> (Inl (Exc ''error'' ''int too large to convert''), r\<lparr>wr_ipc := s\<rparr>)
      | (Inr _, s) \<Rightarrow> (Inr (), r\<lparr>wr_ipc := s\<rparr>))"

text \<open>\<open>_execute_and_report\<close> up to the call of the executor, and after the report was accepted.\<close>

definition begin_execution :: "nat \<Rightarrow> task_envelope \<Rightarrow> worker_runtime \<Rightarrow> worker_runtime" where
  "begin_execution i t r =
     (case publish_counters (r\<lparr>wr_ipc := (wr_ipc r)\<lparr>ip_task_queue :=
             ip_task_queue (wr_ipc r) @ [PDict (envelope_to_dict t)]\<rparr>\<rparr>) of
        (Inl x, r1) \<Rightarrow> leave_slot i (Ended (Some x)) r1
      | (Inr _, r1) \<Rightarrow> set_consumer i (Executing t) r1)"

definition count_result :: "task_result \<Rightarrow> worker_runtime \<Rightarrow> worker_runtime" where
  "count_result res r =
     (if truthy (tr_error res) then r\<lparr>wr_failed := wr_failed r + 1\<rparr> else r\<lparr>wr_completed := wr_completed r + 1\<rparr>)"

text \<open>\<open>result.to_dict()\<close> copies the value deeply, which no coroutine can be.\<close>

definition copied_result :: "user_code \<Rightarrow> task_envelope \<Rightarrow> task_result \<Rightarrow> exn + pyval" where
  "copied_result u t res =
     (if tr_status res = SUCCEEDED \<and> unawaited u t
      then Inl (Exc ''TypeError'' (''cannot pickle '' @ squoted ''coroutine'' @ '' object''))
      else Inr (PDict (result_to_dict res)))"

definition end_execution :: "user_code \<Rightarrow> nat \<Rightarrow> task_envelope \<Rightarrow> task_result \<Rightarrow> worker_runtime \<Rightarrow> worker_runtime" where
  "end_execution u i t res r =
     (case copied_result u t res of
        Inl x \<Rightarrow> leave_slot i (Ended (Some x)) r
      | Inr d \<Rightarrow>
          (case publish_counters (count_result res (r\<lparr>wr_ipc := (wr_ipc r)\<lparr>ip_result_queue :=
                  ip_result_queue (wr_ipc r) @ [d]\<rparr>\<rparr>)) of
             (Inl x, r1) \<Rightarrow> leave_slot i (Ended (Some x)) r1
           | (Inr _, r1) \<Rightarrow> leave_slot i (loop_head r1) r1))"

text \<open>
  A step of consumer \<open>i\<close>.  \<open>Executed\<close> carries the readings of the clock and the time the body took; an event
  that the consumer does not wait for does nothing.
\<close>

datatype consumer_event =
    Polled "exn + task_envelope option"
  | Woke
  | Began
  | Executed clock seconds
  | Reported "exn + unit"

fun consume_at :: "user_code \<Rightarrow> nat \<Rightarrow> consumer \<Rightarrow> consumer_event \<Rightarrow> worker_runtime \<Rightarrow> worker_runtime" where
  "consume_at u i Polling (Polled (Inl x)) r = set_consumer i (Ended (Some x)) r"
| "consume_at u i Polling (Polled (Inr None)) r = set_consumer i Napping r"
| "consume_at u i Polling (Polled (Inr (Some t))) r =
     set_consumer i (Starting t) (r\<lparr>wr_running := i # wr_running r\<rparr>)"
| "consume_at u i Napping Woke r = set_consumer i (loop_head r) r"
| "consume_at u i (Starting t) Began r = begin_execution i t r"
| "consume_at u i (Executing t) (Executed clk took) r =
     (case execute u clk took None t (wi_worker_id (wr_worker r)) of
        Inl x \<Rightarrow> leave_slot i (Ended (Some x)) r
      | Inr res \<Rightarrow> set_consumer i (Reporting t res) (r\<lparr>wr_sent := wr_sent r @ [res]\<rparr>))"
| "consume_at u i (Cancelling t) (Executed clk took) r =
     (case execute_cancelled u clk t (wi_worker_id (wr_worker r)) of
        Inl x \<Rightarrow> leave_slot i (Ended (Some x)) r
      | Inr res \<Rightarrow> set_consumer i (Reporting t res) (r\<lparr>wr_sent := wr_sent r @ [res]\<rparr>))"
| "consume_at u i (Reporting t res) (Reported (Inl x)) r = leave_slot i (Ended (Some x)) r"
| "consume_at u i (Reporting t res) (Reported (Inr _)) r = end_execution u i t res r"
| "consume_at u i c ev r = r"

definition consume :: "user_code \<Rightarrow> nat \<Rightarrow> consumer_event \<Rightarrow> worker_runtime \<Rightarrow> worker_runtime" where
  "consume u i ev r = (if i < length (wr_consumers r) then consume_at u i (wr_consumers r ! i) ev r else r)"

section \<open>The heartbeat\<close>

datatype heart_event = BeatReturned "exn + bool" | Registered "exn + unit" | HeartWoke

fun beat_at :: "heart \<Rightarrow> heart_event \<Rightarrow> bool \<Rightarrow> heart" where
  "beat_at Beating (BeatReturned (Inl x)) stop = HeartEnded (Some x)"
| "beat_at Beating (BeatReturned (Inr known)) stop = (if known then HeartNapping else Reregistering)"
| "beat_at Reregistering (Registered (Inl x)) stop = HeartEnded (Some x)"
| "beat_at Reregistering (Registered (Inr _)) stop = HeartNapping"
| "beat_at HeartNapping HeartWoke stop = (if stop then HeartEnded None else Beating)"
| "beat_at h ev stop = h"

definition beat :: "heart_event \<Rightarrow> worker_runtime \<Rightarrow> worker_runtime" where
  "beat ev r = r\<lparr>wr_heart := beat_at (wr_heart r) ev (wr_stop r)\<rparr>"

text \<open>What a heartbeat reports.\<close>

definition beat_request :: "worker_runtime \<Rightarrow> string \<times> int" where
  "beat_request r = (wi_worker_id (wr_worker r), int (length (wr_running r)))"

section \<open>Running and shutting down\<close>

text \<open>\<open>_run_with_transport\<close> after \<open>register_worker\<close> has answered: the heartbeat and a consumer per slot start.\<close>

definition start_run :: "exn + unit \<Rightarrow> worker_runtime \<Rightarrow> (exn + unit) \<times> worker_runtime" where
  "start_run registered r =
     (case registered of
        Inl x \<Rightarrow> (Inl x, r)
      | Inr _ \<Rightarrow> (Inr (), r\<lparr>wr_heart := (if wr_stop r then HeartEnded None else Beating),
                           wr_consumers := replicate (nat (wi_capacity (wr_worker r))) (loop_head r)\<rparr>))"

text \<open>
  \<open>task.cancel()\<close> on a consumer: a call to the scheduler, a sleep and an execution that has not started end
  with \<open>CancelledError\<close>.  A consumer that awaits its execution passes the cancellation on to it, and the
  execution to the body it waits for; what comes of that is the body's affair.
\<close>

definition cancel_consumer :: "consumer \<Rightarrow> consumer" where
  "cancel_consumer c =
     (case c of Ended x \<Rightarrow> Ended x | Executing t \<Rightarrow> Cancelling t | Cancelling t \<Rightarrow> Cancelling t
      | _ \<Rightarrow> Ended (Some CancelledError))"

definition cancelling :: "consumer \<Rightarrow> bool" where
  "cancelling c = (case c of Cancelling _ \<Rightarrow> True | _ \<Rightarrow> False)"

definition begin_drain :: "worker_runtime \<Rightarrow> worker_runtime" where
  "begin_drain r =
     (let consumers = map cancel_consumer (wr_consumers r)
      in r\<lparr>wr_worker := (wr_worker r)\<lparr>wi_status := DRAINING\<rparr>, wr_consumers := consumers,
           wr_running := filter (\<lambda>i. cancelling (consumers ! i)) (wr_running r)\<rparr>)"

definition ended :: "consumer \<Rightarrow> bool" where
  "ended c = (case c of Ended _ \<Rightarrow> True | _ \<Rightarrow> False)"

text \<open>\<open>with suppress(asyncio.CancelledError): await task\<close>\<close>

definition await_suppressed :: "exn option \<Rightarrow> exn + unit" where
  "await_suppressed x = (case x of None \<Rightarrow> Inr () | Some CancelledError \<Rightarrow> Inr () | Some y \<Rightarrow> Inl y)"

text \<open>\<open>None\<close>: it still waits for one of them.\<close>

fun await_consumers :: "consumer list \<Rightarrow> (exn + unit) option" where
  "await_consumers [] = Some (Inr ())"
| "await_consumers (c # cs) =
     (case c of
        Ended x \<Rightarrow> (case await_suppressed x of Inl y \<Rightarrow> Some (Inl y) | Inr _ \<Rightarrow> await_consumers cs)
      | _ \<Rightarrow> None)"

text \<open>
  \<open>_wait_for_running_tasks\<close>: with \<open>return_exceptions\<close>, \<open>gather\<close> raises nothing; \<open>False\<close> while it waits.
\<close>

definition wait_for_running_tasks :: "worker_runtime \<Rightarrow> bool" where
  "wait_for_running_tasks r = (wr_running r = [])"

text \<open>
  The rest of the \<open>finally\<close> block, \<open>None\<close> while it waits; an exception of an earlier consumer is raised before
  a later one is awaited.  \<open>files\<close> are the socket files.
\<close>

definition await_tasks :: "worker_runtime \<Rightarrow> (exn + unit) option" where
  "await_tasks r =
     (case wr_heart r of
        HeartEnded h \<Rightarrow> (case await_suppressed h of Inl x \<Rightarrow> Some (Inl x) | Inr _ \<Rightarrow> await_consumers (wr_consumers r))
      | _ \<Rightarrow> None)"

definition finish_run ::
    "bool \<Rightarrow> string set \<Rightarrow> worker_runtime \<Rightarrow> ((exn + unit) \<times> string set \<times> worker_runtime) option" where
  "finish_run nt files r =
     (case await_tasks r of
        None \<Rightarrow> None
      | Some (Inl x) \<Rightarrow> Some (Inl x, files, r)
      | Some (Inr _) \<Rightarrow>
          if wait_for_running_tasks r
          then (let r1 = r\<lparr>wr_executor := shutdown_executor (wr_executor r)\<rparr>
                in case close_ipc nt files (wr_ipc r1) of
                     (Inl x, fs, s) \<Rightarrow> Some (Inl (Exc ''FileNotFoundError'' []), fs, r1\<lparr>wr_ipc := s\<rparr>)
                   | (Inr _, fs, s) \<Rightarrow> Some (Inr (), fs, r1\<lparr>wr_ipc := s\<rparr>))
          else None)"

section \<open>Steps\<close>

inductive runtime_step :: "user_code \<Rightarrow> worker_runtime \<Rightarrow> worker_runtime \<Rightarrow> bool" for u where
  consumer: "runtime_step u r (consume u i ev r)"
| heartbeat: "runtime_step u r (beat ev r)"
| stop: "runtime_step u r (request_shutdown r)"
| drain: "wr_stop r \<Longrightarrow> wi_status (wr_worker r) \<noteq> DRAINING \<Longrightarrow> runtime_step u r (begin_drain r)"

inductive runtime_reachable :: "user_code \<Rightarrow> worker_runtime \<Rightarrow> bool" for u where
  start: "runtime_reachable u (snd (start_run (Inr ()) (new_runtime nd cfg wid queues labels capacity)))"
| step: "runtime_reachable u r \<Longrightarrow> runtime_step u r r' \<Longrightarrow> runtime_reachable u r'"

inductive_cases runtime_stepE [consumes 1, case_names consumer heartbeat stop drain]: "runtime_step u r r'"

end
