(* ===== verification/Cli.thy ===== *)
theory Cli
  imports Rpc Worker
begin

text \<open>
  \<open>taskrunner/cli/main.py\<close>: how the commands turn their options into specifications, workers and calls.
  Parsing the command line and printing are typer's.
\<close>

section \<open>Options\<close>

text \<open>\<open>exists\<close> tells which files there are.\<close>

definition target_of :: "(string \<Rightarrow> bool) \<Rightarrow> string \<Rightarrow> string \<Rightarrow> string" where
  "target_of exists task_path fname =
     (if CHR '':'' \<in> set task_path \<and> \<not> exists task_path then task_path else task_path @ CHR '':'' # fname)"

definition csv_set :: "string \<Rightarrow> string set" where
  "csv_set value = set (map strip (filter (\<lambda>part. strip part \<noteq> []) (split_on CHR '','' value)))"

datatype cli_error = BadPayload json_error | PayloadNotDict | CallFailed rpc_error

text \<open>The options of \<open>submit\<close>; a payload that is JSON but no object only fails when it is encoded.\<close>

record submit_options =
  so_task_path :: string
  so_function :: string
  so_payload :: string
  so_kind :: task_kind
  so_queue :: string
  so_priority :: int
  so_delay :: real
  so_retries :: int
  so_affinity :: string

definition submit_spec :: "(string \<Rightarrow> bool) \<Rightarrow> submit_options \<Rightarrow> cli_error + task_spec" where
  "submit_spec exists opts =
     (case loads (so_payload opts) of
        Inl x \<Rightarrow> Inl (BadPayload x)
      | Inr (PDict payload) \<Rightarrow>
          Inr ((default_spec (target_of exists (so_task_path opts) (so_function opts)))\<lparr>
            ts_payload := payload, ts_kind := so_kind opts, ts_queue := so_queue opts,
            ts_priority := so_priority opts, ts_delay_seconds := so_delay opts,
            ts_max_retries := so_retries opts, ts_affinity := csv_set (so_affinity opts)\<rparr>)
      | Inr _ \<Rightarrow> Inl PayloadNotDict)"

section \<open>Commands\<close>

text \<open>\<open>async with SchedulerClient(settings.grpc_target) as client\<close> around one call.\<close>

definition connected :: "settings \<Rightarrow> scheduler_client" where
  "connected cfg = enter_client (new_client cfg (Some (grpc_target cfg)))"

definition submit_call ::
    "protobuf \<Rightarrow> (spec_message, task_message, 'st) call \<Rightarrow> settings \<Rightarrow> task_spec \<Rightarrow> 'st \<Rightarrow> (rpc_error + task_envelope) \<times> 'st" where
  "submit_call pb net cfg spec st = client_submit pb net (connected cfg) spec st"

definition retry_call ::
    "protobuf \<Rightarrow> (string, task_message, 'st) call \<Rightarrow> settings \<Rightarrow> string \<Rightarrow> 'st \<Rightarrow> (rpc_error + task_envelope) \<times> 'st" where
  "retry_call pb net cfg tid st = client_retry pb net (connected cfg) tid st"

definition cancel_call ::
    "protobuf \<Rightarrow> (string, task_message, 'st) call \<Rightarrow> settings \<Rightarrow> string \<Rightarrow> 'st \<Rightarrow> (rpc_error + task_envelope) \<times> 'st" where
  "cancel_call pb net cfg tid st = client_cancel pb net (connected cfg) tid st"

definition printed :: "(rpc_error + task_envelope) \<times> 'st \<Rightarrow> (cli_error + (string, pyval) dict) \<times> 'st" where
  "printed r = (case r of (Inl x, st) \<Rightarrow> (Inl (CallFailed x), st) | (Inr t, st) \<Rightarrow> (Inr (envelope_to_dict t), st))"

definition submit_command ::
    "protobuf \<Rightarrow> (spec_message, task_message, 'st) call \<Rightarrow> settings \<Rightarrow> (string \<Rightarrow> bool) \<Rightarrow> submit_options \<Rightarrow> 'st
     \<Rightarrow> (cli_error + (string, pyval) dict) \<times> 'st" where
  "submit_command pb net cfg exists opts st =
     (case submit_spec exists opts of
        Inl x \<Rightarrow> (Inl x, st)
      | Inr spec \<Rightarrow> printed (submit_call pb net cfg spec st))"

definition retry_command ::
    "protobuf \<Rightarrow> (string, task_message, 'st) call \<Rightarrow> settings \<Rightarrow> string \<Rightarrow> 'st
     \<Rightarrow> (cli_error + (string, pyval) dict) \<times> 'st" where
  "retry_command pb net cfg tid st = printed (retry_call pb net cfg tid st)"

definition cancel_command ::
    "protobuf \<Rightarrow> (string, task_message, 'st) call \<Rightarrow> settings \<Rightarrow> string \<Rightarrow> 'st
     \<Rightarrow> (cli_error + (string, pyval) dict) \<times> 'st" where
  "cancel_command pb net cfg tid st = printed (cancel_call pb net cfg tid st)"

definition worker_command ::
    "node \<Rightarrow> settings \<Rightarrow> string option \<Rightarrow> string \<Rightarrow> string \<Rightarrow> int option \<Rightarrow> worker_runtime" where
  "worker_command nd cfg worker_id queues labels capacity =
     new_runtime nd cfg worker_id (Some (csv_set queues)) (Some (csv_set labels)) capacity"

definition api_url :: "settings \<Rightarrow> string \<Rightarrow> string" where
  "api_url cfg path = ''http://'' @ st_api_host cfg @ '':'' @ show_int (st_api_port cfg) @ path"

section \<open>Lists of names\<close>

lemma strip_nonempty: "stripped s \<Longrightarrow> s \<noteq> [] \<Longrightarrow> strip s \<noteq> []"
  by (simp add: strip_stripped)

text \<open>Names without commas and blanks around them survive being written as one option.\<close>

lemma csv_set_join:
  assumes "list_all (\<lambda>s. stripped s \<and> s \<noteq> [] \<and> CHR '','' \<notin> set s) names"
  shows "csv_set (join_with CHR '','' names) = set names"
proof (cases "names = []")
  case True
  then show ?thesis by (simp add: csv_set_def strip_def)
next
  case False
  have names: "\<forall>s \<in> set names. CHR '','' \<notin> set s" "\<forall>s \<in> set names. strip s = s \<and> s \<noteq> []"
    using assms by (auto simp: list_all_iff strip_stripped)
  have "split_on CHR '','' (join_with CHR '','' names) = names" by (rule split_join [OF False names(1)])
  moreover have "filter (\<lambda>part. strip part \<noteq> []) names = names" using names(2) by (intro filter_True) auto
  moreover have "map strip names = names" using names(2) by (intro map_idI) auto
  ultimately show ?thesis by (simp add: csv_set_def)
qed

lemma csv_set_clean: "s \<in> csv_set v \<Longrightarrow> s \<noteq> [] \<and> stripped s"
  by (auto simp: csv_set_def)

section \<open>From the command line to the function\<close>

text \<open>
  A worker finds the function that a command line names: for a path without a colon, what the executor
  loads for the target that \<open>submit\<close> builds is the named function of the module at that path.  If the
  path of an existing file has a colon, the executor takes the text before the first colon for the path.
\<close>
theorem target_resolves:
  assumes "task_path \<noteq> []" and "fname \<noteq> []"
  shows "(CHR '':'' \<notin> set task_path \<longrightarrow>
       load_callable u (target_of exists task_path fname)
         = and_then (load_module u task_path) (\<lambda>m. case m fname of
             Some (Callable f) \<Rightarrow> Inr f
           | _ \<Rightarrow> Inl (Exc ''AttributeError'' (target_of exists task_path fname @ '' is not callable''))))
    \<and> (\<forall>a b. task_path = a @ CHR '':'' # b \<and> CHR '':'' \<notin> set a \<and> a \<noteq> [] \<and> exists task_path \<longrightarrow>
       load_callable u (target_of exists task_path fname)
         = and_then (load_module u a) (\<lambda>m. case m (b @ CHR '':'' # fname) of
             Some (Callable f) \<Rightarrow> Inr f
           | _ \<Rightarrow> Inl (Exc ''AttributeError'' (target_of exists task_path fname @ '' is not callable''))))"
proof (intro conjI allI impI)
  assume "CHR '':'' \<notin> set task_path"
  then show "load_callable u (target_of exists task_path fname)
      = and_then (load_module u task_path) (\<lambda>m. case m fname of
          Some (Callable f) \<Rightarrow> Inr f
        | _ \<Rightarrow> Inl (Exc ''AttributeError'' (target_of exists task_path fname @ '' is not callable'')))"
    using assms unfolding load_callable_def target_of_def
    by (simp add: partition_on_first)
next
  fix a b
  assume h: "task_path = a @ CHR '':'' # b \<and> CHR '':'' \<notin> set a \<and> a \<noteq> [] \<and> exists task_path"
  then have ex: "exists task_path" and a: "a \<noteq> []" by blast+
  have t: "target_of exists task_path fname = task_path @ CHR '':'' # fname"
    by (simp only: target_of_def ex simp_thms if_False)
  from h have p: "partition_on CHR '':'' (task_path @ CHR '':'' # fname) = (a, [CHR '':''], b @ CHR '':'' # fname)"
    using partition_on_first [of "CHR '':''" a "b @ CHR '':'' # fname"] by simp
  show "load_callable u (target_of exists task_path fname)
      = and_then (load_module u a) (\<lambda>m. case m (b @ CHR '':'' # fname) of
          Some (Callable f) \<Rightarrow> Inr f
        | _ \<Rightarrow> Inl (Exc ''AttributeError'' (target_of exists task_path fname @ '' is not callable'')))"
    unfolding t load_callable_def p using a by simp
qed

theorem target_resolves_witness:
  "\<exists>f. load_callable demo_code (target_of (\<lambda>_. True) ''jobs.py'' ''run'') = Inr f
     \<and> f [] = Inr (Awaitable (Inl (Exc ''RuntimeError'' ''boom'')) (Inl CancelledError))"
  using target_resolves [of "''jobs.py''" "''run''" demo_code "\<lambda>_. True"]
  by (simp add: load_module_def demo_code_def)

end
