(* ===== verification/Engine_Reports.thy ===== *)
theory Engine_Reports
  imports Engine_Submit
begin

text \<open>
  Properties of the scheduler: reporting results, the dependency gate, reserving, the heartbeat
  reaper and the autoscaling recommendation.
\<close>

section \<open>Reporting a result\<close>

text \<open>What a report does to the reporting worker.\<close>

definition released :: "worker_info \<Rightarrow> worker_info" where
  "released w = (let n = max 0 (wi_running_tasks w - 1)
     in w\<lparr>wi_running_tasks := n, wi_status := (if n = 0 then IDLE else BUSY)\<rparr>)"

lemma release_worker_eq:
  "release_worker wid e = (case dict_get (en_workers e) wid of
     None \<Rightarrow> (Inr (), e) | Some wa \<Rightarrow> save_worker wa (upd_worker wa released e))"
  by (simp add: release_worker_def released_def [abs_def] split: option.split)

lemma save_worker_ok: "worker_fits (en_wobjs e wa) \<Longrightarrow> fst (save_worker wa e) = Inr ()"
  using upsert_worker_ok [of "en_wobjs e wa" "en_store e"] by (auto simp: save_worker_def split: prod.split sum.split)

lemma upd_worker_fields [simp]:
  "en_store (upd_worker wa f e) = en_store e" "en_workers (upd_worker wa f e) = en_workers e"
  "en_completed (upd_worker wa f e) = en_completed e" "en_results (upd_worker wa f e) = en_results e"
  "en_bus (upd_worker wa f e) = en_bus e" "en_config (upd_worker wa f e) = en_config e"
  "en_wobjs (upd_worker wa f e) = (en_wobjs e)(wa := f (en_wobjs e wa))"
  by (simp_all add: upd_worker_def)

lemma save_worker_fields [simp]:
  "en_workers (snd (save_worker wa e)) = en_workers e" "en_completed (snd (save_worker wa e)) = en_completed e"
  "en_results (snd (save_worker wa e)) = en_results e" "en_bus (snd (save_worker wa e)) = en_bus e"
  "en_wobjs (snd (save_worker wa e)) = en_wobjs e" "en_config (snd (save_worker wa e)) = en_config e"
  "db_tasks (en_store (snd (save_worker wa e))) = db_tasks (en_store e)"
  "db_logs (en_store (snd (save_worker wa e))) = db_logs (en_store e)"
  by (simp_all add: save_worker_eq upsert_worker_frame)

lemma release_worker_fields [simp]:
  "en_workers (snd (release_worker wid e)) = en_workers e" "en_completed (snd (release_worker wid e)) = en_completed e"
  "en_results (snd (release_worker wid e)) = en_results e" "en_bus (snd (release_worker wid e)) = en_bus e"
  "db_tasks (en_store (snd (release_worker wid e))) = db_tasks (en_store e)"
  "db_logs (en_store (snd (release_worker wid e))) = db_logs (en_store e)"
  by (auto simp: release_worker_eq split: option.split)

lemma release_worker_wobjs:
  "en_wobjs (snd (release_worker wid e)) = (case dict_get (en_workers e) wid of
     None \<Rightarrow> en_wobjs e | Some wa \<Rightarrow> (en_wobjs e)(wa := released (en_wobjs e wa)))"
  by (auto simp: release_worker_eq split: option.split)

text \<open>A worker that, when registered, fits into the table after the report.\<close>

definition reporter_fits :: "string \<Rightarrow> engine \<Rightarrow> bool" where
  "reporter_fits wid e \<longleftrightarrow> (case dict_get (en_workers e) wid of
     None \<Rightarrow> True | Some wa \<Rightarrow> worker_fits (released (en_wobjs e wa)))"

lemma release_worker_ok: "reporter_fits wid e \<Longrightarrow> fst (release_worker wid e) = Inr ()"
  by (auto simp: reporter_fits_def release_worker_eq intro: save_worker_ok split: option.splits)

lemma task_row_upsert_result:
  assumes "task_fits t"
  shows "\<exists>row. task_row (te_task_id t) (snd (upsert_task now t (Some r) s)) = Some row
     \<and> rt_result_json row = Some (PDict (result_to_dict r))"
  using assms by (auto simp: task_row_upsert_task task_row_of_def merge_task_row_def coalesce_def split: option.split)

lemma settled_id [simp]:
  "te_task_id (settled io r t) = te_task_id t" "te_spec (settled io r t) = te_spec t"
  by (simp_all add: settled_def retried_def)

text \<open>What an undisturbed report amounts to once the worker's row is written.\<close>

lemma report_result_settles:
  assumes inv: "engine_inv e" and a: "dict_get (tasks (en_queue e)) (tr_task_id r) = Some a"
    and quiet: "io_threads io = (\<lambda>_. [])" and w: "reporter_fits (tr_worker_id r) e"
  obtains e3 where "report_result io r e = (case save_task (io_clk io 2) a (Some r) e3 of
        (Inl x, e4) \<Rightarrow> (Inl x, e4)
      | (Inr _, e4) \<Rightarrow> (Inr a, (announce io 0 4 (if tr_status r = SUCCEEDED then TASK_FINISHED else TASK_FAILED)
          [(''task_id'', PStr (tr_task_id r)), (''worker_id'', PStr (tr_worker_id r)),
           (''status'', PStr (status_str (te_status (task_at (log_outcome (io_clk io 3) r e4) a)))),
           (''duration_seconds'', PFloat (duration_seconds r))]
          (log_outcome (io_clk io 3) r e4))\<lparr>en_drain := True\<rparr>))"
    and "tasks (en_queue e3) = tasks (en_queue e)"
    and "objs (en_queue e3) = (objs (en_queue e))(a := settled io r (task_at e a))"
    and "en_completed e3 = (if tr_status r = SUCCEEDED then insert (tr_task_id r) (en_completed e) else en_completed e)"
    and "en_results e3 = dict_set (tr_task_id r) r (en_results e)"
    and "db_tasks (en_store e3) = db_tasks (en_store e)" and "db_logs (en_store e3) = db_logs (en_store e)"
    and "en_bus e3 = en_bus e"
    and "en_wobjs e3 = (case dict_get (en_workers e) (tr_worker_id r) of
       None \<Rightarrow> en_wobjs e | Some wa \<Rightarrow> (en_wobjs e)(wa := released (en_wobjs e wa)))"
proof -
  let ?tid = "tr_task_id r"
  have g: "gap io n x = x" for n x using quiet by (simp add: gap_def)
  obtain e1 where e1: "release_worker (tr_worker_id r) e = (Inr (), e1)"
    using release_worker_ok [OF w] by (metis prod.collapse)
  note f = release_worker_fields [of "tr_worker_id r" e, unfolded e1 snd_conv]
    release_worker_queue [of "tr_worker_id r" e, unfolded e1 snd_conv]
    release_worker_wobjs [of "tr_worker_id r" e, unfolded e1 snd_conv]
  have inv1: "engine_inv e1" using release_worker_inv [OF inv, of "tr_worker_id r"] e1 by simp
  have "dict_get (tasks (en_queue e1)) ?tid = Some a" using a f by simp
  then show ?thesis
  proof (rule settle_task_known [OF inv1, of r a io])
    fix q
    assume s: "settle_task io r e1 = (Inr (a, if tr_status r = SUCCEEDED then TASK_FINISHED else TASK_FAILED),
         e1\<lparr>en_queue := q, en_completed := (if tr_status r = SUCCEEDED then insert ?tid (en_completed e1) else en_completed e1)\<rparr>)"
      and q: "tasks q = tasks (en_queue e1)" "objs q = (objs (en_queue e1))(a := settled io r (objs (en_queue e1) a))"
    define e3 where "e3 = e1\<lparr>en_queue := q, en_completed := (if tr_status r = SUCCEEDED then insert ?tid (en_completed e1) else en_completed e1),
       en_results := dict_set ?tid r (en_results e1)\<rparr>"
    show ?thesis
    proof (rule that [of e3])
      show "report_result io r e = (case save_task (io_clk io 2) a (Some r) e3 of
        (Inl x, e4) \<Rightarrow> (Inl x, e4)
      | (Inr _, e4) \<Rightarrow> (Inr a, (announce io 0 4 (if tr_status r = SUCCEEDED then TASK_FINISHED else TASK_FAILED)
          [(''task_id'', PStr (tr_task_id r)), (''worker_id'', PStr (tr_worker_id r)),
           (''status'', PStr (status_str (te_status (task_at (log_outcome (io_clk io 3) r e4) a)))),
           (''duration_seconds'', PFloat (duration_seconds r))]
          (log_outcome (io_clk io 3) r e4))\<lparr>en_drain := True\<rparr>))"
        unfolding report_result_def g Let_def using a e1 s by (simp add: get_eq e3_def)
    qed (use q f in \<open>simp_all add: e3_def task_at_def\<close>)
  qed
qed

text \<open>The state after an undisturbed report, field by field.\<close>

lemma report_result_state:
  assumes inv: "engine_inv e" and a: "dict_get (tasks (en_queue e)) (tr_task_id r) = Some a"
    and quiet: "io_threads io = (\<lambda>_. [])" and w: "reporter_fits (tr_worker_id r) e"
    and t: "task_fits (settled io r (task_at e a))"
  obtains e' s where "report_result io r e = (Inr a, e')"
    and "tasks (en_queue e') = tasks (en_queue e)"
    and "objs (en_queue e') = (objs (en_queue e))(a := settled io r (task_at e a))"
    and "en_completed e' = (if tr_status r = SUCCEEDED then insert (tr_task_id r) (en_completed e) else en_completed e)"
    and "en_results e' = dict_set (tr_task_id r) r (en_results e)"
    and "en_store e' = append_log (io_clk io 3) (tr_task_id r) (if truthy (tr_error r) then ''ERROR'' else ''INFO'')
       (or_str (tr_error r) (''completed in '' @ fmt3 (duration_seconds r) @ ''s''))
       (snd (upsert_task (io_clk io 2) (settled io r (task_at e a)) (Some r) s))"
    and "db_tasks s = db_tasks (en_store e)" and "db_logs s = db_logs (en_store e)"
    and "en_bus e' = publish (new_event (io_hex io 0) (io_clk io 4) (if tr_status r = SUCCEEDED then TASK_FINISHED else TASK_FAILED)
       [(''task_id'', PStr (tr_task_id r)), (''worker_id'', PStr (tr_worker_id r)),
        (''status'', PStr (status_str (te_status (settled io r (task_at e a))))),
        (''duration_seconds'', PFloat (duration_seconds r))]) (en_bus e)"
    and "en_wobjs e' = (case dict_get (en_workers e) (tr_worker_id r) of
       None \<Rightarrow> en_wobjs e | Some wa \<Rightarrow> (en_wobjs e)(wa := released (en_wobjs e wa)))"
proof (rule report_result_settles [OF inv a quiet w], goal_cases)
  case (1 e3)
  let ?t = "settled io r (task_at e a)"
  have at3: "task_at e3 a = ?t" using 1(4) by (simp add: task_at_def)
  have "fst (upsert_task (io_clk io 2) ?t (Some r) (en_store e3)) = Inr ()" by (rule upsert_task_ok [OF t])
  then obtain s4 where s4: "upsert_task (io_clk io 2) ?t (Some r) (en_store e3) = (Inr (), s4)"
    by (metis prod.collapse)
  have "save_task (io_clk io 2) a (Some r) e3 = (Inr (), e3\<lparr>en_store := s4\<rparr>)"
    using s4 at3 by (simp add: save_task_def)
  with 1(2) have "report_result io r e = (Inr a, (announce io 0 4 (if tr_status r = SUCCEEDED then TASK_FINISHED else TASK_FAILED)
      [(''task_id'', PStr (tr_task_id r)), (''worker_id'', PStr (tr_worker_id r)),
       (''status'', PStr (status_str (te_status (task_at (log_outcome (io_clk io 3) r (e3\<lparr>en_store := s4\<rparr>)) a)))),
       (''duration_seconds'', PFloat (duration_seconds r))]
      (log_outcome (io_clk io 3) r (e3\<lparr>en_store := s4\<rparr>)))\<lparr>en_drain := True\<rparr>)" by simp
  then show ?case
    by (rule 1(1) [of _ "en_store e3"]) (use 1(3-) s4 in \<open>simp_all add: announce_def log_outcome_def task_at_def\<close>)
qed

text \<open>The two ways in which a report of a known task fails.\<close>

lemma release_worker_fails:
  assumes "\<not> reporter_fits wid e"
  obtains wa i where "dict_get (en_workers e) wid = Some wa"
    and "release_worker wid e = (Inl (StoreError (OverflowError i)), upd_worker wa released e)"
proof -
  obtain wa where wa: "dict_get (en_workers e) wid = Some wa" "\<not> worker_fits (released (en_wobjs e wa))"
    using assms by (auto simp: reporter_fits_def split: option.splits)
  obtain i where "upsert_worker (released (en_wobjs e wa)) (en_store e) = (Inl (OverflowError i), en_store e)"
    using upsert_worker_fails [OF wa(2)] by blast
  then have "save_worker wa (upd_worker wa released e) = (Inl (StoreError (OverflowError i)), upd_worker wa released e)"
    by (simp add: save_worker_def)
  with wa(1) show ?thesis by (intro that) (simp_all add: release_worker_eq)
qed

lemma report_result_overflow:
  assumes inv: "engine_inv e" and a: "dict_get (tasks (en_queue e)) (tr_task_id r) = Some a"
    and quiet: "io_threads io = (\<lambda>_. [])" and w: "reporter_fits (tr_worker_id r) e"
    and t: "\<not> task_fits (settled io r (task_at e a))"
  obtains e' i where "report_result io r e = (Inl (StoreError (OverflowError i)), e')"
    and "tasks (en_queue e') = tasks (en_queue e)"
    and "objs (en_queue e') = (objs (en_queue e))(a := settled io r (task_at e a))"
    and "en_completed e' = (if tr_status r = SUCCEEDED then insert (tr_task_id r) (en_completed e) else en_completed e)"
    and "en_results e' = dict_set (tr_task_id r) r (en_results e)"
    and "db_tasks (en_store e') = db_tasks (en_store e)" and "db_logs (en_store e') = db_logs (en_store e)"
    and "en_bus e' = en_bus e"
    and "en_wobjs e' = (case dict_get (en_workers e) (tr_worker_id r) of
       None \<Rightarrow> en_wobjs e | Some wa \<Rightarrow> (en_wobjs e)(wa := released (en_wobjs e wa)))"
proof (rule report_result_settles [OF inv a quiet w], goal_cases)
  case (1 e3)
  have "\<not> task_fits (task_at e3 a)" using 1(4) t by (simp add: task_at_def)
  then obtain i where "save_task (io_clk io 2) a (Some r) e3 = (Inl (StoreError (OverflowError i)), e3)"
    using save_task_fails by blast
  with 1(2) have "report_result io r e = (Inl (StoreError (OverflowError i)), e3)" by simp
  then show ?case by (rule 1(1)) (use 1(3-) in simp_all)
qed

text \<open>
  C14. \<open>report_result\<close> on every branch, when no thread steps in between.  For an unknown task it raises and
  changes nothing at all.  For a known one the reporting worker, if registered, has one task less, never
  fewer than none, and is idle exactly when it has none.  When the numbers of that worker do not fit into
  SQLite, \<open>OverflowError\<close> is raised there, and nothing else has changed.  Otherwise the task alone changes,
  to succeeded, cancelled or retried by the reported status; it counts as completed exactly on success; the
  result is recorded, last one wins.  When the task's numbers do not fit, \<open>OverflowError\<close> is raised now:
  queue, completed set and results have changed, but no row, no log and no event tells.  When they
  fit, the task is returned, its row agrees with it and carries the result; one log line is written, \<open>ERROR\<close>
  with the error if there is one, else \<open>INFO\<close>; and one event is published with the new status.
\<close>
theorem report_result_outcome:
  assumes "engine_reachable e"
  shows "case dict_get (tasks (en_queue e)) (tr_task_id r) of
      None \<Rightarrow> report_result io r e = (Inl (QueueError (TaskNotFoundError (tr_task_id r))), e)
    | Some a \<Rightarrow> io_threads io = (\<lambda>_. []) \<longrightarrow>
        (let (res, e') = report_result io r e in
           en_wobjs e' = (case dict_get (en_workers e) (tr_worker_id r) of
             None \<Rightarrow> en_wobjs e | Some wa \<Rightarrow> (en_wobjs e)(wa := released (en_wobjs e wa)))
           \<and> tasks (en_queue e') = tasks (en_queue e)
           \<and> (if \<not> reporter_fits (tr_worker_id r) e
              then (\<exists>i. res = Inl (StoreError (OverflowError i))) \<and> en_queue e' = en_queue e
                \<and> en_completed e' = en_completed e \<and> en_results e' = en_results e \<and> en_store e' = en_store e \<and> en_bus e' = en_bus e
              else (\<forall>b. task_at e' b = (if b = a then settled io r (task_at e a) else task_at e b))
                \<and> en_completed e' = (if tr_status r = SUCCEEDED then insert (tr_task_id r) (en_completed e) else en_completed e)
                \<and> en_results e' = dict_set (tr_task_id r) r (en_results e)
                \<and> (if \<not> task_fits (settled io r (task_at e a))
                   then (\<exists>i. res = Inl (StoreError (OverflowError i))) \<and> db_tasks (en_store e') = db_tasks (en_store e)
                     \<and> db_logs (en_store e') = db_logs (en_store e) \<and> en_bus e' = en_bus e
                   else res = Inr a
                     \<and> stored_as (task_at e' a) (task_row (tr_task_id r) (en_store e'))
                     \<and> map_option rt_result_json (task_row (tr_task_id r) (en_store e')) = Some (Some (PDict (result_to_dict r)))
                     \<and> (\<exists>log. db_logs (en_store e') = db_logs (en_store e) @ [log] \<and> rl_entity_id log = tr_task_id r
                          \<and> rl_level log = (if truthy (tr_error r) then ''ERROR'' else ''INFO'')
                          \<and> rl_message log = or_str (tr_error r) (''completed in '' @ fmt3 (duration_seconds r) @ ''s''))
                     \<and> (\<exists>ev. en_bus e' = publish ev (en_bus e)
                          \<and> ce_event_type ev = (if tr_status r = SUCCEEDED then TASK_FINISHED else TASK_FAILED)
                          \<and> dict_get (ce_payload ev) ''status'' = Some (PStr (status_str (te_status (task_at e' a))))))))"
proof (cases "dict_get (tasks (en_queue e)) (tr_task_id r)")
  case None
  then show ?thesis by (simp add: report_result_def get_eq)
next
  case (Some a)
  note inv = engine_reachable_inv [OF assms]
  have id: "te_task_id (task_at e a) = tr_task_id r"
    using task_id_of [OF engine_invD(1) [OF inv] Some] by (simp add: task_at_def)
  show ?thesis
  proof (simp only: Some option.case, intro impI)
    assume quiet: "io_threads io = (\<lambda>_. [])"
    consider "\<not> reporter_fits (tr_worker_id r) e"
      | "reporter_fits (tr_worker_id r) e" "\<not> task_fits (settled io r (task_at e a))"
      | "reporter_fits (tr_worker_id r) e" "task_fits (settled io r (task_at e a))" by blast
    then show "let (res, e') = report_result io r e in
           en_wobjs e' = (case dict_get (en_workers e) (tr_worker_id r) of
             None \<Rightarrow> en_wobjs e | Some wa \<Rightarrow> (en_wobjs e)(wa := released (en_wobjs e wa)))
           \<and> tasks (en_queue e') = tasks (en_queue e)
           \<and> (if \<not> reporter_fits (tr_worker_id r) e
              then (\<exists>i. res = Inl (StoreError (OverflowError i))) \<and> en_queue e' = en_queue e
                \<and> en_completed e' = en_completed e \<and> en_results e' = en_results e \<and> en_store e' = en_store e \<and> en_bus e' = en_bus e
              else (\<forall>b. task_at e' b = (if b = a then settled io r (task_at e a) else task_at e b))
                \<and> en_completed e' = (if tr_status r = SUCCEEDED then insert (tr_task_id r) (en_completed e) else en_completed e)
                \<and> en_results e' = dict_set (tr_task_id r) r (en_results e)
                \<and> (if \<not> task_fits (settled io r (task_at e a))
                   then (\<exists>i. res = Inl (StoreError (OverflowError i))) \<and> db_tasks (en_store e') = db_tasks (en_store e)
                     \<and> db_logs (en_store e') = db_logs (en_store e) \<and> en_bus e' = en_bus e
                   else res = Inr a
                     \<and> stored_as (task_at e' a) (task_row (tr_task_id r) (en_store e'))
                     \<and> map_option rt_result_json (task_row (tr_task_id r) (en_store e')) = Some (Some (PDict (result_to_dict r)))
                     \<and> (\<exists>log. db_logs (en_store e') = db_logs (en_store e) @ [log] \<and> rl_entity_id log = tr_task_id r
                          \<and> rl_level log = (if truthy (tr_error r) then ''ERROR'' else ''INFO'')
                          \<and> rl_message log = or_str (tr_error r) (''completed in '' @ fmt3 (duration_seconds r) @ ''s''))
                     \<and> (\<exists>ev. en_bus e' = publish ev (en_bus e)
                          \<and> ce_event_type ev = (if tr_status r = SUCCEEDED then TASK_FINISHED else TASK_FAILED)
                          \<and> dict_get (ce_payload ev) ''status'' = Some (PStr (status_str (te_status (task_at e' a)))))))"
      (is "let (res, e') = report_result io r e in ?P res e'")
    proof cases
      case 1
      show ?thesis
      proof (rule release_worker_fails [OF 1])
        fix wa i
        assume "dict_get (en_workers e) (tr_worker_id r) = Some wa"
          and "release_worker (tr_worker_id r) e = (Inl (StoreError (OverflowError i)), upd_worker wa released e)"
        then show ?thesis using 1 Some by (simp add: report_result_def get_eq upd_worker_def)
      qed
    next
      case 2
      show ?thesis
      proof (rule report_result_overflow [OF inv Some quiet 2], goal_cases)
        case prems: (1 e' i)
        show ?case unfolding prems(1) Let_def prod.case using 2 prems(2-) by (simp add: task_at_def)
      qed
    next
      case 3
      show ?thesis
      proof (rule report_result_state [OF inv Some quiet 3], goal_cases)
        case (1 e' s)
        note res = 1(1) and q = 1(2,3) and rest = 1(4,5,10) and st = 1(6-8) and bus = 1(9) and t = 3(2)
        have at: "task_at e' b = (if b = a then settled io r (task_at e a) else task_at e b)" for b
          using q(2) by (simp add: task_at_def)
        have row: "stored_as (task_at e' a) (task_row (tr_task_id r) (en_store e'))"
          "map_option rt_result_json (task_row (tr_task_id r) (en_store e')) = Some (Some (PDict (result_to_dict r)))"
          using stored_as_upsert [OF t, of "io_clk io 2" "Some r" s] task_row_upsert_result [OF t, of "io_clk io 2" r s] id at
          by (auto simp: st(1) append_log_frame)
        have log: "\<exists>log. db_logs (en_store e') = db_logs (en_store e) @ [log] \<and> rl_entity_id log = tr_task_id r
            \<and> rl_level log = (if truthy (tr_error r) then ''ERROR'' else ''INFO'')
            \<and> rl_message log = or_str (tr_error r) (''completed in '' @ fmt3 (duration_seconds r) @ ''s'')"
          using st(3) by (simp add: st(1) append_log_def upsert_task_frame to_upper_def)
        have ev: "\<exists>ev. en_bus e' = publish ev (en_bus e)
            \<and> ce_event_type ev = (if tr_status r = SUCCEEDED then TASK_FINISHED else TASK_FAILED)
            \<and> dict_get (ce_payload ev) ''status'' = Some (PStr (status_str (te_status (task_at e' a))))"
          by (rule exI, rule conjI, rule bus) (simp add: new_event_def at)
        show ?case
          unfolding res Let_def prod.case using 3 at q(1) rest row log ev by simp
      qed
    qed
  qed
qed

definition demo_result :: task_result where
  "demo_result = \<lparr>tr_task_id = ''task-0'', tr_worker_id = ''w'', tr_status = SUCCEEDED, tr_started_at = 11,
     tr_finished_at = 12, tr_result = PNone, tr_error = None\<rparr>"

lemma demo_submitted_task: "dict_get (tasks (en_queue demo_submitted)) (tr_task_id demo_result) = Some 0"
  by code_simp

theorem report_result_outcome_witness:
  "fst (report_result (quiet 13 demo_hex) demo_result demo_submitted) = Inr 0
   \<and> en_completed (snd (report_result (quiet 13 demo_hex) demo_result demo_submitted)) = insert ''task-0'' (en_completed demo_submitted)"
proof -
  obtain res e' where r: "report_result (quiet 13 demo_hex) demo_result demo_submitted = (res, e')" by fastforce
  have "reporter_fits (tr_worker_id demo_result) demo_submitted" by code_simp
  moreover have "task_fits (settled (quiet 13 demo_hex) demo_result (task_at demo_submitted 0))" by code_simp
  moreover have "io_threads (quiet 13 demo_hex) = (\<lambda>_. [])" by (simp add: quiet_def)
  ultimately have "res = Inr 0 \<and> en_completed e' = (if tr_status demo_result = SUCCEEDED
           then insert (tr_task_id demo_result) (en_completed demo_submitted) else en_completed demo_submitted)"
    using report_result_outcome [OF demo_submitted_reachable, of "quiet 13 demo_hex" demo_result]
    unfolding demo_submitted_task option.case Let_def r prod.case by simp
  moreover have "tr_task_id demo_result = ''task-0''" "tr_status demo_result = SUCCEEDED"
    by (simp_all add: demo_result_def)
  ultimately show ?thesis by (simp add: r)
qed

section \<open>The dependency gate\<close>

text \<open>Only a success report adds to the completed tasks.\<close>

interpretation completed: engine_frame en_completed
  by unfold_locales simp_all

lemma settle_task_completed:
  "en_completed (snd (settle_task io r e)) = en_completed e
   \<or> tr_status r = SUCCEEDED \<and> en_completed (snd (settle_task io r e)) = insert (tr_task_id r) (en_completed e)"
  by (auto simp: settle_task_def split: prod.split sum.split)

lemma report_completed:
  "en_completed (snd (report_result io r e)) = en_completed e
   \<or> tr_status r = SUCCEEDED \<and> en_completed (snd (report_result io r e)) = insert (tr_task_id r) (en_completed e)"
  (is "?P (snd (report_result io r e))")
proof (cases "get (tr_task_id r) (en_queue e)")
  case (Inr a)
  let ?P = "\<lambda>x. en_completed x = en_completed e
    \<or> tr_status r = SUCCEEDED \<and> en_completed x = insert (tr_task_id r) (en_completed e)"
  show ?thesis
    unfolding report_result_def Inr sum.case Let_def
  proof (rule call_then [where P = ?P], goal_cases)
    case (2 y e1)
    then have e1: "en_completed e1 = en_completed e" using release_worker_fields(2) [of "tr_worker_id r" e] by simp
    have s: "?P (snd (settle_task io r (gap io 0 e1)))"
      using settle_task_completed [of io r "gap io 0 e1"] e1 by simp
    show ?case
    proof (rule call_then [where P = ?P, OF s], goal_cases)
      case (1 y e2)
      obtain a ty where y: "y = (a, ty)" by (cases y)
      show ?case
        unfolding y prod.case
        by (rule call_then [where P = ?P]) (use 1(2) in \<open>simp_all\<close>)
    qed
  qed simp
qed (simp add: report_result_def)

end
