(* ===== verification/Engine_Gate.thy ===== *)
theory Engine_Gate
  imports Engine_Reports
begin

text \<open>
  Properties of the scheduler: which tasks a worker may get, the heartbeat reaper, and the
  autoscaling recommendation.
\<close>

section \<open>Dependencies\<close>

lemma engine_step_completed:
  "engine_step e e' \<Longrightarrow> engine_inv e \<Longrightarrow> en_completed e' = en_completed e
     \<or> (\<exists>io r. e' = snd (report_result io r e) \<and> tr_status r = SUCCEEDED
          \<and> en_completed e' = insert (tr_task_id r) (en_completed e))"
proof (induction rule: engine_step.induct)
  case (report e io r)
  then show ?case using report_completed [of io r e] by blast
qed (simp_all add: completed.frame_handlers start_background_services_def stop_background_services_def)

lemma completed_history:
  "engine_step\<^sup>*\<^sup>* e0 e \<Longrightarrow> engine_reachable e0 \<Longrightarrow> tid \<in> en_completed e \<Longrightarrow> tid \<notin> en_completed e0 \<Longrightarrow>
     \<exists>e1 io r. engine_step\<^sup>*\<^sup>* e0 e1 \<and> engine_step\<^sup>*\<^sup>* (snd (report_result io r e1)) e
       \<and> tr_task_id r = tid \<and> tr_status r = SUCCEEDED"
proof (induction rule: rtranclp_induct)
  case (step e e')
  have reach: "engine_reachable e"
    using step(1) step.prems(1) by (induction rule: rtranclp_induct) (auto intro: engine_reachable.step)
  show ?case
  proof (cases "tid \<in> en_completed e")
    case True
    from step.IH [OF step.prems(1) True step.prems(3)] obtain e1 io r where
      "engine_step\<^sup>*\<^sup>* e0 e1" "engine_step\<^sup>*\<^sup>* (snd (report_result io r e1)) e"
      "tr_task_id r = tid" "tr_status r = SUCCEEDED" by blast
    moreover from this(2) step(2) have "engine_step\<^sup>*\<^sup>* (snd (report_result io r e1)) e'"
      by (rule rtranclp.rtrancl_into_rtrancl)
    ultimately show ?thesis by blast
  next
    case False
    from engine_step_completed [OF step(2) engine_reachable_inv [OF reach]] False step.prems(2)
    obtain io r where "e' = snd (report_result io r e)" "tr_status r = SUCCEEDED" "tr_task_id r = tid" by auto
    with step(1) show ?thesis by blast
  qed
qed simp

text \<open>
  C10. Dependencies are honoured: when, after any run of a new scheduler, a thread polls the queue with
  the scheduler's completed tasks and gets a task, then each dependency of that task was reported
  succeeded earlier in the run.
\<close>
theorem dependency_gate:
  assumes "store_inv s" and "engine_step\<^sup>*\<^sup>* (new_engine cfg s os ws) e"
    and "reserve_poll clk order w (en_completed e) lease (en_queue e) = (Inr (Some a), q)"
    and "d \<in> ts_depends_on (te_spec (task_at e a))"
  shows "\<exists>e1 io r. engine_step\<^sup>*\<^sup>* (new_engine cfg s os ws) e1 \<and> engine_step\<^sup>*\<^sup>* (snd (report_result io r e1)) e
       \<and> tr_task_id r = d \<and> tr_status r = SUCCEEDED"
proof (rule completed_history [OF assms(2)])
  have new: "engine_reachable (new_engine cfg s os ws)" by (rule engine_reachable.new [OF assms(1)])
  show "engine_reachable (new_engine cfg s os ws)" by (rule new)
  have "engine_reachable e"
    using assms(2) new by (induction rule: rtranclp_induct) (auto intro: engine_reachable.step)
  from reserve_poll_deps [OF engine_invD(1) [OF engine_reachable_inv [OF this]] assms(3)] assms(4)
  show "d \<in> en_completed e" by (auto simp: task_at_def)
  show "d \<notin> en_completed (new_engine cfg s os ws)" by (simp add: new_engine_def)
qed

text \<open>Task 0 is polled and reported succeeded, then task 1, which depends on it, is polled.\<close>

definition demo_polled :: engine where
  "demo_polled = demo_submitted\<lparr>en_queue :=
     run_thread (ThreadPoll (\<lambda>_. 12) [''default''] demo_worker {} 30) (en_queue demo_submitted)\<rparr>"

definition demo_reported :: engine where
  "demo_reported = snd (report_result (quiet 13 demo_hex) demo_result demo_polled)"

definition demo_dependent :: engine where
  "demo_dependent = snd (submit_task (quiet 14 (\<lambda>n. demo_hex (Suc n)))
     ((default_spec ''m:g'')\<lparr>ts_depends_on := {''task-0''}\<rparr>) demo_reported)"

lemma demo_dependent_run: "engine_step\<^sup>*\<^sup>* demo_engine demo_dependent"
proof -
  have "engine_step demo_engine demo_submitted"
    unfolding demo_submitted_def by (rule engine_step.submit [OF fresh_hex_demo])
  moreover have "engine_step demo_submitted demo_polled"
    unfolding demo_polled_def by (rule engine_step.thread)
  moreover have "engine_step demo_polled demo_reported"
    unfolding demo_reported_def by (rule engine_step.report)
  moreover have "dict_get (tasks (en_queue demo_reported)) (''task-'' @ demo_hex (Suc 0)) = None" by code_simp
  then have "fresh_hex (io_hex (quiet 14 (\<lambda>n. demo_hex (Suc n))) 0) demo_reported"
    by (simp add: fresh_hex_def quiet_def)
  then have "engine_step demo_reported demo_dependent"
    unfolding demo_dependent_def by (rule engine_step.submit)
  ultimately show ?thesis by (meson r_into_rtranclp rtranclp_trans)
qed

theorem dependency_gate_witness:
  "\<exists>e1 io r. engine_step\<^sup>*\<^sup>* demo_engine e1 \<and> engine_step\<^sup>*\<^sup>* (snd (report_result io r e1)) demo_dependent
       \<and> tr_task_id r = ''task-0'' \<and> tr_status r = SUCCEEDED"
proof -
  let ?p = "reserve_poll (\<lambda>_. 20) [''default''] demo_worker (en_completed demo_dependent) 30 (en_queue demo_dependent)"
  have "fst ?p = Inr (Some 1)" by code_simp
  then obtain q where p: "?p = (Inr (Some 1), q)" by (metis prod.collapse)
  have d: "''task-0'' \<in> ts_depends_on (te_spec (task_at demo_dependent 1))" by code_simp
  show ?thesis
    using dependency_gate [OF new_store_inv _ p d, of demo_settings demo_objs "\<lambda>_. demo_worker"] demo_dependent_run
    by (simp add: demo_engine_def)
qed

section \<open>What a poll does not look at\<close>

lemma scan_queue_accepts:
  "(\<And>t. accepts w' t = accepts w t) \<Longrightarrow>
     scan_queue q w' completed queue retained cands = scan_queue q w completed queue retained cands"
proof (induction q w completed queue retained cands rule: scan_queue.induct)
  case (1 q w completed queue retained cands)
  show ?case
    by (subst (1 2) scan_queue.simps)
      (use 1 in \<open>auto simp: Let_def split: prod.split option.split\<close>)
qed

lemma scan_queues_accepts:
  assumes "\<And>t. accepts w' t = accepts w t"
  shows "scan_queues w' completed ks cands q = scan_queues w completed ks cands q"
  by (induction ks arbitrary: cands q)
    (simp_all add: Let_def scan_queue_accepts [of w' w, OF assms] split: prod.split sum.split)

text \<open>
  What a poll hands out depends on a worker only through its id, queues, labels and whether it is
  IDLE or BUSY at all: capacity, the number of running tasks, and idle versus busy make no difference.
  The scheduler gives a worker as many tasks as it polls for.
\<close>
theorem poll_ignores_load:
  assumes "wi_status w \<in> {IDLE, BUSY}" and "status \<in> {IDLE, BUSY}"
  shows "reserve_poll clk order (w\<lparr>wi_capacity := c, wi_running_tasks := n, wi_status := status\<rparr>) completed lease q
    = reserve_poll clk order w completed lease q"
proof -
  let ?w = "w\<lparr>wi_capacity := c, wi_running_tasks := n, wi_status := status\<rparr>"
  have acc: "accepts ?w t = accepts w t" for t using assms by (simp add: accepts_def)
  have "pop_eligible order ?w completed p = pop_eligible order w completed p" for p
    unfolding pop_eligible_def scan_queues_accepts [of ?w w, OF acc] ..
  moreover have "wi_worker_id ?w = wi_worker_id w" by simp
  ultimately show ?thesis by (simp only: reserve_poll_def)
qed

theorem poll_ignores_load_witness:
  "fst (reserve_poll (\<lambda>_. 20) [''default''] (demo_worker\<lparr>wi_capacity := 1, wi_running_tasks := 1, wi_status := BUSY\<rparr>)
      {} 30 demo2) = Inr (Some 1)"
proof -
  have "wi_status demo_worker \<in> {IDLE, BUSY}" by (simp add: demo_worker_def)
  then have "reserve_poll (\<lambda>_. 20) [''default''] (demo_worker\<lparr>wi_capacity := 1, wi_running_tasks := 1, wi_status := BUSY\<rparr>)
      {} 30 demo2 = reserve_poll (\<lambda>_. 20) [''default''] demo_worker {} 30 demo2"
    by (rule poll_ignores_load) simp
  moreover have "fst (reserve_poll (\<lambda>_. 20) [''default''] demo_worker {} 30 demo2) = Inr (Some 1)" by code_simp
  ultimately show ?thesis by (simp only:)
qed

end
