(* ===== verification/Engine_Fleet.thy ===== *)
theory Engine_Fleet
  imports Engine_Gate
begin

text \<open>
  Properties of the scheduler's view of its workers: the heartbeat reaper and the autoscaling
  recommendation.
\<close>

section \<open>The heartbeat reaper\<close>

text \<open>The row that the reaper leaves of a worker it gives up, with the clock reading it wrote.\<close>

definition marked_offline :: "string \<Rightarrow> clock \<Rightarrow> store \<Rightarrow> bool" where
  "marked_offline wid clk s \<longleftrightarrow> (\<exists>row n. worker_row wid s = Some row \<and> rw_status row = OFFLINE
     \<and> rw_last_heartbeat row = clk n)"

lemma marked_offlineI:
  "worker_row wid s = Some (r\<lparr>rw_status := OFFLINE, rw_last_heartbeat := clk n\<rparr>) \<Longrightarrow> marked_offline wid clk s"
  unfolding marked_offline_def by (intro exI conjI, assumption) simp_all

lemma reap_one:
  assumes fits: "worker_fits (en_wobjs e wa)" and stale: "stale now e (en_wobjs e wa)"
  defines "w \<equiv> (en_wobjs e wa)\<lparr>wi_status := OFFLINE\<rparr>"
  obtains s where "reap_workers now clk (wa # was) e = reap_workers now (later 1 clk) was
      ((upd_worker wa (\<lambda>w. w\<lparr>wi_status := OFFLINE\<rparr>) e)\<lparr>en_store := s\<rparr>)"
    and "\<And>wid. worker_row wid s = (if wid = wi_worker_id w
      then Some ((case worker_row wid (en_store e) of None \<Rightarrow> worker_row_of w
                  | Some old \<Rightarrow> merge_worker_row (worker_row_of w) old)\<lparr>rw_status := OFFLINE, rw_last_heartbeat := clk 0\<rparr>)
      else worker_row wid (en_store e))"
proof -
  let ?e = "upd_worker wa (\<lambda>w. w\<lparr>wi_status := OFFLINE\<rparr>) e"
  have w: "en_wobjs ?e wa = w" by (simp add: w_def)
  have fw: "worker_fits w" using fits by (simp add: w_def worker_fits_def)
  obtain s0 where s0: "upsert_worker w (en_store e) = (Inr (), s0)"
    using upsert_worker_ok [OF fw] by (metis prod.collapse)
  have sw: "save_worker wa ?e = (Inr (), ?e\<lparr>en_store := s0\<rparr>)" by (simp add: save_worker_def w s0 del: upd_worker_fields(7))
  let ?s = "mark_worker_offline (clk 0) (wi_worker_id w) s0"
  have "reap_workers now clk (wa # was) e = reap_workers now (later 1 clk) was (?e\<lparr>en_store := ?s\<rparr>)"
    using stale w by (simp add: sw del: later_apply)
  moreover have "worker_row wid ?s = (if wid = wi_worker_id w
      then Some ((case worker_row wid (en_store e) of None \<Rightarrow> worker_row_of w
                  | Some old \<Rightarrow> merge_worker_row (worker_row_of w) old)\<lparr>rw_status := OFFLINE, rw_last_heartbeat := clk 0\<rparr>)
      else worker_row wid (en_store e))" for wid
    using worker_row_upsert_worker [OF fw, of wid "en_store e"] s0
    by (auto simp: worker_row_mark_offline)
  ultimately show ?thesis by (rule that)
qed

lemma reap_workers_spec:
  assumes "distinct was" and "inj_on (\<lambda>wa. wi_worker_id (en_wobjs e wa)) (set was)"
    and "list_all (\<lambda>wa. worker_fits (en_wobjs e wa)) was"
  shows "\<exists>e'. reap_workers now clk was e = (Inr (), e') \<and> en_queue e' = en_queue e \<and> en_workers e' = en_workers e
    \<and> (\<forall>wa. en_wobjs e' wa = (if wa \<in> set was \<and> stale now e (en_wobjs e wa)
         then (en_wobjs e wa)\<lparr>wi_status := OFFLINE\<rparr> else en_wobjs e wa))
    \<and> (\<forall>wid. if wid \<in> (\<lambda>wa. wi_worker_id (en_wobjs e wa)) ` {wa \<in> set was. stale now e (en_wobjs e wa)}
         then marked_offline wid clk (en_store e') else worker_row wid (en_store e') = worker_row wid (en_store e))"
  using assms
proof (induction was arbitrary: e clk)
  case Nil
  then show ?case by simp
next
  case (Cons wa was)
  let ?id = "\<lambda>e wa. wi_worker_id (en_wobjs e wa)"
  show ?case
  proof (cases "stale now e (en_wobjs e wa)")
    case False
    from Cons.IH [of e clk] Cons.prems obtain e' where
      e': "reap_workers now clk was e = (Inr (), e')" "en_queue e' = en_queue e" "en_workers e' = en_workers e"
      "\<forall>wa. en_wobjs e' wa = (if wa \<in> set was \<and> stale now e (en_wobjs e wa)
         then (en_wobjs e wa)\<lparr>wi_status := OFFLINE\<rparr> else en_wobjs e wa)"
      "\<forall>wid. if wid \<in> ?id e ` {wa \<in> set was. stale now e (en_wobjs e wa)}
         then marked_offline wid clk (en_store e') else worker_row wid (en_store e') = worker_row wid (en_store e)"
      by (auto simp: inj_on_def)
    have same: "{x \<in> set (wa # was). stale now e (en_wobjs e x)} = {x \<in> set was. stale now e (en_wobjs e x)}"
      using False by auto
    show ?thesis
      unfolding same using e' False by (intro exI [where x = e'] conjI) auto
  next
    case True
    have fits: "worker_fits (en_wobjs e wa)" using Cons.prems(3) by simp
    from reap_one [OF fits True, of clk was] obtain s where
      r: "reap_workers now clk (wa # was) e = reap_workers now (later 1 clk) was
          ((upd_worker wa (\<lambda>w. w\<lparr>wi_status := OFFLINE\<rparr>) e)\<lparr>en_store := s\<rparr>)"
      and row: "\<And>wid. worker_row wid s = (if wid = wi_worker_id ((en_wobjs e wa)\<lparr>wi_status := OFFLINE\<rparr>)
        then Some ((case worker_row wid (en_store e) of None \<Rightarrow> worker_row_of ((en_wobjs e wa)\<lparr>wi_status := OFFLINE\<rparr>)
             | Some old \<Rightarrow> merge_worker_row (worker_row_of ((en_wobjs e wa)\<lparr>wi_status := OFFLINE\<rparr>)) old)
                 \<lparr>rw_status := OFFLINE, rw_last_heartbeat := clk 0\<rparr>)
        else worker_row wid (en_store e))" by blast
    have here: "marked_offline (?id e wa) clk s" by (rule marked_offlineI [where n = 0]) (simp add: row)
    have there: "worker_row wid s = worker_row wid (en_store e)" if "wid \<noteq> ?id e wa" for wid
      using row [of wid] that by simp
    define e1 where "e1 = (upd_worker wa (\<lambda>w. w\<lparr>wi_status := OFFLINE\<rparr>) e)\<lparr>en_store := s\<rparr>"
    have e1: "en_queue e1 = en_queue e" "en_workers e1 = en_workers e" "en_store e1 = s"
      "en_wobjs e1 = (en_wobjs e)(wa := (en_wobjs e wa)\<lparr>wi_status := OFFLINE\<rparr>)" "\<And>x. stale now e1 x = stale now e x"
      by (simp_all add: e1_def stale_def)
    have was: "wa \<notin> set was" "distinct was" using Cons.prems(1) by simp_all
    have other: "en_wobjs e1 x = en_wobjs e x" if "x \<in> set was" for x using that was by (auto simp: e1)
    have "inj_on (?id e1) (set was)" using Cons.prems(2) other by (auto simp: inj_on_def)
    moreover have "list_all (\<lambda>x. worker_fits (en_wobjs e1 x)) was"
      using Cons.prems(3) other by (simp add: list_all_iff)
    ultimately obtain e' where
      e': "reap_workers now (later 1 clk) was e1 = (Inr (), e')" "en_queue e' = en_queue e1" "en_workers e' = en_workers e1"
      "\<forall>x. en_wobjs e' x = (if x \<in> set was \<and> stale now e1 (en_wobjs e1 x)
         then (en_wobjs e1 x)\<lparr>wi_status := OFFLINE\<rparr> else en_wobjs e1 x)"
      "\<forall>wid. if wid \<in> ?id e1 ` {x \<in> set was. stale now e1 (en_wobjs e1 x)}
         then marked_offline wid (later 1 clk) (en_store e') else worker_row wid (en_store e') = worker_row wid (en_store e1)"
      using Cons.IH [OF was(2), of e1 "later 1 clk"] by blast
    have ids: "?id e1 ` {x \<in> set was. stale now e1 (en_wobjs e1 x)} = ?id e ` {x \<in> set was. stale now e (en_wobjs e x)}"
      using other e1(5) by (intro image_cong) auto
    have notin: "?id e wa \<notin> ?id e ` {x \<in> set was. stale now e (en_wobjs e x)}"
      using Cons.prems(2) was(1) by (auto simp: inj_on_def)
    have weaken: "marked_offline wid (later 1 clk) t \<Longrightarrow> marked_offline wid clk t" for wid t
      by (auto simp: marked_offline_def)
    have objs: "en_wobjs e' x = (if x \<in> set (wa # was) \<and> stale now e (en_wobjs e x)
         then (en_wobjs e x)\<lparr>wi_status := OFFLINE\<rparr> else en_wobjs e x)" for x
      using e'(4) e1(4,5) was True by (cases "x = wa") auto
    have rows: "if wid \<in> ?id e ` {x \<in> set (wa # was). stale now e (en_wobjs e x)}
         then marked_offline wid clk (en_store e') else worker_row wid (en_store e') = worker_row wid (en_store e)" for wid
    proof (cases "wid = ?id e wa")
      case self: True
      then have "worker_row wid (en_store e') = worker_row wid s" using e'(5) notin ids e1(3) by metis
      then show ?thesis using here True self by (auto simp: marked_offline_def)
    next
      case False
      then have "wid \<in> ?id e ` {x \<in> set (wa # was). stale now e (en_wobjs e x)}
          \<longleftrightarrow> wid \<in> ?id e ` {x \<in> set was. stale now e (en_wobjs e x)}" using True by auto
      then show ?thesis
        using spec [OF e'(5), of wid] there [OF False] weaken [of wid "en_store e'"] unfolding ids e1(3)
        by (cases "wid \<in> ?id e ` {x \<in> set was. stale now e (en_wobjs e x)}") simp_all
    qed
    have run: "reap_workers now clk (wa # was) e = (Inr (), e')" using r e'(1) by (simp only: e1_def)
    show ?thesis
      by (intro exI [where x = e'] conjI allI run objs rows) (simp_all add: e' e1)
  qed
qed

text \<open>
  C30. A pass of the heartbeat reaper marks exactly the registered workers offline that are not yet
  offline and whose last heartbeat is older than the timeout, and changes nothing else in memory.  Its
  trace in the store is different from the state it describes: the row of a worker given up shows the
  time of the pass as its last heartbeat; the rows of all other workers stay.
\<close>
theorem heartbeat_reaper_marks_stale:
  assumes "engine_reachable e" and "list_all worker_fits (workers_of e)"
  shows "\<exists>e'. heartbeat_reaper_pass clk e = (Inr (), e') \<and> en_queue e' = en_queue e \<and> en_workers e' = en_workers e
    \<and> (\<forall>wid wa. dict_get (en_workers e) wid = Some wa \<longrightarrow>
         (if wi_status (en_wobjs e wa) \<noteq> OFFLINE
             \<and> clk 0 - wi_last_heartbeat (en_wobjs e wa) > st_heartbeat_timeout_seconds (en_config e)
          then en_wobjs e' wa = (en_wobjs e wa)\<lparr>wi_status := OFFLINE\<rparr> \<and> marked_offline wid (later 1 clk) (en_store e')
          else en_wobjs e' wa = en_wobjs e wa \<and> worker_row wid (en_store e') = worker_row wid (en_store e)))"
proof -
  note w = engine_invD(5) [OF engine_reachable_inv [OF assms(1)]]
  have mem: "(wid, wa) \<in> set (en_workers e) \<longleftrightarrow> dict_get (en_workers e) wid = Some wa" for wid wa
    using w by (simp add: workers_ok_def dict_get_mem)
  have id: "wi_worker_id (en_wobjs e wa) = wid" if "(wid, wa) \<in> set (en_workers e)" for wid wa
    using that w mem by (simp add: workers_ok_def)
  have inj: "inj_on (\<lambda>wa. wi_worker_id (en_wobjs e wa)) (set (map snd (en_workers e)))"
    using id w mem by (auto simp: inj_on_def workers_ok_def)
  have "distinct (map snd (en_workers e))"
  proof -
    have "distinct (map fst (en_workers e))" using w by (simp add: workers_ok_def dict_ok_def)
    moreover have "inj_on snd (set (en_workers e))" using id by (auto simp: inj_on_def) metis
    ultimately show ?thesis by (simp add: distinct_map)
  qed
  moreover have "list_all (\<lambda>wa. worker_fits (en_wobjs e wa)) (map snd (en_workers e))"
    using assms(2) by (auto simp: workers_of_def list_all_iff)
  ultimately obtain e' where
    run: "heartbeat_reaper_pass clk e = (Inr (), e')" "en_queue e' = en_queue e" "en_workers e' = en_workers e"
    and objs: "\<forall>wa. en_wobjs e' wa = (if wa \<in> set (map snd (en_workers e)) \<and> stale (clk 0) e (en_wobjs e wa)
         then (en_wobjs e wa)\<lparr>wi_status := OFFLINE\<rparr> else en_wobjs e wa)"
    and rows: "\<forall>wid. if wid \<in> (\<lambda>wa. wi_worker_id (en_wobjs e wa)) ` {wa \<in> set (map snd (en_workers e)). stale (clk 0) e (en_wobjs e wa)}
         then marked_offline wid (later 1 clk) (en_store e') else worker_row wid (en_store e') = worker_row wid (en_store e)"
    using reap_workers_spec [OF _ inj, of "clk 0" "later 1 clk"] unfolding heartbeat_reaper_pass_def by blast
  have "if stale (clk 0) e (en_wobjs e wa)
      then en_wobjs e' wa = (en_wobjs e wa)\<lparr>wi_status := OFFLINE\<rparr> \<and> marked_offline wid (later 1 clk) (en_store e')
      else en_wobjs e' wa = en_wobjs e wa \<and> worker_row wid (en_store e') = worker_row wid (en_store e)"
    if "dict_get (en_workers e) wid = Some wa" for wid wa
  proof -
    have m: "(wid, wa) \<in> set (en_workers e)" using that mem by simp
    then have wa: "wa \<in> set (map snd (en_workers e))" by (force intro: rev_image_eqI)
    have "wid \<in> (\<lambda>wa. wi_worker_id (en_wobjs e wa)) ` {wa \<in> set (map snd (en_workers e)). stale (clk 0) e (en_wobjs e wa)}
        \<longleftrightarrow> stale (clk 0) e (en_wobjs e wa)"
      using inj_on_image_mem_iff [OF inj wa, of "{wa \<in> set (map snd (en_workers e)). stale (clk 0) e (en_wobjs e wa)}"]
        id [OF m] wa by auto
    then show ?thesis using spec [OF objs, of wa] spec [OF rows, of wid] wa
      by (cases "stale (clk 0) e (en_wobjs e wa)") simp_all
  qed
  then show ?thesis unfolding stale_def using run by blast
qed

definition demo_fleet :: engine where
  "demo_fleet = snd (register_worker (quiet 10 demo_hex) demo_worker demo_engine)"

lemma demo_fleet_reachable: "engine_reachable demo_fleet"
  unfolding demo_fleet_def by (rule engine_reachable.step [OF demo_engine_reachable engine_step.register])

text \<open>A worker registered at time 10, with a timeout of 10 seconds, looked at at time 30.\<close>

theorem heartbeat_reaper_marks_stale_witness:
  "\<exists>e'. heartbeat_reaper_pass (\<lambda>_. 30) demo_fleet = (Inr (), e') \<and> wi_status (en_wobjs e' 0) = OFFLINE
    \<and> marked_offline ''w1'' (\<lambda>_. 30) (en_store e')"
proof -
  have "list_all worker_fits (workers_of demo_fleet)" by code_simp
  moreover have "dict_get (en_workers demo_fleet) ''w1'' = Some 0" by code_simp
  moreover have "wi_status (en_wobjs demo_fleet 0) = IDLE" by code_simp
  moreover have "wi_last_heartbeat (en_wobjs demo_fleet 0) = 10" by code_simp
  moreover have "st_heartbeat_timeout_seconds (en_config demo_fleet) = 10" by code_simp
  ultimately show ?thesis
    using heartbeat_reaper_marks_stale [OF demo_fleet_reachable, of "\<lambda>_. 30"] by fastforce
qed

section \<open>Autoscaling\<close>

lemma py_trunc_div: "0 \<le> a \<Longrightarrow> 0 < b \<Longrightarrow> py_trunc (of_int a / of_int b) = a div b"
proof -
  assume "0 \<le> a" "0 < b"
  then have "\<not> (of_int a / of_int b :: real) < 0" by (simp add: divide_less_0_iff)
  then show ?thesis by (simp add: py_trunc_def floor_divide_of_int_eq)
qed

text \<open>
  The autoscaling recommendation always lies between 1 and 32 and counts the workers that are not
  offline; when their capacities are positive it is this number plus the backlog per unit of capacity,
  rounded down, within these bounds; so a fleet of at most 32 is never told to shrink.
\<close>
theorem autoscaling_bounds:
  assumes "list_all (\<lambda>w. 0 < wi_capacity w) (workers_of e)"
  shows "let (r, e') = autoscaling_recommendation now e; s = fst (snapshot now (en_queue e));
           online = filter (\<lambda>w. wi_status w \<noteq> OFFLINE) (workers_of e); n = int (length online)
    in as_current_workers r = n \<and> 1 \<le> as_desired_workers r \<and> as_desired_workers r \<le> 32
     \<and> as_desired_workers r = max 1 (min 32 ((qs_queued s + qs_delayed s) div max 1 (sum_list (map wi_capacity online)) + n))
     \<and> min 32 n \<le> as_desired_workers r \<and> as_pressure r = qs_pressure s
     \<and> tasks (en_queue e') = tasks (en_queue e) \<and> objs (en_queue e') = objs (en_queue e)"
proof -
  define online where "online = filter (\<lambda>w. wi_status w \<noteq> OFFLINE) (workers_of e)"
  define total where "total = sum_list (map wi_capacity online)"
  obtain s q where sn: "snapshot now (en_queue e) = (s, q)" by fastforce
  have pos: "\<forall>w \<in> set online. 0 < wi_capacity w" using assms by (simp add: online_def list_all_iff)
  then have "0 \<le> total" unfolding total_def by (intro sum_list_nonneg) fastforce
  then have cap: "(if total = 0 then 1 else total) = max 1 total" by auto
  have bl: "0 \<le> qs_queued s + qs_delayed s" using sn by (auto simp: snapshot_def Let_def sum_list_nonneg)
  have trunc: "py_trunc (of_int (qs_queued s + qs_delayed s) / of_int (max 1 total)) = (qs_queued s + qs_delayed s) div max 1 total"
    by (rule py_trunc_div [OF bl]) simp
  have trunc': "py_trunc (of_int (qs_queued s + qs_delayed s) / of_int (if total = 0 then 1 else total))
      = (qs_queued s + qs_delayed s) div max 1 total"
    unfolding cap by (rule trunc)
  have "0 \<le> (qs_queued s + qs_delayed s) div max 1 total" using bl by (simp add: pos_imp_zdiv_nonneg_iff)
  moreover have "workers_of (e\<lparr>en_queue := q\<rparr>) = workers_of e" by (simp add: workers_of_def)
  moreover have "tasks q = tasks (en_queue e)" "objs q = objs (en_queue e)"
    using sn by (auto simp: snapshot_def Let_def)
  moreover from calculation(2) have "autoscaling_recommendation now e = (\<lparr>as_current_workers = int (length online),
      as_desired_workers = max 1 (min 32 ((qs_queued s + qs_delayed s) div max 1 total + int (length online))),
      as_pressure = qs_pressure s\<rparr>, e\<lparr>en_queue := q\<rparr>)"
    unfolding autoscaling_recommendation_def take_snapshot_def sn prod.case Let_def
    by (simp only: trunc' flip: online_def total_def)
  ultimately show ?thesis
    using sn by (simp only: Let_def prod.case fst_conv flip: online_def total_def) simp
qed

text \<open>One worker of capacity 1, no backlog.\<close>

theorem autoscaling_bounds_witness:
  "as_desired_workers (fst (autoscaling_recommendation 20 demo_fleet)) \<le> 32
   \<and> min 32 1 \<le> as_desired_workers (fst (autoscaling_recommendation 20 demo_fleet))"
proof -
  have "list_all (\<lambda>w. 0 < wi_capacity w) (workers_of demo_fleet)" by code_simp
  moreover have "length (filter (\<lambda>w. wi_status w \<noteq> OFFLINE) (workers_of demo_fleet)) = 1" by code_simp
  ultimately show ?thesis
    using autoscaling_bounds [of demo_fleet 20] by (auto simp: Let_def split: prod.splits)
qed

end
