(* ===== verification/App.thy ===== *)
theory App
  imports Engine_Fleet Engine_Submit
begin

text \<open>
  \<open>taskrunner/api/app.py\<close> and \<open>taskrunner/monitoring/metrics.py\<close>: the HTTP endpoints, each composed with the
  scheduler's operation, and the metrics they serve.

  Routing, validation of the request bodies and JSON encoding belong to FastAPI; an endpoint is a function of
  the validated parameters.  An exception that the endpoint does not handle becomes status 500.
\<close>

section \<open>Requests and responses\<close>

datatype 'a response = Reply nat 'a | HttpError nat string | Unhandled engine_error | UnhandledStore store_error

fun status_code :: "'a response \<Rightarrow> nat" where
  "status_code (Reply n _) = n"
| "status_code (HttpError n _) = n"
| "status_code (Unhandled _) = 500"
| "status_code (UnhandledStore _) = 500"

record task_body =
  tb_target :: string
  tb_payload :: "(string, pyval) dict"
  tb_kind :: task_kind
  tb_queue :: string
  tb_priority :: int
  tb_delay_seconds :: real
  tb_max_retries :: int
  tb_retry_backoff_seconds :: real
  tb_timeout_seconds :: real
  tb_affinity :: "string set"
  tb_depends_on :: "string set"
  tb_batch_key :: "string option"

definition to_spec :: "task_body \<Rightarrow> task_spec" where
  "to_spec b = normalized \<lparr>ts_target = tb_target b, ts_payload = tb_payload b, ts_kind = tb_kind b,
     ts_queue = tb_queue b, ts_priority = tb_priority b, ts_delay_seconds = tb_delay_seconds b,
     ts_max_retries = tb_max_retries b, ts_retry_backoff_seconds = tb_retry_backoff_seconds b,
     ts_timeout_seconds = tb_timeout_seconds b, ts_affinity = tb_affinity b,
     ts_depends_on = tb_depends_on b, ts_batch_key = tb_batch_key b\<rparr>"

text \<open>\<open>except KeyError\<close>: \<open>TaskNotFoundError\<close> is a \<open>KeyError\<close>, \<open>QueueFullError\<close> is not.\<close>

definition is_key_error :: "engine_error \<Rightarrow> bool" where
  "is_key_error x = (case x of
      QueueError (TaskNotFoundError _) \<Rightarrow> True
    | QueueError (KeyError _) \<Rightarrow> True
    | _ \<Rightarrow> False)"

section \<open>Tasks\<close>

definition post_task :: "io \<Rightarrow> task_body \<Rightarrow> engine \<Rightarrow> (string, pyval) dict response \<times> engine" where
  "post_task io body e =
     (case submit_task io (to_spec body) e of
        (Inl x, e1) \<Rightarrow> (Unhandled x, e1)
      | (Inr a, e1) \<Rightarrow> (let e2 = gap io 1 e1 in (Reply 202 (envelope_to_dict (task_at e2 a)), e2)))"

definition post_batch :: "io \<Rightarrow> task_body list \<Rightarrow> engine \<Rightarrow> (string, pyval) dict list response \<times> engine" where
  "post_batch io bodies e =
     (case submit_batch io (map to_spec bodies) e of
        (Inl x, e1) \<Rightarrow> (Unhandled x, e1)
      | (Inr as, e1) \<Rightarrow>
          (let e2 = gap io (5 * length bodies) e1
           in (Reply 202 (map (\<lambda>a. envelope_to_dict (task_at e2 a)) as), e2)))"

text \<open>\<open>scan\<close> is the order in which SQLite visits the rows.\<close>

definition get_tasks :: "(task_row list \<Rightarrow> task_row list) \<Rightarrow> int option \<Rightarrow> engine \<Rightarrow> task_row list response" where
  "get_tasks scan limit e =
     (case recent_tasks scan (case limit of None \<Rightarrow> 100 | Some n \<Rightarrow> n) (en_store e) of
        Inl x \<Rightarrow> UnhandledStore x
      | Inr rows \<Rightarrow> Reply 200 rows)"

text \<open>The common part of the two mutations.\<close>

definition task_reply :: "io \<Rightarrow> (engine_error + addr) \<times> engine \<Rightarrow> (string, pyval) dict response \<times> engine" where
  "task_reply io re =
     (case re of
        (Inl x, e1) \<Rightarrow> ((if is_key_error x then HttpError 404 ''task not found'' else Unhandled x), e1)
      | (Inr a, e1) \<Rightarrow> (let e2 = gap io 1 e1 in (Reply 200 (envelope_to_dict (task_at e2 a)), e2)))"

definition post_cancel :: "io \<Rightarrow> string \<Rightarrow> engine \<Rightarrow> (string, pyval) dict response \<times> engine" where
  "post_cancel io tid e = task_reply io (cancel_task io tid e)"

text \<open>The log entry is a background task: it is written after the response, at the reading \<open>3\<close>.\<close>

definition post_retry :: "io \<Rightarrow> string \<Rightarrow> engine \<Rightarrow> (string, pyval) dict response \<times> engine" where
  "post_retry io tid e =
     (case task_reply io (retry_task io tid e) of
        (Reply n d, e1) \<Rightarrow>
          (Reply n d, e1\<lparr>en_store := append_log (io_clk io 3) tid ''INFO'' ''manual retry requested'' (en_store e1)\<rparr>)
      | (r, e1) \<Rightarrow> (r, e1))"

section \<open>Reports\<close>

definition get_workers :: "engine \<Rightarrow> (string, pyval) dict list response" where
  "get_workers e = Reply 200 (worker_dicts (en_store e))"

definition get_queues :: "seconds \<Rightarrow> engine \<Rightarrow> (string, pyval) dict response \<times> engine" where
  "get_queues now e = (let (s, e1) = take_snapshot now e in (Reply 200 (snapshot_to_dict s), e1))"

definition get_logs ::
    "(log_row list \<Rightarrow> log_row list) \<Rightarrow> string \<Rightarrow> int option \<Rightarrow> engine \<Rightarrow> log_row list response" where
  "get_logs scan entity limit e =
     (case logs scan entity (case limit of None \<Rightarrow> 200 | Some n \<Rightarrow> n) (en_store e) of
        Inl x \<Rightarrow> UnhandledStore x
      | Inr rows \<Rightarrow> Reply 200 rows)"

text \<open>\<open>MetricsAggregator\<close>: \<open>usage\<close> is what \<open>getrusage\<close> reports (memory, user and system time), if there is one.\<close>

record process_info =
  pi_host :: string
  pi_pid :: int
  pi_usage :: "(int \<times> real \<times> real) option"
  pi_started_at :: seconds

definition process_dict :: "process_info \<Rightarrow> (string, pyval) dict" where
  "process_dict p = [
     (''pid'', PInt (pi_pid p)),
     (''max_rss_kb'', case pi_usage p of None \<Rightarrow> PNone | Some (rss, u, s) \<Rightarrow> PInt rss),
     (''user_cpu_seconds'', case pi_usage p of None \<Rightarrow> PNone | Some (rss, u, s) \<Rightarrow> PFloat u),
     (''system_cpu_seconds'', case pi_usage p of None \<Rightarrow> PNone | Some (rss, u, s) \<Rightarrow> PFloat s)]"

definition autoscaling_dict :: "autoscaling \<Rightarrow> (string, pyval) dict" where
  "autoscaling_dict r = [
     (''current_workers'', PInt (as_current_workers r)),
     (''desired_workers'', PInt (as_desired_workers r)),
     (''pressure'', PFloat (as_pressure r))]"

text \<open>\<open>snapshot\<close>: it takes three snapshots of the queue, and \<open>update\<close> replaces the entry of the second one.\<close>

definition metrics_snapshot :: "process_info \<Rightarrow> clock \<Rightarrow> engine \<Rightarrow> (string, pyval) dict \<times> engine" where
  "metrics_snapshot p clk e =
     (let (queue, e1) = take_snapshot (clk 0) e;
          (m, e2) = metrics (pi_host p) (pi_pid p) (clk 1) e1;
          (scaling, e3) = autoscaling_recommendation (clk 3) e2
      in (dict_set ''autoscaling'' (PDict (autoscaling_dict scaling))
           (dict_set ''queue'' (PDict (snapshot_to_dict queue))
           (dict_set ''process'' (PDict (process_dict p))
           (dict_set ''uptime_seconds'' (PFloat (clk 2 - pi_started_at p)) m))), e3))"

definition get_metrics :: "process_info \<Rightarrow> clock \<Rightarrow> engine \<Rightarrow> (string, pyval) dict response \<times> engine" where
  "get_metrics p clk e = (let (m, e1) = metrics_snapshot p clk e in (Reply 200 m, e1))"

definition get_health :: "process_info \<Rightarrow> clock \<Rightarrow> engine \<Rightarrow> (string, pyval) dict response \<times> engine" where
  "get_health p clk e =
     (let (m, e1) = metrics_snapshot p clk e in (Reply 200 [(''status'', PStr ''ok''), (''metrics'', PDict m)], e1))"

section \<open>The event stream\<close>

text \<open>A frame of the web socket of subscriber \<open>i\<close>: the next event as a dictionary, or the keepalive.\<close>

definition open_events :: "nat \<Rightarrow> engine \<Rightarrow> engine" where
  "open_events i e = e\<lparr>en_bus := subscribe i True (en_bus e)\<rparr>"

definition next_frame :: "nat \<Rightarrow> engine \<Rightarrow> (string, pyval) dict option \<times> engine" where
  "next_frame i e = (let (ev, b) = next_event i (en_bus e) in (map_option event_to_dict ev, e\<lparr>en_bus := b\<rparr>))"

definition keepalive_frame :: "(string, pyval) dict" where
  "keepalive_frame = [(''event_type'', PStr ''system.keepalive'')]"

section \<open>What clients see\<close>

lemma spec_ok_to_spec [simp]: "spec_ok (to_spec b)"
  by (simp add: to_spec_def)

lemma save_task_error: "save_task now a res e = (Inl x, e') \<Longrightarrow> \<not> is_key_error x"
  by (auto simp: save_task_def is_key_error_def split: prod.splits sum.splits)

lemma status_task_reply:
  "status_code (fst (task_reply io (r, e))) = 404 \<longleftrightarrow> (\<exists>x. r = Inl x \<and> is_key_error x)"
  by (cases r) (simp_all add: task_reply_def Let_def)

lemma cancel_task_key_error:
  "(\<exists>x. fst (cancel_task io tid e) = Inl x \<and> is_key_error x) \<longleftrightarrow> dict_get (tasks (en_queue e)) tid = None"
proof (cases "dict_get (tasks (en_queue e)) tid")
  case None
  then show ?thesis by (simp add: cancel_task_def cancel_def is_key_error_def)
next
  case (Some a)
  then show ?thesis
    by (auto simp: cancel_task_def cancel_def dest: save_task_error split: prod.split sum.split)
qed

lemma retry_task_key_error:
  assumes "engine_inv e"
  shows "(\<exists>x. fst (retry_task io tid e) = Inl x \<and> is_key_error x) \<longleftrightarrow> dict_get (tasks (en_queue e)) tid = None"
proof (cases "dict_get (tasks (en_queue e)) tid")
  case None
  then show ?thesis
    by (simp add: retry_task_def retry_eq [OF engine_invD(1) [OF assms]] is_key_error_def)
next
  case (Some a)
  then show ?thesis
    by (auto simp: retry_task_def retry_eq [OF engine_invD(1) [OF assms]] dest: save_task_error
        split: prod.split sum.split)
qed

lemma status_post_retry: "status_code (fst (post_retry io tid e)) = status_code (fst (task_reply io (retry_task io tid e)))"
  by (auto simp: post_retry_def split: prod.split response.split)

text \<open>
  C39. The two mutations answer 404 exactly for ids that the queue does not know, and then nothing changes;
  in particular a retry that is not found leaves no log entry.
\<close>
theorem not_found_iff:
  assumes "engine_reachable e"
  shows "(status_code (fst (post_cancel io tid e)) = 404 \<longleftrightarrow> dict_get (tasks (en_queue e)) tid = None)
    \<and> (status_code (fst (post_retry io tid e)) = 404 \<longleftrightarrow> dict_get (tasks (en_queue e)) tid = None)
    \<and> (dict_get (tasks (en_queue e)) tid = None \<longrightarrow> snd (post_cancel io tid e) = e \<and> snd (post_retry io tid e) = e)"
proof (intro conjI impI)
  note inv = engine_reachable_inv [OF assms]
  obtain r1 e1 where c: "cancel_task io tid e = (r1, e1)" by fastforce
  show "status_code (fst (post_cancel io tid e)) = 404 \<longleftrightarrow> dict_get (tasks (en_queue e)) tid = None"
    using cancel_task_key_error [of io tid e] by (simp add: post_cancel_def c status_task_reply)
  obtain r2 e2 where r: "retry_task io tid e = (r2, e2)" by fastforce
  show "status_code (fst (post_retry io tid e)) = 404 \<longleftrightarrow> dict_get (tasks (en_queue e)) tid = None"
    using retry_task_key_error [OF inv, of io tid] by (simp add: status_post_retry r status_task_reply)
  assume n: "dict_get (tasks (en_queue e)) tid = None"
  then show "snd (post_cancel io tid e) = e" by (simp add: post_cancel_def cancel_task_def cancel_def task_reply_def)
  show "snd (post_retry io tid e) = e"
    using n by (simp add: post_retry_def retry_task_def retry_eq [OF engine_invD(1) [OF inv]] task_reply_def is_key_error_def)
qed

theorem not_found_iff_witness:
  "status_code (fst (post_cancel (quiet 10 demo_hex) ''task-9'' demo_submitted)) = 404
   \<and> status_code (fst (post_cancel (quiet 10 demo_hex) ''task-0'' demo_submitted)) \<noteq> 404"
proof -
  have "dict_get (tasks (en_queue demo_submitted)) ''task-9'' = None"
    "dict_get (tasks (en_queue demo_submitted)) ''task-0'' \<noteq> None" by code_simp+
  then show ?thesis using not_found_iff [OF demo_submitted_reachable] by metis
qed

end
