(* ===== verification/Worker_Props.thy ===== *)
theory Worker_Props
  imports Worker
begin

text \<open>
  The invariant of a worker node, and what its shutdown, its crashes and its shared counters amount to.
\<close>

section \<open>Slots\<close>

definition busy :: "consumer \<Rightarrow> bool" where
  "busy c = (case c of Starting _ \<Rightarrow> True | Executing _ \<Rightarrow> True | Cancelling _ \<Rightarrow> True | Reporting _ _ \<Rightarrow> True
    | _ \<Rightarrow> False)"

lemma busy_simps [simp]:
  "\<not> busy Polling" "\<not> busy Napping" "\<not> busy (Ended x)" "busy (Starting t)" "busy (Executing t)" "busy (Cancelling t)"
  "busy (Reporting t r)"
  by (simp_all add: busy_def)

lemma not_busy_loop_head [simp]: "\<not> busy (loop_head r)"
  by (simp add: loop_head_def)

lemma busy_cancelled: "busy (cancel_consumer c) = cancelling (cancel_consumer c)" "cancelling (cancel_consumer c) \<Longrightarrow> busy c"
  by (cases c; simp add: cancel_consumer_def cancelling_def)+

text \<open>The slots in \<open>_running\<close> are the busy ones, each once.\<close>

definition slots_ok :: "nat list \<Rightarrow> consumer list \<Rightarrow> bool" where
  "slots_ok run cs \<longleftrightarrow> distinct run \<and> set run = set (filter (\<lambda>i. busy (cs ! i)) [0..<length cs])"

lemma busy_update:
  "set (filter (\<lambda>j. busy (cs[i := c] ! j)) [0..<length cs])
     = (if i < length cs \<and> busy c then insert i (set (filter (\<lambda>j. busy (cs ! j)) [0..<length cs]))
        else set (filter (\<lambda>j. busy (cs ! j)) [0..<length cs]) - {i})"
  by (cases "i < length cs") (auto simp: nth_list_update split: if_splits)

lemma slots_same: "slots_ok run cs \<Longrightarrow> i < length cs \<Longrightarrow> busy c = busy (cs ! i) \<Longrightarrow> slots_ok run (cs[i := c])"
  unfolding slots_ok_def length_list_update busy_update by auto

lemma slots_leave: "slots_ok run cs \<Longrightarrow> \<not> busy c \<Longrightarrow> slots_ok (removeAll i run) (cs[i := c])"
  unfolding slots_ok_def length_list_update busy_update by (simp add: distinct_removeAll)

lemma slots_enter: "slots_ok run cs \<Longrightarrow> i < length cs \<Longrightarrow> \<not> busy (cs ! i) \<Longrightarrow> busy c \<Longrightarrow> slots_ok (i # run) (cs[i := c])"
  unfolding slots_ok_def length_list_update busy_update by simp

lemma slots_drain:
  assumes "slots_ok run cs"
  shows "slots_ok (filter (\<lambda>i. cancelling (map cancel_consumer cs ! i)) run) (map cancel_consumer cs)"
proof -
  have run: "distinct run" "set run = {i. i < length cs \<and> busy (cs ! i)}" using assms by (auto simp: slots_ok_def)
  have "set (filter (\<lambda>i. cancelling (map cancel_consumer cs ! i)) run)
      = {i. i < length cs \<and> busy (map cancel_consumer cs ! i)}"
    unfolding set_filter run(2) using busy_cancelled by auto
  then show ?thesis using run(1) by (auto simp: slots_ok_def)
qed

lemma slots_length: "slots_ok run cs \<Longrightarrow> length run = length (filter busy cs)"
proof -
  assume s: "slots_ok run cs"
  have "distinct run" using s by (simp add: slots_ok_def)
  from distinct_card [OF this] have "length run = card (set run)" by simp
  also have "set run = {i. i < length cs \<and> busy (cs ! i)}" using s by (auto simp: slots_ok_def)
  finally show ?thesis by (simp add: length_filter_conv_card)
qed

section \<open>What a step of a consumer changes\<close>

lemma publish_counters_fields [simp]:
  "wr_running (snd (publish_counters r)) = wr_running r" "wr_consumers (snd (publish_counters r)) = wr_consumers r"
  "wr_sent (snd (publish_counters r)) = wr_sent r" "wr_stop (snd (publish_counters r)) = wr_stop r"
  "wr_worker (snd (publish_counters r)) = wr_worker r" "wr_heart (snd (publish_counters r)) = wr_heart r"
  "wr_completed (snd (publish_counters r)) = wr_completed r" "wr_failed (snd (publish_counters r)) = wr_failed r"
  by (auto simp: publish_counters_def split: prod.split sum.split)

lemma count_result_fields [simp]:
  "wr_running (count_result x r) = wr_running r" "wr_consumers (count_result x r) = wr_consumers r"
  "wr_sent (count_result x r) = wr_sent r" "wr_stop (count_result x r) = wr_stop r"
  "wr_worker (count_result x r) = wr_worker r" "wr_heart (count_result x r) = wr_heart r"
  "wr_ipc (count_result x r) = wr_ipc r"
  by (simp_all add: count_result_def)

lemma set_consumer_fields [simp]:
  "wr_running (set_consumer i c r) = wr_running r" "wr_sent (set_consumer i c r) = wr_sent r"
  "wr_stop (set_consumer i c r) = wr_stop r" "wr_worker (set_consumer i c r) = wr_worker r"
  "wr_heart (set_consumer i c r) = wr_heart r" "wr_ipc (set_consumer i c r) = wr_ipc r"
  "wr_consumers (set_consumer i c r) = (wr_consumers r)[i := c]"
  "wr_completed (set_consumer i c r) = wr_completed r" "wr_failed (set_consumer i c r) = wr_failed r"
  by (simp_all add: set_consumer_def)

lemma leave_slot_fields [simp]:
  "wr_running (leave_slot i c r) = removeAll i (wr_running r)" "wr_sent (leave_slot i c r) = wr_sent r"
  "wr_stop (leave_slot i c r) = wr_stop r" "wr_worker (leave_slot i c r) = wr_worker r"
  "wr_heart (leave_slot i c r) = wr_heart r" "wr_ipc (leave_slot i c r) = wr_ipc r"
  "wr_consumers (leave_slot i c r) = (wr_consumers r)[i := c]"
  "wr_completed (leave_slot i c r) = wr_completed r" "wr_failed (leave_slot i c r) = wr_failed r"
  by (simp_all add: leave_slot_def)

text \<open>The two segments of \<open>_execute_and_report\<close>, by whether the counters could be written.\<close>

lemma begin_execution_cases:
  obtains (failed) x r1 where "begin_execution i t r = leave_slot i (Ended (Some x)) r1" "wr_consumers r1 = wr_consumers r"
      "wr_running r1 = wr_running r" "wr_sent r1 = wr_sent r" "wr_worker r1 = wr_worker r"
  | (began) r1 where "begin_execution i t r = set_consumer i (Executing t) r1" "wr_consumers r1 = wr_consumers r"
      "wr_running r1 = wr_running r" "wr_sent r1 = wr_sent r" "wr_worker r1 = wr_worker r"
proof -
  let ?r = "r\<lparr>wr_ipc := (wr_ipc r)\<lparr>ip_task_queue := ip_task_queue (wr_ipc r) @ [PDict (envelope_to_dict t)]\<rparr>\<rparr>"
  show ?thesis
    using that publish_counters_fields [of ?r]
    by (cases "publish_counters ?r"; cases "fst (publish_counters ?r)") (auto simp: begin_execution_def)
qed

lemma end_execution_cases:
  obtains c r1 where "end_execution u i t res r = leave_slot i c r1" "\<not> busy c" "wr_consumers r1 = wr_consumers r"
      "wr_running r1 = wr_running r" "wr_sent r1 = wr_sent r" "wr_worker r1 = wr_worker r"
proof (cases "copied_result u t res")
  case (Inl x)
  show ?thesis by (rule that [of "Ended (Some x)" r]) (simp_all add: end_execution_def Inl)
next
  case (Inr d)
  let ?r = "count_result res (r\<lparr>wr_ipc := (wr_ipc r)\<lparr>ip_result_queue := ip_result_queue (wr_ipc r) @ [d]\<rparr>\<rparr>)"
  show ?thesis
    using that publish_counters_fields [of ?r] Inr
    by (cases "publish_counters ?r"; cases "fst (publish_counters ?r)") (auto simp: end_execution_def)
qed


text \<open>The steps of a consumer: an event it does not wait for changes nothing.\<close>

lemma consume_at_cases:
  obtains (idle) "consume_at u i c ev r = r"
  | (failed) x where "c = Polling" "consume_at u i c ev r = set_consumer i (Ended (Some x)) r"
  | (nothing) "c = Polling" "consume_at u i c ev r = set_consumer i Napping r"
  | (got) t where "c = Polling" "ev = Polled (Inr (Some t))"
      "consume_at u i c ev r = set_consumer i (Starting t) (r\<lparr>wr_running := i # wr_running r\<rparr>)"
  | (woke) "c = Napping" "consume_at u i c ev r = set_consumer i (loop_head r) r"
  | (began) t where "c = Starting t" "consume_at u i c ev r = begin_execution i t r"
  | (raised) t x where "c = Executing t \<or> c = Cancelling t" "consume_at u i c ev r = leave_slot i (Ended (Some x)) r"
  | (returned) t res where "c = Executing t \<or> c = Cancelling t"
      "consume_at u i c ev r = set_consumer i (Reporting t res) (r\<lparr>wr_sent := wr_sent r @ [res]\<rparr>)"
  | (refused) t res x where "c = Reporting t res" "consume_at u i c ev r = leave_slot i (Ended (Some x)) r"
  | (accepted) t res where "c = Reporting t res" "consume_at u i c ev r = end_execution u i t res r"
proof (cases c)
  case Polling
  show ?thesis
  proof (cases ev)
    case (Polled ans)
    then show ?thesis
    proof (cases ans)
      case (Inr b)
      then show ?thesis using Polling Polled by (cases b) (simp_all add: that(3,4))
    qed (use Polling in \<open>simp add: that(2)\<close>)
  qed (use Polling in \<open>simp_all add: that(1)\<close>)
next
  case Napping
  then show ?thesis using that(1,5) by (cases ev) simp_all
next
  case (Starting t)
  then show ?thesis using that(1,6) by (cases ev) simp_all
next
  case (Executing t)
  show ?thesis
  proof (cases ev)
    case (Executed clk took)
    then show ?thesis using Executing that(7,8)
      by (cases "execute u clk took None t (wi_worker_id (wr_worker r))") simp_all
  qed (use Executing in \<open>simp_all add: that(1)\<close>)
next
  case (Cancelling t)
  show ?thesis
  proof (cases ev)
    case (Executed clk took)
    then show ?thesis using Cancelling that(7,8)
      by (cases "execute_cancelled u clk t (wi_worker_id (wr_worker r))") simp_all
  qed (use Cancelling in \<open>simp_all add: that(1)\<close>)
next
  case (Reporting t res)
  show ?thesis
  proof (cases ev)
    case (Reported x)
    then show ?thesis using Reporting that(9,10) by (cases x) simp_all
  qed (use Reporting in \<open>simp_all add: that(1)\<close>)
next
  case (Ended x)
  then show ?thesis by (simp add: that(1))
qed

lemma consume_at_slots:
  assumes "slots_ok (wr_running r) (wr_consumers r)" "i < length (wr_consumers r)" "wr_consumers r ! i = c"
  shows "slots_ok (wr_running (consume_at u i c ev r)) (wr_consumers (consume_at u i c ev r))
    \<and> length (wr_consumers (consume_at u i c ev r)) = length (wr_consumers r) \<and> wr_worker (consume_at u i c ev r) = wr_worker r"
proof (cases rule: consume_at_cases [of u i c ev r])
  case (began t)
  then show ?thesis
    using assms by (cases rule: begin_execution_cases [of i t r]) (auto intro: slots_same slots_leave)
next
  case (accepted t res)
  then show ?thesis using assms by (cases rule: end_execution_cases [of u i t res r]) (auto intro: slots_leave)
qed (use assms in \<open>auto intro: slots_same slots_leave slots_enter\<close>)

definition runtime_ok :: "worker_runtime \<Rightarrow> bool" where
  "runtime_ok r \<longleftrightarrow> slots_ok (wr_running r) (wr_consumers r)
     \<and> length (wr_consumers r) = nat (wi_capacity (wr_worker r))"

lemma runtime_ok_step: "runtime_step u r r' \<Longrightarrow> runtime_ok r \<Longrightarrow> runtime_ok r'"
proof (induction rule: runtime_step.induct)
  case (consumer r i ev)
  then show ?case using consume_at_slots [of r i "wr_consumers r ! i" u ev] by (auto simp: runtime_ok_def consume_def)
qed (simp_all add: runtime_ok_def beat_def request_shutdown_def begin_drain_def Let_def slots_drain)

lemma runtime_ok_start:
  "runtime_ok (snd (start_run (Inr ()) (new_runtime nd cfg wid queues labels capacity)))"
  by (simp add: start_run_def new_runtime_def runtime_ok_def slots_ok_def loop_head_def Let_def)

lemma runtime_reachable_ok: "runtime_reachable u r \<Longrightarrow> runtime_ok r"
  by (induction rule: runtime_reachable.induct) (simp_all only: runtime_ok_start runtime_ok_step)

text \<open>
  C22. In every reachable state of a worker node there are as many consumers as its capacity says, the
  executions it counts as running are those of the busy consumers, each once, so there are never more
  than the capacity, and the heartbeat reports exactly their number.
\<close>
theorem worker_slots:
  assumes "runtime_reachable u r"
  shows "length (wr_consumers r) = nat (wi_capacity (wr_worker r))
    \<and> snd (beat_request r) = int (length (filter busy (wr_consumers r)))
    \<and> snd (beat_request r) \<le> max 0 (wi_capacity (wr_worker r))"
proof -
  have ok: "slots_ok (wr_running r) (wr_consumers r)" "length (wr_consumers r) = nat (wi_capacity (wr_worker r))"
    using runtime_reachable_ok [OF assms] by (simp_all add: runtime_ok_def)
  show ?thesis
    using ok(2) slots_length [OF ok(1)] length_filter_le [of busy "wr_consumers r"] by (simp add: beat_request_def)
qed


text \<open>A node with one slot that has polled a task.\<close>

definition demo_node :: node where
  "demo_node = \<lparr>nd_hex = ''abc'', nd_host = ''h'', nd_pid = 7, nd_cpus = 2, nd_windows = False, nd_clk = (\<lambda>_. 0)\<rparr>"

definition demo_idle :: worker_runtime where
  "demo_idle = snd (start_run (Inr ()) (new_runtime demo_node (default_settings (Some 2)) None None None (Some 1)))"

definition demo_job :: task_envelope where
  "demo_job = new_envelope ''x'' (\<lambda>_. 0) (default_spec ''jobs.py:run'')"

definition demo_busy :: worker_runtime where
  "demo_busy = consume demo_code 0 Began (consume demo_code 0 (Polled (Inr (Some demo_job))) demo_idle)"

lemma demo_idle_reachable: "runtime_reachable u demo_idle"
  unfolding demo_idle_def by (rule runtime_reachable.start)

lemma demo_busy_reachable: "runtime_reachable demo_code demo_busy"
  unfolding demo_busy_def
  by (intro runtime_reachable.step [OF _ runtime_step.consumer] demo_idle_reachable)

lemma demo_busy_slot: "wr_consumers demo_busy = [Executing demo_job]"
  by code_simp

theorem worker_slots_witness:
  "snd (beat_request demo_busy) = 1 \<and> length (wr_consumers demo_busy) = nat (wi_capacity (wr_worker demo_busy))"
  using worker_slots [OF demo_busy_reachable] demo_busy_slot by simp

section \<open>Ended consumers stay ended\<close>

lemma consume_at_other:
  "\<exists>c'. wr_consumers (consume_at u i c ev r) = (wr_consumers r)[i := c'] \<or> wr_consumers (consume_at u i c ev r) = wr_consumers r"
proof (cases rule: consume_at_cases [of u i c ev r])
  case (began t)
  then show ?thesis by (cases rule: begin_execution_cases [of i t r]) auto
next
  case (accepted t res)
  then show ?thesis by (cases rule: end_execution_cases [of u i t res r]) auto
qed auto

lemma consume_at_ended [simp]: "consume_at u i (Ended x) ev r = r"
  by simp

lemma ended_step:
  assumes "runtime_step u r r'" "i < length (wr_consumers r)" "wr_consumers r ! i = Ended x"
  shows "i < length (wr_consumers r') \<and> wr_consumers r' ! i = Ended x"
  using assms
proof (cases rule: runtime_stepE)
  case (consumer j ev)
  show ?thesis
  proof (cases "j = i")
    case True
    then show ?thesis using consumer assms by (simp add: consume_def)
  next
    case False
    obtain c' where "wr_consumers (consume u j ev r) = (wr_consumers r)[j := c'] \<or> wr_consumers (consume u j ev r) = wr_consumers r"
      using consume_at_other [of u j "wr_consumers r ! j" ev r] unfolding consume_def by (metis (full_types))
    then show ?thesis using False consumer(1) assms(2,3) by auto
  qed
qed (use assms in \<open>auto simp: beat_def request_shutdown_def begin_drain_def cancel_consumer_def Let_def\<close>)

lemma ended_steps:
  "(runtime_step u)\<^sup>*\<^sup>* r r' \<Longrightarrow> i < length (wr_consumers r) \<Longrightarrow> wr_consumers r ! i = Ended x \<Longrightarrow>
     i < length (wr_consumers r') \<and> wr_consumers r' ! i = Ended x"
  by (induction rule: rtranclp_induct) (auto dest: ended_step)

section \<open>Shutting down\<close>

text \<open>The task whose body a consumer waits for.\<close>

definition in_body :: "consumer \<Rightarrow> task_envelope option" where
  "in_body c = (case c of Executing t \<Rightarrow> Some t | Cancelling t \<Rightarrow> Some t | _ \<Rightarrow> None)"

lemma in_body_simps [simp]:
  "in_body Polling = None" "in_body Napping = None" "in_body (Starting t) = None" "in_body (Ended x) = None"
  "in_body (Reporting t res) = None" "in_body (Executing t) = Some t" "in_body (Cancelling t) = Some t"
  by (simp_all add: in_body_def)










text \<open>A job whose coroutine lets the cancellation through, in a node that is told to stop.\<close>

definition demo_coroutine :: task_envelope where
  "demo_coroutine = new_envelope ''y'' (\<lambda>_. 0) ((default_spec ''jobs.py:run'')\<lparr>ts_kind := ASYNC\<rparr>)"

definition demo_awaiting :: worker_runtime where
  "demo_awaiting = consume demo_code 0 Began (consume demo_code 0 (Polled (Inr (Some demo_coroutine))) demo_idle)"


section \<open>Failing calls\<close>

lemma await_consumers_failed:
  "i < length cs \<Longrightarrow> cs ! i = Ended (Some x) \<Longrightarrow> x \<noteq> CancelledError \<Longrightarrow>
     await_consumers cs \<noteq> Some (Inr ()) \<and> (list_all ended cs \<longrightarrow> (\<exists>y. await_consumers cs = Some (Inl y)))"
proof (induction cs arbitrary: i)
  case (Cons c cs)
  show ?case
  proof (cases i)
    case 0
    then show ?thesis using Cons.prems by (cases x) (auto simp: await_suppressed_def)
  next
    case (Suc j)
    then show ?thesis using Cons.IH [of j] Cons.prems by (cases c) (auto simp: ended_def split: sum.split)
  qed
qed simp

text \<open>
  C35. One failed call costs a slot for good: when \<open>reserve\<close> or \<open>report_result\<close> raises, the consumer of that
  slot ends, and no later event starts it again; the heartbeat of the node goes on.  When the node is shut
  down then, its \<open>finally\<close> block never comes through: once the heartbeat and the consumers have ended an exception
  comes out of it before the executor and the channels are closed.
\<close>
theorem failed_call_kills_slot:
  assumes "i < length (wr_consumers r)" and "x \<noteq> CancelledError"
    and "wr_consumers r ! i = Polling \<and> ev = Polled (Inl x)
      \<or> (\<exists>t res. wr_consumers r ! i = Reporting t res) \<and> ev = Reported (Inl x)"
    and "(runtime_step u)\<^sup>*\<^sup>* (consume u i ev r) r'"
  shows "wr_consumers r' ! i = Ended (Some x)
    \<and> wr_heart (consume u i ev r) = wr_heart r
    \<and> (\<forall>h. wr_heart r' = HeartEnded h \<and> list_all ended (wr_consumers r') \<longrightarrow>
         (\<exists>y. finish_run nt files r' = Some (Inl y, files, r')))
    \<and> (\<forall>end. finish_run nt files r' = Some end \<longrightarrow> (\<exists>y. end = (Inl y, files, r')))"
proof -
  have "wr_consumers (consume u i ev r) ! i = Ended (Some x)" "length (wr_consumers (consume u i ev r)) = length (wr_consumers r)"
    "wr_heart (consume u i ev r) = wr_heart r"
    using assms(1,3) by (auto simp: consume_def)
  moreover from this assms(1) have "i < length (wr_consumers r') \<and> wr_consumers r' ! i = Ended (Some x)"
    using ended_steps [OF assms(4), of i] by simp
  moreover from this have "await_consumers (wr_consumers r') \<noteq> Some (Inr ())
      \<and> (list_all ended (wr_consumers r') \<longrightarrow> (\<exists>y. await_consumers (wr_consumers r') = Some (Inl y)))"
    using await_consumers_failed [OF _ _ assms(2)] by blast
  then have "(list_all ended (wr_consumers r') \<and> wr_heart r' = HeartEnded h \<longrightarrow> (\<exists>y. finish_run nt files r' = Some (Inl y, files, r')))
      \<and> (finish_run nt files r' = Some z \<longrightarrow> (\<exists>y. z = (Inl y, files, r')))" for h z
    by (auto simp: finish_run_def await_tasks_def split: heart.splits sum.splits option.splits)
  ultimately show ?thesis by blast
qed

theorem failed_call_kills_slot_witness:
  "wr_consumers (consume demo_code 0 (Polled (Inl (Exc ''AioRpcError'' ''unavailable''))) demo_idle) ! 0
     = Ended (Some (Exc ''AioRpcError'' ''unavailable''))"
proof (rule failed_call_kills_slot [THEN conjunct1, OF _ _ _ rtranclp.rtrancl_refl])
  have "wr_consumers demo_idle = [Polling]" by code_simp
  then show "0 < length (wr_consumers demo_idle)"
    "wr_consumers demo_idle ! 0 = Polling
       \<and> Polled (Inl (Exc ''AioRpcError'' ''unavailable'')) = Polled (Inl (Exc ''AioRpcError'' ''unavailable''))
     \<or> (\<exists>t res. wr_consumers demo_idle ! 0 = Reporting t res)
       \<and> Polled (Inl (Exc ''AioRpcError'' ''unavailable'')) = Reported (Inl (Exc ''AioRpcError'' ''unavailable''))"
    by simp_all
qed simp

text \<open>
  A coroutine function run as kind \<open>io\<close> or \<open>scheduled\<close> costs its worker a slot too: its execution is reported as
  a success, but once the scheduler has accepted the report the result cannot be copied for the result queue, so the
  consumer ends with a \<open>TypeError\<close> for good, the task is counted neither as completed nor as failed, and
  the shutdown of the node raises before the executor and the channels are closed.
\<close>
theorem unawaited_coroutine_kills_slot:
  assumes "i < length (wr_consumers r)" and "wr_consumers r ! i = Executing t" and "unawaited u t"
    and "took \<le> ts_timeout_seconds (te_spec t)"
    and "(runtime_step u)\<^sup>*\<^sup>* (consume u i (Reported (Inr ())) (consume u i (Executed clk took) r)) r'"
  shows "(\<exists>res. wr_sent (consume u i (Executed clk took) r) = wr_sent r @ [res]
      \<and> tr_task_id res = te_task_id t \<and> tr_status res = SUCCEEDED)
    \<and> (\<exists>text. wr_consumers r' ! i = Ended (Some (Exc ''TypeError'' text)))
    \<and> wr_completed (consume u i (Reported (Inr ())) (consume u i (Executed clk took) r)) = wr_completed r
    \<and> wr_failed (consume u i (Reported (Inr ())) (consume u i (Executed clk took) r)) = wr_failed r
    \<and> (\<forall>end. finish_run nt files r' = Some end \<longrightarrow> (\<exists>y. end = (Inl y, files, r')))"
proof -
  obtain ending reaction where b: "run_sync_target u (ts_target (te_spec t)) (ts_payload (te_spec t)) = Inr (Awaitable ending reaction)"
    using assms(3) by (auto simp: unawaited_def split: sum.splits returned.splits)
  have "execute_by_kind u t = Inr (PStr (us_coroutine u))"
    using assms(3) b by (auto simp: unawaited_def execute_by_kind_def plain_def Let_def)
  then obtain res where res: "execute u clk took None t (wi_worker_id (wr_worker r)) = Inr res"
    "tr_task_id res = te_task_id t" "tr_status res = SUCCEEDED"
    using assms(4) by (auto simp: execute_def as_result_def wait_for_def)
  define r1 where "r1 = set_consumer i (Reporting t res) (r\<lparr>wr_sent := wr_sent r @ [res]\<rparr>)"
  have r1: "consume u i (Executed clk took) r = r1" using assms(1,2) res by (simp add: consume_def r1_def)
  define x where "x = Exc ''TypeError'' (''cannot pickle '' @ squoted ''coroutine'' @ '' object'')"
  have "copied_result u t res = Inl x" using res assms(3) by (simp add: copied_result_def x_def)
  then have r2: "consume u i (Reported (Inr ())) r1 = leave_slot i (Ended (Some x)) r1"
    using assms(1) by (simp add: consume_def r1_def end_execution_def)
  have i: "i < length (wr_consumers r') \<and> wr_consumers r' ! i = Ended (Some x)"
    using ended_steps [OF assms(5) [unfolded r1 r2], of i] assms(1) by (simp add: r1_def)
  then have "await_consumers (wr_consumers r') \<noteq> Some (Inr ())"
    using await_consumers_failed [of i "wr_consumers r'" x] by (simp add: x_def)
  then have "finish_run nt files r' = Some z \<longrightarrow> (\<exists>y. z = (Inl y, files, r'))" for z
    by (auto simp: finish_run_def await_tasks_def split: heart.splits sum.splits option.splits)
  then show ?thesis using i res by (auto simp: r1 r2 x_def) (simp_all add: r1_def)
qed

theorem unawaited_coroutine_kills_slot_witness:
  "\<exists>text. wr_consumers (consume demo_code 0 (Reported (Inr ())) (consume demo_code 0 (Executed (\<lambda>_. 1) 0) demo_busy)) ! 0
     = Ended (Some (Exc ''TypeError'' text))"
proof (rule unawaited_coroutine_kills_slot [THEN conjunct2, THEN conjunct1, OF _ _ _ _ rtranclp.rtrancl_refl])
  show "0 < length (wr_consumers demo_busy)" "wr_consumers demo_busy ! 0 = Executing demo_job" by (simp_all add: demo_busy_slot)
  show "unawaited demo_code demo_job" by code_simp
  show "0 \<le> ts_timeout_seconds (te_spec demo_job)" by code_simp
qed

section \<open>The shared counters\<close>

lemma read_counters_queues [simp]:
  "read_shared_counters (s\<lparr>ip_task_queue := q\<rparr>) = read_shared_counters s"
  "read_shared_counters (s\<lparr>ip_result_queue := q\<rparr>) = read_shared_counters s"
  by (simp_all add: read_shared_counters_def)

lemma write_counters_queues [simp]:
  "ip_task_queue (snd (write_shared_counters a b c s)) = ip_task_queue s"
  by (auto simp: write_shared_counters_def split: sum.split)

text \<open>Publishing while something runs leaves a running counter of at least one, if it succeeds or had one.\<close>

lemma publish_counters_running:
  assumes "wr_running r \<noteq> []" "publish_counters r = (x, r')"
  shows "ip_task_queue (wr_ipc r') = ip_task_queue (wr_ipc r)"
    and "if x = Inr () then 1 \<le> fst (read_shared_counters (wr_ipc r'))
      else read_shared_counters (wr_ipc r') = read_shared_counters (wr_ipc r)"
    and "u64 (int (length (wr_running r))) \<Longrightarrow> u64 (wr_completed r) \<Longrightarrow> u64 (wr_failed r) \<Longrightarrow> x = Inr ()"
proof -
  let ?n = "int (length (wr_running r))"
  have n: "1 \<le> ?n" using assms(1) by (cases "wr_running r") simp_all
  obtain y s where w: "write_shared_counters ?n (wr_completed r) (wr_failed r) (wr_ipc r) = (y, s)" by fastforce
  have "ip_task_queue s = ip_task_queue (wr_ipc r)" using w write_counters_queues by (metis snd_conv)
  then show "ip_task_queue (wr_ipc r') = ip_task_queue (wr_ipc r)"
    using assms(2) w by (auto simp: publish_counters_def split: sum.splits)
  show "if x = Inr () then 1 \<le> fst (read_shared_counters (wr_ipc r'))
      else read_shared_counters (wr_ipc r') = read_shared_counters (wr_ipc r)"
    and "u64 ?n \<Longrightarrow> u64 (wr_completed r) \<Longrightarrow> u64 (wr_failed r) \<Longrightarrow> x = Inr ()"
    using assms(2) n write_u64 [of ?n "wr_completed r" "wr_failed r" "wr_ipc r"]
      write_not_u64 [of ?n "wr_completed r" "wr_failed r" "wr_ipc r"]
    by (cases "u64 ?n \<and> u64 (wr_completed r) \<and> u64 (wr_failed r)";
        auto simp: publish_counters_def split: prod.splits sum.splits)+
qed

definition launched :: "consumer \<Rightarrow> bool" where
  "launched c = (case c of Executing _ \<Rightarrow> True | Cancelling _ \<Rightarrow> True | Reporting _ _ \<Rightarrow> True
    | _ \<Rightarrow> False)"

lemma launched_simps [simp]:
  "\<not> launched Polling" "\<not> launched Napping" "\<not> launched (Ended x)" "\<not> launched (Starting t)"
  "launched (Executing t)" "launched (Cancelling t)" "launched (Reporting t r)" "\<not> launched (loop_head w)"
  by (simp_all add: launched_def loop_head_def)

definition counters_ok :: "worker_runtime \<Rightarrow> bool" where
  "counters_ok r \<longleftrightarrow>
     (if ip_task_queue (wr_ipc r) = []
      then wr_completed r = 0 \<and> wr_failed r = 0 \<and> list_all (\<lambda>c. \<not> launched c) (wr_consumers r)
      else 1 \<le> fst (read_shared_counters (wr_ipc r)))"

lemma list_all_update: "list_all P xs \<Longrightarrow> P x \<Longrightarrow> list_all P (xs[i := x])"
  by (auto simp: list_all_iff dest: set_update_subset_insert [THEN subsetD])

lemma counters_ok_fields [simp]:
  "counters_ok (r\<lparr>wr_running := x\<rparr>) = counters_ok r" "counters_ok (r\<lparr>wr_sent := y\<rparr>) = counters_ok r"
  by (simp_all add: counters_ok_def)

lemma counters_ok_set_consumer [intro]:
  "counters_ok r \<Longrightarrow> launched c \<longrightarrow> ip_task_queue (wr_ipc r) \<noteq> [] \<Longrightarrow> counters_ok (set_consumer i c r)"
  by (auto simp: counters_ok_def intro!: list_all_update)

lemma counters_ok_leave_slot [intro]:
  "counters_ok r \<Longrightarrow> \<not> launched c \<Longrightarrow> counters_ok (leave_slot i c r)"
  by (auto simp: counters_ok_def intro!: list_all_update)

lemma begin_execution_counters:
  assumes "counters_ok r" "wr_running r \<noteq> []" "u64 (int (length (wr_running r)))"
  shows "counters_ok (begin_execution i t r)"
proof -
  let ?r = "r\<lparr>wr_ipc := (wr_ipc r)\<lparr>ip_task_queue := ip_task_queue (wr_ipc r) @ [PDict (envelope_to_dict t)]\<rparr>\<rparr>"
  obtain x r1 where p: "publish_counters ?r = (x, r1)" by fastforce
  note pc = publish_counters_running [OF _ p]
  have "1 \<le> fst (read_shared_counters (wr_ipc r1))"
  proof (cases "ip_task_queue (wr_ipc r) = []")
    case True
    then have "x = Inr ()" using pc(3) assms by (simp add: counters_ok_def u64_def)
    then show ?thesis using pc(2) assms(2) by simp
  next
    case False
    then show ?thesis using pc(2) assms(1,2) by (auto simp: counters_ok_def split: if_splits)
  qed
  moreover have "ip_task_queue (wr_ipc r1) \<noteq> []" using pc(1) assms(2) by simp
  ultimately show ?thesis using p by (auto simp: begin_execution_def counters_ok_def split: sum.split)
qed

lemma end_execution_counters:
  assumes "counters_ok r" "wr_running r \<noteq> []" "ip_task_queue (wr_ipc r) \<noteq> []"
  shows "counters_ok (end_execution u i t res r)"
proof (cases "copied_result u t res")
  case (Inl x)
  then show ?thesis using assms(1) by (auto simp: end_execution_def)
next
  case (Inr d)
  let ?r = "count_result res (r\<lparr>wr_ipc := (wr_ipc r)\<lparr>ip_result_queue := ip_result_queue (wr_ipc r) @ [d]\<rparr>\<rparr>)"
  obtain x r1 where p: "publish_counters ?r = (x, r1)" by fastforce
  note pc = publish_counters_running [OF _ p]
  have "1 \<le> fst (read_shared_counters (wr_ipc r1))"
    using pc(2) assms by (auto simp: counters_ok_def split: if_splits)
  moreover have "ip_task_queue (wr_ipc r1) \<noteq> []" using pc(1) assms(2,3) by simp
  ultimately show ?thesis using p Inr by (auto simp: end_execution_def counters_ok_def split: sum.split)
qed

lemma consume_at_counters_if:
  assumes "counters_ok r" "busy c \<longrightarrow> wr_running r \<noteq> []" "u64 (int (length (wr_running r)))"
    "launched c \<longrightarrow> ip_task_queue (wr_ipc r) \<noteq> []"
  shows "counters_ok (consume_at u i c ev r)"
proof (cases rule: consume_at_cases [of u i c ev r])
  case (began t)
  then show ?thesis using assms begin_execution_counters by simp
next
  case (accepted t res)
  then show ?thesis using assms end_execution_counters by simp
qed (use assms in \<open>auto simp: counters_ok_set_consumer counters_ok_leave_slot\<close>)

lemma consume_at_counters:
  assumes "counters_ok r" "slots_ok (wr_running r) (wr_consumers r)" "u64 (int (length (wr_consumers r)))"
    "i < length (wr_consumers r)" "wr_consumers r ! i = c"
  shows "counters_ok (consume_at u i c ev r)"
proof (rule consume_at_counters_if [OF assms(1)])
  show "busy c \<longrightarrow> wr_running r \<noteq> []"
  proof
    assume "busy c"
    then have "i \<in> set (filter (\<lambda>i. busy (wr_consumers r ! i)) [0..<length (wr_consumers r)])"
      using assms(4,5) by simp
    then have "i \<in> set (wr_running r)" using assms(2) unfolding slots_ok_def by metis
    then show "wr_running r \<noteq> []" by auto
  qed
  show "u64 (int (length (wr_running r)))"
    using slots_length [OF assms(2)] le_less_trans [OF length_filter_le, of "wr_consumers r" "2 ^ 64" busy] assms(3)
    by (simp add: u64_def)
  show "launched c \<longrightarrow> ip_task_queue (wr_ipc r) \<noteq> []"
    using assms(1,4,5) by (auto simp: counters_ok_def list_all_length split: if_splits)
qed

lemma capacity_step: "runtime_step u r r' \<Longrightarrow> runtime_ok r \<Longrightarrow> wi_capacity (wr_worker r') = wi_capacity (wr_worker r)"
proof (induction rule: runtime_step.induct)
  case (consumer r i ev)
  then show ?case using consume_at_slots [of r i "wr_consumers r ! i" u ev] by (auto simp: runtime_ok_def consume_def)
qed (simp_all add: beat_def request_shutdown_def begin_drain_def Let_def)

lemma counters_ok_reachable:
  "runtime_reachable u r \<Longrightarrow> wi_capacity (wr_worker r) < 2 ^ 64 \<Longrightarrow> counters_ok r"
proof (induction rule: runtime_reachable.induct)
  case (start nd cfg wid queues labels capacity)
  show ?case by (simp add: start_run_def new_runtime_def counters_ok_def new_ipc_def list_all_iff Let_def)
next
  case (step r r')
  have ok: "runtime_ok r" by (rule runtime_reachable_ok [OF step.hyps(1)])
  then have c: "counters_ok r" "u64 (int (length (wr_consumers r)))"
    using step.IH step.prems capacity_step [OF step.hyps(2) ok] by (simp_all add: runtime_ok_def u64_def)
  from step.hyps(2) show ?case
  proof (cases rule: runtime_stepE)
    case (consumer i ev)
    then show ?thesis using consume_at_counters [OF c(1) _ c(2)] ok c(1) by (simp add: consume_def runtime_ok_def)
  next
    case drain
    have "launched (cancel_consumer x) \<longrightarrow> launched x" for x by (cases x) (simp_all add: cancel_consumer_def)
    then show ?thesis using drain c(1) unfolding counters_ok_def begin_drain_def list_all_iff Let_def
      by (cases "ip_task_queue (wr_ipc r) = []") auto
  qed (use c(1) in \<open>simp_all add: counters_ok_def beat_def request_shutdown_def\<close>)
qed

text \<open>
  The running counter in shared memory never returns to zero: from the first task that a node starts
  on it shows at least one running task, in every reachable state, even when nothing runs, because an
  execution writes the counters while it still counts itself.
\<close>
theorem running_counter_stale:
  assumes "runtime_reachable u r" and "wi_capacity (wr_worker r) < 2 ^ 64" and "ip_task_queue (wr_ipc r) \<noteq> []"
  shows "1 \<le> fst (read_shared_counters (wr_ipc r))"
  using counters_ok_reachable [OF assms(1,2)] assms(3) by (simp add: counters_ok_def)

text \<open>After its only task has been executed and reported, the node is idle and shows one running task.\<close>

definition demo_done :: worker_runtime where
  "demo_done = consume demo_code 0 (Reported (Inr ())) (consume demo_code 0 (Executed (\<lambda>_. 1) 0) demo_awaiting)"

theorem running_counter_stale_witness:
  "wr_running demo_done = [] \<and> wr_failed demo_done = 1 \<and> 1 \<le> fst (read_shared_counters (wr_ipc demo_done))"
proof -
  have "runtime_reachable demo_code demo_done"
    unfolding demo_done_def demo_awaiting_def
    by (intro runtime_reachable.step [OF _ runtime_step.consumer] demo_idle_reachable)
  moreover have "wi_capacity (wr_worker demo_done) = 1" "length (ip_task_queue (wr_ipc demo_done)) = 1"
    "wr_running demo_done = []" "wr_failed demo_done = 1" by code_simp+
  ultimately show ?thesis using running_counter_stale [of demo_code demo_done] by fastforce
qed

end
