(* ===== verification/Cluster.thy ===== *)
theory Cluster
  imports Cli App Worker_Props
begin

text \<open>
  The parts together: a worker's consumer that polls the scheduler through client and service.
\<close>

section \<open>Reserving over the wire\<close>

text \<open>How a failed call reaches the consumer.\<close>

definition raised :: "rpc_error \<Rightarrow> exn" where
  "raised x = Exc (case x of NotConnected \<Rightarrow> ''RuntimeError'' | _ \<Rightarrow> ''AioRpcError'') []"

definition polled :: "rpc_error + task_envelope option \<Rightarrow> consumer_event" where
  "polled r = Polled (case r of Inl x \<Rightarrow> Inl (raised x) | Inr t \<Rightarrow> Inr t)"

lemma reserve_poll_running:
  "reserve_poll clk order w completed lease q = (Inr (Some a), q') \<Longrightarrow>
     te_status (objs q' a) = RUNNING \<and> dict_get (inflight q') (te_task_id (objs q' a)) = Some a"
  by (auto simp: reserve_poll_def Let_def upd_obj_def split: prod.splits sum.splits option.splits)

lemma reserve_loop_running:
  "reserve_loop live lease timeout deadline turns q = (Some (Inr (Some a)), q') \<Longrightarrow>
     te_status (objs q' a) = RUNNING \<and> dict_get (inflight q') (te_task_id (objs q' a)) = Some a"
  by (induction live lease timeout deadline turns q rule: reserve_loop.induct)
    (auto split: prod.splits sum.splits option.splits if_splits dest: reserve_poll_running)

lemma reserve_finish_queue:
  assumes "io_threads io = (\<lambda>_. [])"
  shows "en_queue (snd (reserve_finish io wid wa a e)) = en_queue e"
proof -
  define e1 where "e1 = upd_worker wa (\<lambda>w. w\<lparr>wi_running_tasks := wi_running_tasks w + 1, wi_status := BUSY\<rparr>) e"
  obtain r2 e2 where e2: "save_worker wa e1 = (r2, e2)" by fastforce
  obtain r3 e3 where e3: "save_task (io_clk io 0) a None (gap io 0 e2) = (r3, e3)" by fastforce
  have "en_queue e1 = en_queue e" by (simp add: e1_def upd_worker_def)
  moreover have "en_queue e2 = en_queue e1" using save_worker_eq [of wa e1] e2 by simp
  moreover have "en_queue e3 = en_queue e2"
    using save_task_eq [of "io_clk io 0" a None "gap io 0 e2"] e3 assms by (simp add: gap_def)
  moreover have "snd (reserve_finish io wid wa a e) =
      (case r2 of Inl _ \<Rightarrow> e2 | Inr _ \<Rightarrow> case r3 of Inl _ \<Rightarrow> e3 | Inr _ \<Rightarrow> announce io 0 1 TASK_DISPATCHED
         [(''task_id'', PStr (te_task_id (task_at e3 a))), (''worker_id'', PStr wid),
          (''queue'', PStr (ts_queue (te_spec (task_at e3 a))))] e3)"
    unfolding reserve_finish_def Let_def e1_def [symmetric] e2 prod.case
    by (cases r2; cases r3) (simp_all add: e3)
  ultimately show ?thesis by (simp add: announce_def split: sum.split)
qed

lemma reserve_finish_result: "reserve_finish io wid wa a e = (Inr x, e1) \<Longrightarrow> x = Some a"
  by (auto simp: reserve_finish_def Let_def split: prod.splits sum.splits)

lemma reserve_task_running:
  assumes "io_threads io = (\<lambda>_. [])" "reserve_task io wid timeout start turns (\<lambda>e. e) e = (Some (Inr (Some a)), e1)"
  shows "te_status (task_at e1 a) = RUNNING \<and> dict_get (inflight (en_queue e1)) (te_task_id (task_at e1 a)) = Some a"
proof -
  obtain wa where wa: "reserve_begin wid e = Some wa"
    using assms(2) by (auto simp: reserve_task_def split: option.splits)
  obtain r q where q: "reserve start (Some (en_completed e)) (st_lease_seconds (en_config e)) (Some timeout) turns (en_queue e) = (r, q)"
    by fastforce
  obtain b where b: "r = Some (Inr (Some b))" and f: "reserve_finish io wid wa b (e\<lparr>en_queue := q\<rparr>) = (Inr (Some a), e1)"
    using assms(2) by (auto simp: reserve_task_def wa q split: option.splits sum.splits prod.splits)
  have "b = a" using reserve_finish_result [OF f] by simp
  moreover have "en_queue e1 = q" using reserve_finish_queue [OF assms(1), of wid wa b "e\<lparr>en_queue := q\<rparr>"] f by simp
  moreover have "te_status (objs q b) = RUNNING \<and> dict_get (inflight q) (te_task_id (objs q b)) = Some b"
    using q b reserve_loop_running unfolding reserve_def by blast
  ultimately show ?thesis by (simp add: task_at_def)
qed

text \<open>
  C36. A task whose priority or retry budget does not fit into 32 bits, which the HTTP interface accepts, is
  handed out and lost: when a consumer polls it, the scheduler has already marked it running and in
  flight as the answer turns out not to be encodable; the call fails, the consumer that made it is gone
  for good, and the same happens to the next one once the lease has expired.
\<close>
theorem unencodable_task_kills_consumer:
  assumes "protobuf_ok pb" and "io_threads io = (\<lambda>_. [])"
    and "reserve_task io wid timeout start turns (\<lambda>e. e) e = (Some (Inr (Some a)), e1)" and "timeout \<noteq> 0"
    and "\<not> (int32_range (ts_priority (te_spec (task_at e1 a))) \<and> int32_range (ts_max_retries (te_spec (task_at e1 a))))"
    and "i < length (wr_consumers r)" and "wr_consumers r ! i = Polling"
  shows "let (answer, e2) = client_reserve pb (reserve_net pb io start turns) (enter_client c) wid timeout e
    in answer = Inl (CodecFailed ProtoValueError) \<and> e2 = e1
     \<and> te_status (task_at e2 a) = RUNNING \<and> dict_get (inflight (en_queue e2)) (te_task_id (task_at e2 a)) = Some a
     \<and> ended (wr_consumers (consume u i (polled answer) r) ! i)"
proof -
  have gap: "gap io n e1 = e1" for n using assms(2) by (simp add: gap_def)
  have "spec_to_proto pb (te_spec (task_at e1 a)) = Inl ProtoValueError"
    using assms(1,5) by (auto simp: spec_to_proto_def pb_int32_eq)
  then have "answer_task pb io 1 (Inr a, e1) = (Inl (CodecFailed ProtoValueError), e1)"
    by (simp add: answer_task_def gap task_to_proto_def)
  then have "client_reserve pb (reserve_net pb io start turns) (enter_client c) wid timeout e = (Inl (CodecFailed ProtoValueError), e1)"
    using assms(3,4) by (simp add: client_reserve_def client_call_def reserve_net_def reserve_task_rpc_def or_number_def)
  then show ?thesis
    using reserve_task_running [OF assms(2,3)] assms(6,7)
    by (simp add: polled_def raised_def consume_def ended_def)
qed


text \<open>A body with priority 2147483648, posted to the HTTP interface, and a worker that polls.\<close>

definition demo_body :: task_body where
  "demo_body = \<lparr>tb_target = ''m:f'', tb_payload = [], tb_kind = IO, tb_queue = ''default'', tb_priority = 2 ^ 31,
     tb_delay_seconds = 0, tb_max_retries = 3, tb_retry_backoff_seconds = 3/2, tb_timeout_seconds = 60,
     tb_affinity = {}, tb_depends_on = {}, tb_batch_key = None\<rparr>"

definition demo_poisoned :: engine where
  "demo_poisoned = snd (register_worker (quiet 11 demo_hex) demo_worker
     (snd (post_task (quiet 10 demo_hex) demo_body demo_engine)))"

lemma demo_posted: "status_code (fst (post_task (quiet 10 demo_hex) demo_body demo_engine)) = 202"
  by code_simp

theorem unencodable_task_kills_consumer_witness:
  "\<exists>answer e2. client_reserve demo_protobuf (reserve_net demo_protobuf (quiet 12 demo_hex) 0 [demo_turn])
       (enter_client (new_client demo_settings None)) (wi_worker_id demo_worker) 1 demo_poisoned = (answer, e2)
     \<and> answer = Inl (CodecFailed ProtoValueError) \<and> te_status (task_at e2 0) = RUNNING
     \<and> ended (wr_consumers (consume demo_code 0 (polled answer) demo_idle) ! 0)"
proof -
  let ?r = "reserve_task (quiet 12 demo_hex) (wi_worker_id demo_worker) 1 0 [demo_turn] (\<lambda>e. e) demo_poisoned"
  have "fst ?r = Some (Inr (Some 0))" by code_simp
  then obtain e1 where r: "?r = (Some (Inr (Some 0)), e1)" by (metis prod.collapse)
  have "ts_priority (te_spec (task_at (snd ?r) 0)) = 2 ^ 31" by code_simp
  then have p: "\<not> (int32_range (ts_priority (te_spec (task_at e1 0))) \<and> int32_range (ts_max_retries (te_spec (task_at e1 0))))"
    by (simp add: r int32_range_def)
  have quiet: "io_threads (quiet 12 demo_hex) = (\<lambda>_. [])" by (simp add: quiet_def)
  have "wr_consumers demo_idle = [Polling]" by code_simp
  then show ?thesis
    using unencodable_task_kills_consumer [OF protobuf_ok_demo quiet r _ p, of 0 demo_idle "new_client demo_settings None" demo_code]
    by (auto simp: Let_def split: prod.splits)
qed

end
