(* ===== verification/Stubs.thy ===== *)
theory Stubs
  imports Rpc
begin

text \<open>
  \<open>taskrunner/grpc/protos/taskrunner_pb2_grpc.py\<close>: what protoc generated for the service of
  \<open>taskrunner.proto\<close>.  It connects the client's calls with the service's methods: each method has a path
  and the types that its request and its answer are serialised with.

  The \<open>grpc\<close> library itself is a parameter, \<open>grpc_lib\<close>: it carries a call from a stub's attribute to the
  handler that was added to the server for its path.  \<open>grpc_ok\<close> states what it documents: a request and an
  answer of the declared types arrive as they were sent, and an exception that a handler raises is not carried
  over but reaches the client as an \<open>AioRpcError\<close>, whose details the library makes.
\<close>

section \<open>Messages\<close>

datatype message_type =
    SubmitTaskRequest | SubmitTaskResponse | RegisterWorkerRequest | RegisterWorkerResponse
  | HeartbeatRequest | HeartbeatResponse | ReserveTaskRequest | ReserveTaskResponse
  | ReportResultRequest | ReportResultResponse | TaskMutationRequest

text \<open>As in \<open>Rpc\<close>, a flag and the message that is there when it is set are one optional message.\<close>

datatype message =
    Submit_Request spec_message
  | Submit_Response task_message
  | Register_Request worker_message
  | Register_Response worker_message
  | Heartbeat_Request "string \<times> 32 word"
  | Heartbeat_Response "worker_message option"
  | Reserve_Request "string \<times> real"
  | Reserve_Response "task_message option"
  | Report_Request result_message
  | Report_Response task_message
  | Mutation_Request string

fun type_of :: "message \<Rightarrow> message_type" where
  "type_of (Submit_Request _) = SubmitTaskRequest"
| "type_of (Submit_Response _) = SubmitTaskResponse"
| "type_of (Register_Request _) = RegisterWorkerRequest"
| "type_of (Register_Response _) = RegisterWorkerResponse"
| "type_of (Heartbeat_Request _) = HeartbeatRequest"
| "type_of (Heartbeat_Response _) = HeartbeatResponse"
| "type_of (Reserve_Request _) = ReserveTaskRequest"
| "type_of (Reserve_Response _) = ReserveTaskResponse"
| "type_of (Report_Request _) = ReportResultRequest"
| "type_of (Report_Response _) = ReportResultResponse"
| "type_of (Mutation_Request _) = TaskMutationRequest"

section \<open>Importing the module\<close>

text \<open>\<open>is_lower\<close> is \<open>grpc._utilities.first_version_is_lower\<close>, or \<open>None\<close> when importing it raises \<open>ImportError\<close>.\<close>

definition GRPC_GENERATED_VERSION :: string where
  "GRPC_GENERATED_VERSION = ''1.80.0''"

definition version_not_supported :: "(string \<Rightarrow> string \<Rightarrow> bool) option \<Rightarrow> string \<Rightarrow> bool" where
  "version_not_supported is_lower version = (case is_lower of None \<Rightarrow> True | Some f \<Rightarrow> f version GRPC_GENERATED_VERSION)"

definition import_stubs :: "(string \<Rightarrow> string \<Rightarrow> bool) option \<Rightarrow> string \<Rightarrow> string + unit" where
  "import_stubs is_lower version =
     (if version_not_supported is_lower version
      then Inl (''The grpc package installed is at version '' @ version @ '','' @
        '' but the generated code in taskrunner/grpc/protos/taskrunner_pb2_grpc.py depends on'' @
        '' grpcio>='' @ GRPC_GENERATED_VERSION @ ''.'' @
        '' Please upgrade your grpc module to grpcio>='' @ GRPC_GENERATED_VERSION @
        '' or downgrade your generated code using grpcio-tools<='' @ version @ ''.'')
      else Inr ())"

section \<open>The client's stub\<close>

record unary_unary =
  uu_path :: string
  uu_request_serializer :: message_type
  uu_response_deserializer :: message_type
  uu_registered_method :: bool

text \<open>\<open>SchedulerStub.__init__\<close>: the attributes of the stub.\<close>

definition SchedulerStub :: "(string, unary_unary) dict" where
  "SchedulerStub = [
     (''SubmitTask'', \<lparr>uu_path = ''/taskrunner.v1.Scheduler/SubmitTask'',
        uu_request_serializer = SubmitTaskRequest, uu_response_deserializer = SubmitTaskResponse,
        uu_registered_method = True\<rparr>),
     (''RegisterWorker'', \<lparr>uu_path = ''/taskrunner.v1.Scheduler/RegisterWorker'',
        uu_request_serializer = RegisterWorkerRequest, uu_response_deserializer = RegisterWorkerResponse,
        uu_registered_method = True\<rparr>),
     (''Heartbeat'', \<lparr>uu_path = ''/taskrunner.v1.Scheduler/Heartbeat'',
        uu_request_serializer = HeartbeatRequest, uu_response_deserializer = HeartbeatResponse,
        uu_registered_method = True\<rparr>),
     (''ReserveTask'', \<lparr>uu_path = ''/taskrunner.v1.Scheduler/ReserveTask'',
        uu_request_serializer = ReserveTaskRequest, uu_response_deserializer = ReserveTaskResponse,
        uu_registered_method = True\<rparr>),
     (''ReportResult'', \<lparr>uu_path = ''/taskrunner.v1.Scheduler/ReportResult'',
        uu_request_serializer = ReportResultRequest, uu_response_deserializer = ReportResultResponse,
        uu_registered_method = True\<rparr>),
     (''CancelTask'', \<lparr>uu_path = ''/taskrunner.v1.Scheduler/CancelTask'',
        uu_request_serializer = TaskMutationRequest, uu_response_deserializer = ReportResultResponse,
        uu_registered_method = True\<rparr>),
     (''RetryTask'', \<lparr>uu_path = ''/taskrunner.v1.Scheduler/RetryTask'',
        uu_request_serializer = TaskMutationRequest, uu_response_deserializer = ReportResultResponse,
        uu_registered_method = True\<rparr>)]"

section \<open>The service's methods\<close>

text \<open>A servicer object: the methods that its class defines, over those of the generated base class.\<close>

type_synonym 'st servicer = "(string, (message, message, 'st) call) dict"

definition unimplemented :: "(message, message, 'st) call" where
  "unimplemented m st = (Inl (TransportFailed ''Method not implemented!''), st)"

definition SchedulerServicer :: "'st servicer" where
  "SchedulerServicer = [(''SubmitTask'', unimplemented), (''RegisterWorker'', unimplemented),
     (''Heartbeat'', unimplemented), (''ReserveTask'', unimplemented), (''ReportResult'', unimplemented),
     (''CancelTask'', unimplemented), (''RetryTask'', unimplemented)]"

definition servicer_method :: "'st servicer \<Rightarrow> string \<Rightarrow> (message, message, 'st) call" where
  "servicer_method sv name = (case dict_get sv name of
      Some f \<Rightarrow> f
    | None \<Rightarrow> (case dict_get SchedulerServicer name of Some f \<Rightarrow> f | None \<Rightarrow> unimplemented))"

section \<open>Registering the service\<close>

record 'st rpc_method_handler =
  rh_method :: "(message, message, 'st) call"
  rh_request_deserializer :: message_type
  rh_response_serializer :: message_type

text \<open>The handlers that \<open>add_SchedulerServicer_to_server\<close> makes, each on a bound method of the servicer.\<close>

definition rpc_method_handlers :: "'st servicer \<Rightarrow> (string, 'st rpc_method_handler) dict" where
  "rpc_method_handlers sv = [
     (''SubmitTask'', \<lparr>rh_method = servicer_method sv ''SubmitTask'',
        rh_request_deserializer = SubmitTaskRequest, rh_response_serializer = SubmitTaskResponse\<rparr>),
     (''RegisterWorker'', \<lparr>rh_method = servicer_method sv ''RegisterWorker'',
        rh_request_deserializer = RegisterWorkerRequest, rh_response_serializer = RegisterWorkerResponse\<rparr>),
     (''Heartbeat'', \<lparr>rh_method = servicer_method sv ''Heartbeat'',
        rh_request_deserializer = HeartbeatRequest, rh_response_serializer = HeartbeatResponse\<rparr>),
     (''ReserveTask'', \<lparr>rh_method = servicer_method sv ''ReserveTask'',
        rh_request_deserializer = ReserveTaskRequest, rh_response_serializer = ReserveTaskResponse\<rparr>),
     (''ReportResult'', \<lparr>rh_method = servicer_method sv ''ReportResult'',
        rh_request_deserializer = ReportResultRequest, rh_response_serializer = ReportResultResponse\<rparr>),
     (''CancelTask'', \<lparr>rh_method = servicer_method sv ''CancelTask'',
        rh_request_deserializer = TaskMutationRequest, rh_response_serializer = ReportResultResponse\<rparr>),
     (''RetryTask'', \<lparr>rh_method = servicer_method sv ''RetryTask'',
        rh_request_deserializer = TaskMutationRequest, rh_response_serializer = ReportResultResponse\<rparr>)]"

text \<open>A server knows the handlers by the path \<open>/service/method\<close>.\<close>

type_synonym 'st server = "(string, 'st rpc_method_handler) dict"

definition add_SchedulerServicer_to_server :: "'st servicer \<Rightarrow> 'st server \<Rightarrow> 'st server" where
  "add_SchedulerServicer_to_server sv server =
     fold (\<lambda>(name, h). dict_set (''/'' @ ''taskrunner.v1.Scheduler'' @ ''/'' @ name) h)
       (rpc_method_handlers sv) server"

section \<open>The library between them\<close>

text \<open>
  \<open>gl_call\<close> is what awaiting an attribute of the stub does when its channel is connected to a server;
  \<open>gl_details\<close> are the details of the error by which a client learns of an exception in a handler.
\<close>

record 'st grpc_lib =
  gl_call :: "'st server \<Rightarrow> unary_unary \<Rightarrow> (message, message, 'st) call"
  gl_details :: "rpc_error \<Rightarrow> string"

definition as_seen :: "'st grpc_lib \<Rightarrow> (rpc_error + 'a) \<times> 'st \<Rightarrow> (rpc_error + 'a) \<times> 'st" where
  "as_seen lib r = (case r of (Inl x, st) \<Rightarrow> (Inl (TransportFailed (gl_details lib x)), st) | (Inr a, st) \<Rightarrow> (Inr a, st))"

definition grpc_ok :: "'st grpc_lib \<Rightarrow> bool" where
  "grpc_ok lib \<longleftrightarrow> (\<forall>server u h m st. dict_get server (uu_path u) = Some h
     \<and> type_of m = uu_request_serializer u \<and> rh_request_deserializer h = uu_request_serializer u
     \<and> rh_response_serializer h = uu_response_deserializer u
     \<and> (case rh_method h m st of (Inl _, _) \<Rightarrow> True | (Inr a, _) \<Rightarrow> type_of a = rh_response_serializer h)
     \<longrightarrow> gl_call lib server u m st = as_seen lib (rh_method h m st))"

section \<open>Calls without a stub\<close>

text \<open>
  The generated class \<open>Scheduler\<close>: static methods that make one call.  Each passes its arguments, in the
  order in which \<open>grpc.experimental.unary_unary\<close> takes them, with the path and types of its method.
\<close>

record call_options =
  co_options :: "pyval list"
  co_channel_credentials :: "pyval"
  co_call_credentials :: "pyval"
  co_insecure :: bool
  co_compression :: "pyval"
  co_wait_for_ready :: "bool option"
  co_timeout :: "seconds option"
  co_metadata :: "pyval"

definition default_options :: call_options where
  "default_options = \<lparr>co_options = [], co_channel_credentials = PNone, co_call_credentials = PNone,
     co_insecure = False, co_compression = PNone, co_wait_for_ready = None, co_timeout = None,
     co_metadata = PNone\<rparr>"

record one_shot_call =
  os_request :: message
  os_target :: string
  os_method :: unary_unary
  os_options :: "pyval list"
  os_channel_credentials :: "pyval"
  os_insecure :: bool
  os_call_credentials :: "pyval"
  os_compression :: "pyval"
  os_wait_for_ready :: "bool option"
  os_timeout :: "seconds option"
  os_metadata :: "pyval"

definition one_shot ::
    "string \<Rightarrow> message_type \<Rightarrow> message_type \<Rightarrow> message \<Rightarrow> string \<Rightarrow> call_options \<Rightarrow> one_shot_call" where
  "one_shot path request_type response_type request target opts =
     \<lparr>os_request = request, os_target = target,
      os_method = \<lparr>uu_path = path, uu_request_serializer = request_type,
        uu_response_deserializer = response_type, uu_registered_method = True\<rparr>,
      os_options = co_options opts, os_channel_credentials = co_channel_credentials opts,
      os_insecure = co_insecure opts, os_call_credentials = co_call_credentials opts,
      os_compression = co_compression opts, os_wait_for_ready = co_wait_for_ready opts,
      os_timeout = co_timeout opts, os_metadata = co_metadata opts\<rparr>"

definition Scheduler :: "(string, message \<Rightarrow> string \<Rightarrow> call_options \<Rightarrow> one_shot_call) dict" where
  "Scheduler = [
     (''SubmitTask'', one_shot ''/taskrunner.v1.Scheduler/SubmitTask'' SubmitTaskRequest SubmitTaskResponse),
     (''RegisterWorker'',
        one_shot ''/taskrunner.v1.Scheduler/RegisterWorker'' RegisterWorkerRequest RegisterWorkerResponse),
     (''Heartbeat'', one_shot ''/taskrunner.v1.Scheduler/Heartbeat'' HeartbeatRequest HeartbeatResponse),
     (''ReserveTask'', one_shot ''/taskrunner.v1.Scheduler/ReserveTask'' ReserveTaskRequest ReserveTaskResponse),
     (''ReportResult'', one_shot ''/taskrunner.v1.Scheduler/ReportResult'' ReportResultRequest ReportResultResponse),
     (''CancelTask'', one_shot ''/taskrunner.v1.Scheduler/CancelTask'' TaskMutationRequest ReportResultResponse),
     (''RetryTask'', one_shot ''/taskrunner.v1.Scheduler/RetryTask'' TaskMutationRequest ReportResultResponse)]"

section \<open>The scheduler's service\<close>

text \<open>\<open>SchedulerServicer\<close> of \<open>grpc/server.py\<close> as such an object: its methods unpack the request and pack the answer.\<close>

definition packed :: "('a \<Rightarrow> message) \<Rightarrow> (rpc_error + 'a) \<times> 'st \<Rightarrow> (rpc_error + message) \<times> 'st" where
  "packed f r = (case r of (Inl x, st) \<Rightarrow> (Inl x, st) | (Inr a, st) \<Rightarrow> (Inr (f a), st))"

definition engine_servicer :: "protobuf \<Rightarrow> io \<Rightarrow> seconds \<Rightarrow> turn list \<Rightarrow> engine servicer" where
  "engine_servicer pb io start turns = [
     (''SubmitTask'', \<lambda>m e. case m of Submit_Request s \<Rightarrow> packed Submit_Response (submit_task_rpc pb io s e) | _ \<Rightarrow> unimplemented m e),
     (''RegisterWorker'', \<lambda>m e. case m of Register_Request w \<Rightarrow> packed Register_Response (register_worker_rpc pb io w e) | _ \<Rightarrow> unimplemented m e),
     (''Heartbeat'', \<lambda>m e. case m of Heartbeat_Request r \<Rightarrow> packed Heartbeat_Response (heartbeat_rpc pb io r e) | _ \<Rightarrow> unimplemented m e),
     (''ReserveTask'', \<lambda>m e. case m of Reserve_Request r \<Rightarrow> packed Reserve_Response (reserve_net pb io start turns r e) | _ \<Rightarrow> unimplemented m e),
     (''ReportResult'', \<lambda>m e. case m of Report_Request r \<Rightarrow> packed Report_Response (report_result_rpc pb io r e) | _ \<Rightarrow> unimplemented m e),
     (''CancelTask'', \<lambda>m e. case m of Mutation_Request i \<Rightarrow> packed Report_Response (cancel_task_rpc pb io i e) | _ \<Rightarrow> unimplemented m e),
     (''RetryTask'', \<lambda>m e. case m of Mutation_Request i \<Rightarrow> packed Report_Response (retry_task_rpc pb io i e) | _ \<Rightarrow> unimplemented m e)]"

text \<open>\<open>serve_grpc\<close>: a server with this servicer, on the address of the settings.\<close>

definition serve_grpc :: "engine servicer \<Rightarrow> settings \<Rightarrow> string \<times> engine server" where
  "serve_grpc sv cfg = (st_scheduler_host cfg @ '':'' @ show_int (st_scheduler_grpc_port cfg),
     add_SchedulerServicer_to_server sv [])"

text \<open>
  A call of the stub's attribute \<open>name\<close> by a client that is connected to that server, with a request and an
  answer without wrapping.
\<close>

definition stub_net ::
    "engine grpc_lib \<Rightarrow> engine servicer \<Rightarrow> settings \<Rightarrow> string \<Rightarrow> ('q \<Rightarrow> message) \<Rightarrow> (message \<Rightarrow> 'a option)
     \<Rightarrow> ('q, 'a, engine) call" where
  "stub_net lib sv cfg name wrap unwrap req e =
     (case dict_get SchedulerStub name of
        None \<Rightarrow> (Inl (TransportFailed ''AttributeError''), e)
      | Some u \<Rightarrow>
          (case gl_call lib (snd (serve_grpc sv cfg)) u (wrap req) e of
             (Inl x, e1) \<Rightarrow> (Inl x, e1)
           | (Inr m, e1) \<Rightarrow>
               (case unwrap m of
                  None \<Rightarrow> (Inl (TransportFailed ''AttributeError''), e1)
                | Some a \<Rightarrow> (Inr a, e1))))"

section \<open>From the stub to the scheduler\<close>

text \<open>What the client reads from a response: \<open>response.task\<close>, \<open>response.worker\<close>, and the optional parts.\<close>

definition response_task :: "message \<Rightarrow> task_message option" where
  "response_task m = (case m of Submit_Response t \<Rightarrow> Some t | Report_Response t \<Rightarrow> Some t | _ \<Rightarrow> None)"

definition response_worker :: "message \<Rightarrow> worker_message option" where
  "response_worker m = (case m of Register_Response w \<Rightarrow> Some w | _ \<Rightarrow> None)"

definition response_known :: "message \<Rightarrow> worker_message option option" where
  "response_known m = (case m of Heartbeat_Response w \<Rightarrow> Some w | _ \<Rightarrow> None)"

definition response_found :: "message \<Rightarrow> task_message option option" where
  "response_found m = (case m of Reserve_Response t \<Rightarrow> Some t | _ \<Rightarrow> None)"

lemma handler_lookup:
  "dict_get (snd (serve_grpc sv cfg)) ''/taskrunner.v1.Scheduler/SubmitTask'' = Some \<lparr>rh_method = servicer_method sv ''SubmitTask'',
     rh_request_deserializer = SubmitTaskRequest, rh_response_serializer = SubmitTaskResponse\<rparr>" 
  "dict_get (snd (serve_grpc sv cfg)) ''/taskrunner.v1.Scheduler/RegisterWorker'' = Some \<lparr>rh_method = servicer_method sv ''RegisterWorker'',
     rh_request_deserializer = RegisterWorkerRequest, rh_response_serializer = RegisterWorkerResponse\<rparr>" 
  "dict_get (snd (serve_grpc sv cfg)) ''/taskrunner.v1.Scheduler/Heartbeat'' = Some \<lparr>rh_method = servicer_method sv ''Heartbeat'',
     rh_request_deserializer = HeartbeatRequest, rh_response_serializer = HeartbeatResponse\<rparr>" 
  "dict_get (snd (serve_grpc sv cfg)) ''/taskrunner.v1.Scheduler/ReserveTask'' = Some \<lparr>rh_method = servicer_method sv ''ReserveTask'',
     rh_request_deserializer = ReserveTaskRequest, rh_response_serializer = ReserveTaskResponse\<rparr>" 
  "dict_get (snd (serve_grpc sv cfg)) ''/taskrunner.v1.Scheduler/ReportResult'' = Some \<lparr>rh_method = servicer_method sv ''ReportResult'',
     rh_request_deserializer = ReportResultRequest, rh_response_serializer = ReportResultResponse\<rparr>" 
  "dict_get (snd (serve_grpc sv cfg)) ''/taskrunner.v1.Scheduler/CancelTask'' = Some \<lparr>rh_method = servicer_method sv ''CancelTask'',
     rh_request_deserializer = TaskMutationRequest, rh_response_serializer = ReportResultResponse\<rparr>" 
  "dict_get (snd (serve_grpc sv cfg)) ''/taskrunner.v1.Scheduler/RetryTask'' = Some \<lparr>rh_method = servicer_method sv ''RetryTask'',
     rh_request_deserializer = TaskMutationRequest, rh_response_serializer = ReportResultResponse\<rparr>"
  by (simp_all add: serve_grpc_def add_SchedulerServicer_to_server_def rpc_method_handlers_def)

lemma stub_lookup:
  "dict_get SchedulerStub ''SubmitTask'' = Some \<lparr>uu_path = ''/taskrunner.v1.Scheduler/SubmitTask'', uu_request_serializer = SubmitTaskRequest,
     uu_response_deserializer = SubmitTaskResponse, uu_registered_method = True\<rparr>" 
  "dict_get SchedulerStub ''RegisterWorker'' = Some \<lparr>uu_path = ''/taskrunner.v1.Scheduler/RegisterWorker'', uu_request_serializer = RegisterWorkerRequest,
     uu_response_deserializer = RegisterWorkerResponse, uu_registered_method = True\<rparr>" 
  "dict_get SchedulerStub ''Heartbeat'' = Some \<lparr>uu_path = ''/taskrunner.v1.Scheduler/Heartbeat'', uu_request_serializer = HeartbeatRequest,
     uu_response_deserializer = HeartbeatResponse, uu_registered_method = True\<rparr>" 
  "dict_get SchedulerStub ''ReserveTask'' = Some \<lparr>uu_path = ''/taskrunner.v1.Scheduler/ReserveTask'', uu_request_serializer = ReserveTaskRequest,
     uu_response_deserializer = ReserveTaskResponse, uu_registered_method = True\<rparr>" 
  "dict_get SchedulerStub ''ReportResult'' = Some \<lparr>uu_path = ''/taskrunner.v1.Scheduler/ReportResult'', uu_request_serializer = ReportResultRequest,
     uu_response_deserializer = ReportResultResponse, uu_registered_method = True\<rparr>" 
  "dict_get SchedulerStub ''CancelTask'' = Some \<lparr>uu_path = ''/taskrunner.v1.Scheduler/CancelTask'', uu_request_serializer = TaskMutationRequest,
     uu_response_deserializer = ReportResultResponse, uu_registered_method = True\<rparr>" 
  "dict_get SchedulerStub ''RetryTask'' = Some \<lparr>uu_path = ''/taskrunner.v1.Scheduler/RetryTask'', uu_request_serializer = TaskMutationRequest,
     uu_response_deserializer = ReportResultResponse, uu_registered_method = True\<rparr>"
  by (simp_all add: SchedulerStub_def)

text \<open>The call through the stub is the method itself, as the library shows it, when types and packing agree.\<close>

lemma stub_net_method:
  assumes lib: "grpc_ok lib"
    and stub: "dict_get SchedulerStub name = Some \<lparr>uu_path = path, uu_request_serializer = ty,
      uu_response_deserializer = ty', uu_registered_method = True\<rparr>" (is "_ = Some ?u")
    and handler: "dict_get (snd (serve_grpc sv cfg)) path = Some \<lparr>rh_method = g, rh_request_deserializer = ty,
      rh_response_serializer = ty'\<rparr>"
    and types: "\<And>q. type_of (wrap q) = ty" "\<And>a. type_of (pack a) = ty'"
    and unwrap: "\<And>a. unwrap (pack a) = Some a"
    and g: "\<And>q e. g (wrap q) e = packed pack (f q e)"
  shows "stub_net lib sv cfg name wrap unwrap q e = as_seen lib (f q e)"
proof -
  obtain r e1 where f: "f q e = (r, e1)" by fastforce
  let ?h = "\<lparr>rh_method = g, rh_request_deserializer = ty, rh_response_serializer = ty'\<rparr>"
  have "gl_call lib (snd (serve_grpc sv cfg)) ?u (wrap q) e = as_seen lib (rh_method ?h (wrap q) e)"
    by (rule lib [unfolded grpc_ok_def, rule_format])
      (simp_all add: handler types g f packed_def split: sum.split)
  then show ?thesis by (cases r) (simp_all add: stub_net_def stub g f packed_def as_seen_def unwrap)
qed

text \<open>
  C18. The generated tables fit together and fit the service: with a library that carries calls as it
  documents, a call of any of the stub's seven methods, made by a client with the settings of the server,
  runs the scheduler's method of that name on the request as it was sent: the scheduler ends in the same
  state and the client gets the same answer; when the method raises, the client gets the library's error, with the
  details that the library makes of the exception, and never the exception itself.  And the calls without a
  stub use the same paths and types.
\<close>
theorem stubs_reach_service:
  assumes "grpc_ok lib"
  shows "let sv = engine_servicer pb io start turns in
      fst (serve_grpc sv cfg) = grpc_target cfg
    \<and> stub_net lib sv cfg ''SubmitTask'' Submit_Request response_task q1 e = as_seen lib (submit_task_rpc pb io q1 e)
    \<and> stub_net lib sv cfg ''RegisterWorker'' Register_Request response_worker q2 e = as_seen lib (register_worker_rpc pb io q2 e)
    \<and> stub_net lib sv cfg ''Heartbeat'' Heartbeat_Request response_known q3 e = as_seen lib (heartbeat_rpc pb io q3 e)
    \<and> stub_net lib sv cfg ''ReserveTask'' Reserve_Request response_found q4 e = as_seen lib (reserve_net pb io start turns q4 e)
    \<and> stub_net lib sv cfg ''ReportResult'' Report_Request response_task q5 e = as_seen lib (report_result_rpc pb io q5 e)
    \<and> stub_net lib sv cfg ''CancelTask'' Mutation_Request response_task tid e = as_seen lib (cancel_task_rpc pb io tid e)
    \<and> stub_net lib sv cfg ''RetryTask'' Mutation_Request response_task tid e = as_seen lib (retry_task_rpc pb io tid e)
    \<and> map (\<lambda>(name, f). (name, os_method (f request target opts))) Scheduler = SchedulerStub"
proof -
  let ?sv = "engine_servicer pb io start turns"
  have lk: "servicer_method ?sv ''SubmitTask'' (Submit_Request q1) e = packed Submit_Response (submit_task_rpc pb io q1 e)"
    "servicer_method ?sv ''RegisterWorker'' (Register_Request q2) e = packed Register_Response (register_worker_rpc pb io q2 e)"
    "servicer_method ?sv ''Heartbeat'' (Heartbeat_Request q3) e = packed Heartbeat_Response (heartbeat_rpc pb io q3 e)"
    "servicer_method ?sv ''ReserveTask'' (Reserve_Request q4) e = packed Reserve_Response (reserve_net pb io start turns q4 e)"
    "servicer_method ?sv ''ReportResult'' (Report_Request q5) e = packed Report_Response (report_result_rpc pb io q5 e)"
    "servicer_method ?sv ''CancelTask'' (Mutation_Request q6) e = packed Report_Response (cancel_task_rpc pb io q6 e)"
    "servicer_method ?sv ''RetryTask'' (Mutation_Request q6) e = packed Report_Response (retry_task_rpc pb io q6 e)"
    for q1 q2 q3 q4 q5 q6 e
    by (simp_all add: servicer_method_def engine_servicer_def)
  have "stub_net lib ?sv cfg ''SubmitTask'' Submit_Request response_task q1 e = as_seen lib (submit_task_rpc pb io q1 e)"
    by (rule stub_net_method [OF assms stub_lookup(1) handler_lookup(1), where pack = Submit_Response])
      (simp_all add: lk response_task_def)
  moreover have "stub_net lib ?sv cfg ''RegisterWorker'' Register_Request response_worker q2 e = as_seen lib (register_worker_rpc pb io q2 e)"
    by (rule stub_net_method [OF assms stub_lookup(2) handler_lookup(2), where pack = Register_Response])
      (simp_all add: lk response_worker_def)
  moreover have "stub_net lib ?sv cfg ''Heartbeat'' Heartbeat_Request response_known q3 e = as_seen lib (heartbeat_rpc pb io q3 e)"
    by (rule stub_net_method [OF assms stub_lookup(3) handler_lookup(3), where pack = Heartbeat_Response])
      (simp_all add: lk response_known_def)
  moreover have "stub_net lib ?sv cfg ''ReserveTask'' Reserve_Request response_found q4 e = as_seen lib (reserve_net pb io start turns q4 e)"
    by (rule stub_net_method [OF assms stub_lookup(4) handler_lookup(4), where pack = Reserve_Response])
      (simp_all add: lk response_found_def)
  moreover have "stub_net lib ?sv cfg ''ReportResult'' Report_Request response_task q5 e = as_seen lib (report_result_rpc pb io q5 e)"
    by (rule stub_net_method [OF assms stub_lookup(5) handler_lookup(5), where pack = Report_Response])
      (simp_all add: lk response_task_def)
  moreover have "stub_net lib ?sv cfg ''CancelTask'' Mutation_Request response_task tid e = as_seen lib (cancel_task_rpc pb io tid e)"
    by (rule stub_net_method [OF assms stub_lookup(6) handler_lookup(6), where pack = Report_Response])
      (simp_all add: lk response_task_def)
  moreover have "stub_net lib ?sv cfg ''RetryTask'' Mutation_Request response_task tid e = as_seen lib (retry_task_rpc pb io tid e)"
    by (rule stub_net_method [OF assms stub_lookup(7) handler_lookup(7), where pack = Report_Response])
      (simp_all add: lk response_task_def)
  moreover have "map (\<lambda>(name, f). (name, os_method (f request target opts))) Scheduler = SchedulerStub"
    by (simp add: Scheduler_def SchedulerStub_def one_shot_def)
  moreover have "fst (serve_grpc ?sv cfg) = grpc_target cfg" by (simp add: serve_grpc_def grpc_target_def)
  ultimately show ?thesis by (simp add: Let_def)
qed

text \<open>A library that runs the handler of the path, checks the types and reports exceptions as unknown errors.\<close>

definition demo_grpc :: "'st grpc_lib" where
  "demo_grpc = \<lparr>gl_call = (\<lambda>server u m st. case dict_get server (uu_path u) of
       None \<Rightarrow> (Inl (TransportFailed ''UNIMPLEMENTED''), st)
     | Some h \<Rightarrow>
         (if type_of m \<noteq> rh_request_deserializer h then (Inl (TransportFailed ''INTERNAL''), st)
          else case rh_method h m st of
                 (Inl x, st1) \<Rightarrow> (Inl (TransportFailed ''UNKNOWN''), st1)
               | (Inr a, st1) \<Rightarrow>
                   (if type_of a = uu_response_deserializer u then (Inr a, st1) else (Inl (TransportFailed ''INTERNAL''), st1)))),
     gl_details = (\<lambda>x. ''UNKNOWN'')\<rparr>"

lemma demo_grpc_ok: "grpc_ok demo_grpc"
  by (auto simp: grpc_ok_def demo_grpc_def as_seen_def split: prod.splits sum.splits)

theorem stubs_reach_service_witness:
  "fst (stub_net demo_grpc (engine_servicer demo_protobuf (quiet 10 demo_hex) 0 []) demo_settings ''CancelTask''
      Mutation_Request response_task ''zz'' demo_engine) = Inl (TransportFailed ''UNKNOWN'')"
proof -
  note t = stubs_reach_service [OF demo_grpc_ok, of demo_protobuf "quiet 10 demo_hex" 0 "[]" demo_settings, unfolded Let_def]
  have "fst (cancel_task_rpc demo_protobuf (quiet 10 demo_hex) ''zz'' demo_engine)
      = Inl (EngineFailed (QueueError (TaskNotFoundError ''zz'')))" by code_simp
  then obtain e where "cancel_task_rpc demo_protobuf (quiet 10 demo_hex) ''zz'' demo_engine
      = (Inl (EngineFailed (QueueError (TaskNotFoundError ''zz''))), e)" by (metis prod.collapse)
  then have "fst (as_seen demo_grpc (cancel_task_rpc demo_protobuf (quiet 10 demo_hex) ''zz'' demo_engine))
      = Inl (TransportFailed ''UNKNOWN'')" by (simp add: as_seen_def demo_grpc_def)
  with t show ?thesis by simp
qed

end
