(* ===== verification/Service.thy ===== *)
theory Service
  imports App
begin

text \<open>
  \<open>taskrunner/scheduler/service.py\<close> and \<open>taskrunner/shared/logging.py\<close>: the life of a scheduler process
  around its event loop, and what it writes to its log.
\<close>

section \<open>Log records\<close>

text \<open>\<open>lr_extra\<close> is the record's \<open>__dict__\<close>, in insertion order.\<close>

record log_record =
  lr_levelname :: string
  lr_name :: string
  lr_message :: string
  lr_exception :: "string option"
  lr_extra :: "(string, pyval) dict"

definition starts_with :: "string \<Rightarrow> string \<Rightarrow> bool" where
  "starts_with s p \<longleftrightarrow> take (length p) s = p"

definition extra_prefix :: string where
  "extra_prefix = ''taskrunner_''"

fun add_extras :: "(string, pyval) dict \<Rightarrow> (string, pyval) dict \<Rightarrow> (string, pyval) dict" where
  "add_extras [] payload = payload"
| "add_extras ((k, v) # kvs) payload =
     add_extras kvs (if starts_with k extra_prefix then dict_set (drop (length extra_prefix) k) v payload else payload)"

text \<open>The dictionary that \<open>JsonFormatter.format\<close> writes as JSON.\<close>

definition log_payload :: "seconds \<Rightarrow> log_record \<Rightarrow> (string, pyval) dict" where
  "log_payload now r =
     (let base = [(''ts'', PFloat now), (''level'', PStr (lr_levelname r)), (''logger'', PStr (lr_name r)),
                  (''message'', PStr (lr_message r))];
          with_exc = (case lr_exception r of None \<Rightarrow> base | Some x \<Rightarrow> dict_set ''exception'' (PStr x) base)
      in add_extras (lr_extra r) with_exc)"

record root_logger =
  rl_root_level :: string
  rl_handlers :: "string list"

text \<open>\<open>configure_logging\<close> replaces whatever handlers there were by one.\<close>

definition configure_logging :: "string \<Rightarrow> root_logger \<Rightarrow> root_logger" where
  "configure_logging level l = l\<lparr>rl_root_level := map to_upper level, rl_handlers := [''stdout'']\<rparr>"

lemma configure_logging_idem: "configure_logging v (configure_logging w l) = configure_logging v l"
  by (simp add: configure_logging_def)

lemma add_extras_ok: "dict_ok payload \<Longrightarrow> dict_ok (add_extras kvs payload)"
  by (induction kvs payload rule: add_extras.induct) auto

lemma log_payload_ok: "dict_ok (log_payload now r)"
  unfolding log_payload_def Let_def by (rule add_extras_ok) (simp add: dict_ok_def split: option.split)

text \<open>An extra can overwrite the time, the level, the logger's name or the message of its record.\<close>

lemma extra_overwrites:
  "dict_get (log_payload now \<lparr>lr_levelname = ''INFO'', lr_name = ''n'', lr_message = ''m'', lr_exception = None,
     lr_extra = [(''taskrunner_level'', PStr ''x'')]\<rparr>) ''level'' = Some (PStr ''x'')"
  by code_simp

section \<open>The scheduler process\<close>

text \<open>
  \<open>run_scheduler\<close> starts the background services, and the lifespan of the HTTP application, which shares the
  engine, starts them again; on the way out the lifespan stops them and \<open>run_scheduler\<close> does once more.
\<close>

definition startup :: "root_logger \<Rightarrow> engine \<Rightarrow> root_logger \<times> engine" where
  "startup l e =
     (configure_logging (st_log_level (en_config e)) l, start_background_services (start_background_services e))"

definition shutdown :: "engine \<Rightarrow> engine" where
  "shutdown e = stop_background_services (stop_background_services e)"

lemma services_once:
  "en_background e = [] \<Longrightarrow> \<not> en_services e \<Longrightarrow>
     en_background (snd (startup l e)) = [''heartbeat_reaper'', ''lease_reaper'', ''pressure_reporter'']"
  by (simp add: startup_def start_background_services_def)

lemma shutdown_startup: "en_background (shutdown (snd (startup l e))) = [] \<and> \<not> en_services (shutdown (snd (startup l e)))"
  by (simp add: shutdown_def stop_background_services_def)

end
