(* ===== verification/Node.thy ===== *)
theory Node
  imports Cluster Stubs Service
begin

text \<open>
  A worker node together with the scheduler it works for: \<open>WorkerRuntime.run\<close> of
  \<open>taskrunner/workers/manager.py\<close>, with the calls that the runtime makes over its transport, the answers on
  their way, and everything that other clients and the scheduler itself do in the meantime.
\<close>

section \<open>The transport of a worker\<close>

text \<open>\<open>SchedulerTransport\<close>: the four calls.  \<open>'i\<close> is what a call gets from outside (times, ids, threads).\<close>

record ('i, 'st) transport =
  tp_register_worker :: "'i \<Rightarrow> worker_info \<Rightarrow> 'st \<Rightarrow> (rpc_error + unit) \<times> 'st"
  tp_heartbeat :: "'i \<Rightarrow> string \<Rightarrow> int \<Rightarrow> 'st \<Rightarrow> (rpc_error + bool) \<times> 'st"
  tp_reserve :: "'i \<Rightarrow> string \<Rightarrow> seconds \<Rightarrow> 'st \<Rightarrow> (rpc_error + task_envelope option) \<times> 'st"
  tp_report_result :: "'i \<Rightarrow> task_result \<Rightarrow> 'st \<Rightarrow> (rpc_error + task_envelope) \<times> 'st"

text \<open>
  \<open>SchedulerClient\<close> as a transport to a scheduler.  Waiting in \<open>reserve\<close> is left to the steps around it: the
  call makes the poll that gives its answer, with the worker and the completed tasks as they are then
  (\<open>ci_live\<close>), or with no completed tasks, when there were none as the wait began.
\<close>

record call_input =
  ci_io :: io
  ci_live :: bool
  ci_clk :: clock
  ci_order :: "string list"
  ci_start :: seconds
  ci_monotonic :: seconds

definition live_turn :: "call_input \<Rightarrow> string \<Rightarrow> engine \<Rightarrow> turn" where
  "live_turn i wid e = \<lparr>tn_clk = ci_clk i, tn_order = ci_order i,
     tn_worker = en_wobjs e (case dict_get (en_workers e) wid of None \<Rightarrow> 0 | Some wa \<Rightarrow> wa),
     tn_completed = (if ci_live i then en_completed e else {}), tn_monotonic = ci_monotonic i, tn_others = (\<lambda>q. q)\<rparr>"

definition client_transport :: "protobuf \<Rightarrow> scheduler_client \<Rightarrow> (call_input, engine) transport" where
  "client_transport pb c = \<lparr>
     tp_register_worker = (\<lambda>i. client_register_worker pb (register_worker_rpc pb (ci_io i)) c),
     tp_heartbeat = (\<lambda>i. client_heartbeat pb (heartbeat_rpc pb (ci_io i)) c),
     tp_reserve = (\<lambda>i wid timeout e.
       client_reserve pb (reserve_net pb (ci_io i) (ci_start i) [live_turn i wid e]) c wid timeout e),
     tp_report_result = (\<lambda>i. client_report_result pb (report_result_rpc pb (ci_io i)) c)\<rparr>"

text \<open>\<open>run\<close>: the transport given to the constructor, or a client of the configured scheduler.\<close>

definition run_transport ::
    "protobuf \<Rightarrow> settings \<Rightarrow> (call_input, engine) transport option \<Rightarrow> (call_input, engine) transport" where
  "run_transport pb cfg given = (case given of Some tp \<Rightarrow> tp | None \<Rightarrow> client_transport pb (connected cfg))"

section \<open>The system\<close>

text \<open>
  \<open>sy_mail\<close> holds, per consumer, the answer that is on its way to it, and \<open>sy_heart_mail\<close> that of the
  heartbeat.  A call takes effect at the scheduler when its answer is put there; \<open>lose\<close> replaces or makes up
  an answer by a failure of the transport.
\<close>

record 'st system =
  sy_world :: 'st
  sy_node :: worker_runtime
  sy_mail :: "nat \<Rightarrow> consumer_event option"
  sy_heart_mail :: "heart_event option"

definition answer_of :: "rpc_error + 'a \<Rightarrow> exn + 'a" where
  "answer_of r = (case r of Inl x \<Rightarrow> Inl (raised x) | Inr a \<Rightarrow> Inr a)"

definition consumer_at :: "'st system \<Rightarrow> nat \<Rightarrow> consumer \<Rightarrow> bool" where
  "consumer_at s i c \<longleftrightarrow> i < length (wr_consumers (sy_node s)) \<and> wr_consumers (sy_node s) ! i = c"

text \<open>The events that a consumer produces by itself.\<close>

fun own_event :: "consumer_event \<Rightarrow> bool" where
  "own_event (Polled _) = False"
| "own_event (Reported _) = False"
| "own_event _ = True"

inductive system_step :: "user_code \<Rightarrow> ('i, 'st) transport \<Rightarrow> ('st \<Rightarrow> 'st \<Rightarrow> bool) \<Rightarrow> 'st system \<Rightarrow> 'st system \<Rightarrow> bool"
  for u tp env where
  world: "env (sy_world s) st \<Longrightarrow> system_step u tp env s (s\<lparr>sy_world := st\<rparr>)"
| reserve: "consumer_at s i Polling \<Longrightarrow>
    tp_reserve tp inp (wi_worker_id (wr_worker (sy_node s))) 1 (sy_world s) = (ans, st) \<Longrightarrow>
    system_step u tp env s (s\<lparr>sy_world := st, sy_mail := (sy_mail s)(i := Some (Polled (answer_of ans)))\<rparr>)"
| report: "consumer_at s i (Reporting t res) \<Longrightarrow> tp_report_result tp inp res (sy_world s) = (ans, st) \<Longrightarrow>
    system_step u tp env s
      (s\<lparr>sy_world := st, sy_mail := (sy_mail s)(i := Some (Reported (and_then (answer_of ans) (\<lambda>_. Inr ()))))\<rparr>)"
| lose: "ev \<in> {Polled (Inl x), Reported (Inl x)} \<Longrightarrow>
    system_step u tp env s (s\<lparr>sy_mail := (sy_mail s)(i := Some ev)\<rparr>)"
| deliver: "sy_mail s i = Some ev \<Longrightarrow>
    system_step u tp env s (s\<lparr>sy_node := consume u i ev (sy_node s), sy_mail := (sy_mail s)(i := None)\<rparr>)"
| own: "own_event ev \<Longrightarrow> system_step u tp env s (s\<lparr>sy_node := consume u i ev (sy_node s)\<rparr>)"
| heartbeat: "wr_heart (sy_node s) = Beating \<Longrightarrow>
    tp_heartbeat tp inp (fst (beat_request (sy_node s))) (snd (beat_request (sy_node s))) (sy_world s) = (ans, st) \<Longrightarrow>
    system_step u tp env s (s\<lparr>sy_world := st, sy_heart_mail := Some (BeatReturned (answer_of ans))\<rparr>)"
| reregister: "wr_heart (sy_node s) = Reregistering \<Longrightarrow>
    tp_register_worker tp inp (wr_worker (sy_node s)) (sy_world s) = (ans, st) \<Longrightarrow>
    system_step u tp env s (s\<lparr>sy_world := st, sy_heart_mail := Some (Registered (answer_of ans))\<rparr>)"
| beat: "sy_heart_mail s = Some ev \<Longrightarrow>
    system_step u tp env s (s\<lparr>sy_node := beat ev (sy_node s), sy_heart_mail := None\<rparr>)"
| wake: "system_step u tp env s (s\<lparr>sy_node := beat HeartWoke (sy_node s)\<rparr>)"
| stop: "system_step u tp env s (s\<lparr>sy_node := request_shutdown (sy_node s)\<rparr>)"
| drain: "wr_stop (sy_node s) \<Longrightarrow> wi_status (wr_worker (sy_node s)) \<noteq> DRAINING \<Longrightarrow>
    system_step u tp env s (s\<lparr>sy_node := begin_drain (sy_node s), sy_mail := (\<lambda>_. None)\<rparr>)"

text \<open>\<open>_run_with_transport\<close>: the worker registers, then its loops start.\<close>

inductive system_reachable ::
    "user_code \<Rightarrow> ('i, 'st) transport \<Rightarrow> ('st \<Rightarrow> 'st \<Rightarrow> bool) \<Rightarrow> ('st \<Rightarrow> bool) \<Rightarrow> 'st system \<Rightarrow> bool"
  for u tp env start where
  run: "start st \<Longrightarrow> r = new_runtime nd cfg wid queues labels capacity \<Longrightarrow>
    tp_register_worker tp inp (wr_worker r) st = (Inr (), st') \<Longrightarrow>
    system_reachable u tp env start
      \<lparr>sy_world = st', sy_node = snd (start_run (Inr ()) r), sy_mail = (\<lambda>_. None), sy_heart_mail = None\<rparr>"
| step: "system_reachable u tp env start s \<Longrightarrow> system_step u tp env s s' \<Longrightarrow> system_reachable u tp env start s'"

text \<open>The tasks on their way to the node or in its hands.\<close>

definition holds_task :: "'st system \<Rightarrow> nat \<Rightarrow> task_envelope \<Rightarrow> bool" where
  "holds_task s i t \<longleftrightarrow> consumer_at s i (Starting t) \<or> consumer_at s i (Executing t)
     \<or> consumer_at s i (Cancelling t) \<or> sy_mail s i = Some (Polled (Inr (Some t)))"

section \<open>Where tasks come from\<close>

abbreviation has_task :: "consumer \<Rightarrow> task_envelope \<Rightarrow> bool" where
  "has_task c t \<equiv> c = Starting t \<or> c = Executing t \<or> c = Cancelling t"

text \<open>A step of a consumer gives it a task only by an answer to \<open>reserve\<close>.\<close>

lemma consume_at_task:
  assumes "wr_consumers r ! i = c" "i < length (wr_consumers r)"
  shows "\<exists>c'. wr_consumers (consume_at u i c ev r) = (wr_consumers r)[i := c']
    \<and> (\<forall>t. has_task c' t \<longrightarrow> has_task c t \<or> ev = Polled (Inr (Some t)))"
proof (cases rule: consume_at_cases [of u i c ev r])
  case idle
  then show ?thesis using assms by (intro exI [of _ c]) auto
next
  case (began t)
  then show ?thesis
  proof (cases rule: begin_execution_cases [of i t r])
    case (failed x r1)
    then show ?thesis using began by (intro exI [of _ "Ended (Some x)"]) simp
  next
    case (began r1)
    then show ?thesis using \<open>c = Starting t\<close> \<open>consume_at u i c ev r = begin_execution i t r\<close>
      by (intro exI [of _ "Executing t"]) simp
  qed
next
  case (accepted t res)
  obtain c r1 where "end_execution u i t res r = leave_slot i c r1" "\<not> busy c" "wr_consumers r1 = wr_consumers r"
    by (rule end_execution_cases [of u i t res r])
  then show ?thesis using accepted by (intro exI [of _ c]) (auto simp: busy_def)
next
  case (returned t res)
  then show ?thesis by (intro exI [of _ "Reporting t res"]) auto
next
  case (got t)
  then show ?thesis by (intro exI [of _ "Starting t"]) auto
next
  case woke
  then show ?thesis by (intro exI [of _ "loop_head r"]) (auto simp: loop_head_def)
next
  case nothing
  then show ?thesis by (intro exI [of _ Napping]) auto
next
  case (failed x)
  then show ?thesis by (intro exI [of _ "Ended (Some x)"]) auto
next
  case (raised t x)
  then show ?thesis by (intro exI [of _ "Ended (Some x)"]) auto
next
  case (refused t res x)
  then show ?thesis by (intro exI [of _ "Ended (Some x)"]) auto
qed

lemma consume_task:
  assumes "j < length (wr_consumers (consume u i ev r))" "has_task (wr_consumers (consume u i ev r) ! j) t"
  shows "j < length (wr_consumers r) \<and> has_task (wr_consumers r ! j) t \<or> j = i \<and> ev = Polled (Inr (Some t))"
proof (cases "i < length (wr_consumers r)")
  case True
  obtain c' where "wr_consumers (consume_at u i (wr_consumers r ! i) ev r) = (wr_consumers r)[i := c']"
    "\<forall>t. has_task c' t \<longrightarrow> has_task (wr_consumers r ! i) t \<or> ev = Polled (Inr (Some t))"
    using consume_at_task [OF refl True, of u ev] by blast
  with True assms show ?thesis by (cases "j = i") (auto simp: consume_def)
next
  case False
  with assms show ?thesis by (simp add: consume_def)
qed

section \<open>What a worker may rely on\<close>

text \<open>
  The contract of a transport: calls and the rest of the world keep an invariant of the scheduler and a
  property \<open>good\<close> of tasks, and \<open>reserve\<close> answers with good tasks only.  Then every task that the node has in
  hand is good.
\<close>

locale task_source =
  fixes tp :: "('i, 'st) transport" and env :: "'st \<Rightarrow> 'st \<Rightarrow> bool"
    and inv :: "'st \<Rightarrow> bool" and good :: "'st \<Rightarrow> task_envelope \<Rightarrow> bool"
  assumes env_keeps: "inv st \<Longrightarrow> env st st' \<Longrightarrow> inv st' \<and> (\<forall>t. good st t \<longrightarrow> good st' t)"
    and register_keeps: "inv st \<Longrightarrow> tp_register_worker tp i w st = (a1, st') \<Longrightarrow> inv st' \<and> (\<forall>t. good st t \<longrightarrow> good st' t)"
    and heartbeat_keeps: "inv st \<Longrightarrow> tp_heartbeat tp i wid n st = (a2, st') \<Longrightarrow> inv st' \<and> (\<forall>t. good st t \<longrightarrow> good st' t)"
    and reserve_keeps: "inv st \<Longrightarrow> tp_reserve tp i wid timeout st = (a3, st') \<Longrightarrow> inv st' \<and> (\<forall>t. good st t \<longrightarrow> good st' t)"
    and report_keeps: "inv st \<Longrightarrow> tp_report_result tp i res st = (a4, st') \<Longrightarrow> inv st' \<and> (\<forall>t. good st t \<longrightarrow> good st' t)"
    and reserve_good: "inv st \<Longrightarrow> tp_reserve tp i wid timeout st = (Inr (Some t), st') \<Longrightarrow> good st' t"
begin

definition sound :: "'st system \<Rightarrow> bool" where
  "sound s \<longleftrightarrow> inv (sy_world s) \<and> (\<forall>i t. holds_task s i t \<longrightarrow> good (sy_world s) t)"

lemma soundI:
  assumes "sound s" "inv (sy_world s')" "\<And>t. good (sy_world s) t \<Longrightarrow> good (sy_world s') t"
    and "\<And>i t. holds_task s' i t \<Longrightarrow> holds_task s i t \<or> good (sy_world s') t"
  shows "sound s'"
  using assms unfolding sound_def by blast

lemma holds_node:
  assumes "holds_task (s\<lparr>sy_node := n, sy_mail := m\<rparr>) j t"
  shows "j < length (wr_consumers n) \<and> has_task (wr_consumers n ! j) t \<or> m j = Some (Polled (Inr (Some t)))"
  using assms by (auto simp: holds_task_def consumer_at_def)

lemma holds_consume:
  assumes "holds_task (s\<lparr>sy_node := consume u i ev (sy_node s), sy_mail := m\<rparr>) j t"
    and "\<And>t. ev = Polled (Inr (Some t)) \<Longrightarrow> sy_mail s i = Some ev"
    and "m j = Some (Polled (Inr (Some t))) \<Longrightarrow> sy_mail s j = m j"
  shows "holds_task s j t"
  using holds_node [OF assms(1)] consume_task [of j u i ev "sy_node s" t] assms(2,3)
  by (auto simp: holds_task_def consumer_at_def)

lemma step_sound:
  assumes "system_step u tp env s s'" "sound s"
  shows "sound s'"
  using assms
proof (induction rule: system_step.induct)
  case (world s st)
  then have "inv (sy_world s)" by (simp add: sound_def)
  from env_keeps [OF this world(1)] show ?case
    by (intro soundI [OF world(2)]) (auto simp: holds_task_def consumer_at_def)
next
  case (reserve s i inp ans st)
  have inv: "inv (sy_world s)" using reserve(3) by (simp add: sound_def)
  have "good st t" if "ans = Inr (Some t)" for t using reserve_good [OF inv] reserve(2) that by simp
  then show ?case
    using reserve_keeps [OF inv reserve(2)]
    by (intro soundI [OF reserve(3)])
      (auto simp: holds_task_def consumer_at_def answer_of_def split: if_splits sum.splits)
next
  case (report s i t res inp ans st)
  have "inv (sy_world s)" using report(3) by (simp add: sound_def)
  from report_keeps [OF this report(2)] show ?case
    by (intro soundI [OF report(3)]) (auto simp: holds_task_def consumer_at_def split: if_splits)
next
  case (lose ev x s i)
  then show ?case
    by (intro soundI [OF lose(2)]) (auto simp: sound_def holds_task_def consumer_at_def split: if_splits)
next
  case (deliver s i ev)
  have "holds_task s j t"
    if "holds_task (s\<lparr>sy_node := consume u i ev (sy_node s), sy_mail := (sy_mail s)(i := None)\<rparr>) j t" for j t
    using that by (rule holds_consume) (use deliver(1) in \<open>simp_all split: if_splits\<close>)
  then show ?case using deliver(2) by (intro soundI [OF deliver(2)]) (auto simp: sound_def)
next
  case (own ev s i)
  have "holds_task s j t" if "holds_task (s\<lparr>sy_node := consume u i ev (sy_node s)\<rparr>) j t" for j t
  proof (rule holds_consume [where s = s and u = u and i = i and ev = ev and m = "sy_mail s"])
    show "holds_task (s\<lparr>sy_node := consume u i ev (sy_node s), sy_mail := sy_mail s\<rparr>) j t"
      using that by (simp add: holds_task_def consumer_at_def)
  qed (use own(1) in auto)
  then show ?case using own(2) by (intro soundI [OF own(2)]) (auto simp: sound_def)
next
  case (heartbeat s inp ans st)
  have "inv (sy_world s)" using heartbeat(3) by (simp add: sound_def)
  from heartbeat_keeps [OF this heartbeat(2)] show ?case
    by (intro soundI [OF heartbeat(3)]) (auto simp: holds_task_def consumer_at_def)
next
  case (reregister s inp ans st)
  have "inv (sy_world s)" using reregister(3) by (simp add: sound_def)
  from register_keeps [OF this reregister(2)] show ?case
    by (intro soundI [OF reregister(3)]) (auto simp: holds_task_def consumer_at_def)
next
  case (drain s)
  have keep: "has_task (cancel_consumer c) t \<Longrightarrow> has_task c t" for c t by (cases c) (simp_all add: cancel_consumer_def)
  have "holds_task s i t" if h: "holds_task (s\<lparr>sy_node := begin_drain (sy_node s), sy_mail := (\<lambda>_. None)\<rparr>) i t" for i t
  proof -
    have i: "i < length (wr_consumers (sy_node s))" using holds_node [OF h] by (simp add: begin_drain_def Let_def)
    with holds_node [OF h] have "has_task (cancel_consumer (wr_consumers (sy_node s) ! i)) t"
      by (simp add: begin_drain_def Let_def)
    from keep [OF this] i show ?thesis unfolding holds_task_def consumer_at_def by blast
  qed
  then show ?case using drain(3) by (intro soundI [OF drain(3)]) (auto simp: sound_def)
qed (auto simp: sound_def holds_task_def consumer_at_def beat_def request_shutdown_def)

lemma start_holds_nothing: "\<not> has_task (wr_consumers (snd (start_run x (new_runtime nd cfg wid queues labels cap))) ! i) t
    \<or> length (wr_consumers (snd (start_run x (new_runtime nd cfg wid queues labels cap)))) \<le> i"
  by (cases x) (auto simp: start_run_def new_runtime_def Let_def loop_head_def)

lemma reachable_sound:
  assumes "system_reachable u tp env start s" and "\<And>st. start st \<Longrightarrow> inv st"
  shows "sound s"
  using assms(1)
proof (induction rule: system_reachable.induct)
  case (run st r nd cfg wid queues labels capacity inp st')
  have "inv st'" using register_keeps [OF assms(2) [OF run(1)] run(3)] by blast
  then show ?case
    using start_holds_nothing [of "Inr ()" nd cfg wid queues labels capacity]
    by (auto simp: sound_def holds_task_def consumer_at_def run(2) dest: leD)
next
  case (step s s')
  then show ?case by (blast intro: step_sound)
qed

end

text \<open>The node of a system is a worker runtime like any other.\<close>

lemma system_runtime:
  assumes "system_reachable u tp env start s"
  shows "runtime_reachable u (sy_node s)"
  using assms
proof (induction rule: system_reachable.induct)
  case (run st r nd cfg wid queues labels capacity inp st')
  show ?case unfolding run(2) system.simps by (rule runtime_reachable.start)
next
  case (step s s')
  have "sy_node s' = sy_node s \<or> runtime_step u (sy_node s) (sy_node s')"
    using step(2) by (cases rule: system_step.cases) (auto intro: runtime_step.intros)
  with step(3) show ?case by (auto intro: runtime_reachable.step)
qed

section \<open>Starting and ending\<close>

text \<open>
  \<open>run_worker\<close>: a new runtime that configures the log and registers; then its loops run, as the system's steps
  say.  A registration that fails is raised.
\<close>

definition run_worker ::
    "protobuf \<Rightarrow> settings \<Rightarrow> (call_input, engine) transport option \<Rightarrow> node \<Rightarrow> string option \<Rightarrow> string set option
     \<Rightarrow> string set option \<Rightarrow> int option \<Rightarrow> call_input \<Rightarrow> root_logger \<Rightarrow> engine
     \<Rightarrow> (exn + engine system) \<times> root_logger \<times> engine" where
  "run_worker pb cfg given nd wid queues labels capacity inp l st =
     (let r = new_runtime nd cfg wid queues labels capacity; l1 = configure_logging (st_log_level cfg) l
      in case tp_register_worker (run_transport pb cfg given) inp (wr_worker r) st of
           (Inl x, st1) \<Rightarrow> (Inl (raised x), l1, st1)
         | (Inr _, st1) \<Rightarrow>
             (Inr \<lparr>sy_world = st1, sy_node = snd (start_run (Inr ()) r), sy_mail = (\<lambda>_. None), sy_heart_mail = None\<rparr>,
              l1, st1))"

lemma run_worker_reachable:
  assumes "run_worker pb cfg given nd wid queues labels capacity inp l st = (Inr s, l1, st1)" "start st"
  shows "system_reachable u (run_transport pb cfg given) env start s"
  using assms by (auto simp: run_worker_def Let_def split: prod.splits sum.splits intro: system_reachable.run)

end
