(* ===== verification/Engine_Known.thy ===== *)
theory Engine_Known
  imports Engine_Gate
begin

text \<open>
  The scheduler never forgets a task: whatever step it takes, the ids it knows stay known.  This depends on the
  queue alone, so the steps of a handler that leave the queue alone do not matter.
\<close>

definition known :: "engine \<Rightarrow> string set" where
  "known e = dom (map_of (tasks (en_queue e)))"

definition grows :: "engine \<Rightarrow> engine \<Rightarrow> bool" where
  "grows e x \<longleftrightarrow> broker_inv (en_queue x) \<and> known e \<subseteq> known x"

lemma grows_refl: "engine_inv e \<Longrightarrow> grows e e"
  using engine_invD(1) [of e] by (simp add: grows_def)

lemma grows_queue: "grows e x \<Longrightarrow> en_queue y = en_queue x \<Longrightarrow> grows e y"
  by (simp add: grows_def known_def)

lemma grows_tasks: "grows e x \<Longrightarrow> broker_inv q \<Longrightarrow> tasks q = tasks (en_queue x) \<Longrightarrow> grows e (x\<lparr>en_queue := q\<rparr>)"
  by (simp add: grows_def known_def)

lemma grows_idle [simp]:
  "grows e (x\<lparr>en_store := s\<rparr>) = grows e x" "grows e (x\<lparr>en_bus := b\<rparr>) = grows e x"
  "grows e (x\<lparr>en_locks := m\<rparr>) = grows e x" "grows e (x\<lparr>en_workers := ws\<rparr>) = grows e x"
  "grows e (x\<lparr>en_wobjs := os\<rparr>) = grows e x" "grows e (x\<lparr>en_drain := d\<rparr>) = grows e x"
  "grows e (x\<lparr>en_results := rs\<rparr>) = grows e x" "grows e (x\<lparr>en_next := n\<rparr>) = grows e x"
  "grows e (x\<lparr>en_wnext := n\<rparr>) = grows e x" "grows e (x\<lparr>en_completed := c\<rparr>) = grows e x"
  "grows e (x\<lparr>en_background := bg\<rparr>) = grows e x" "grows e (x\<lparr>en_services := sv\<rparr>) = grows e x"
  "grows e (announce io h n ty p x) = grows e x" "grows e (log_outcome now r x) = grows e x"
  "grows e (snd (save_task now a res x)) = grows e x" "grows e (snd (save_worker wa x)) = grows e x"
  "grows e (upd_worker wa f x) = grows e x" "grows e (snd (release_worker wid x)) = grows e x"
  by (simp_all add: grows_def known_def announce_def log_outcome_def)

lemma grows_thread: "grows e x \<Longrightarrow> grows e (x\<lparr>en_queue := run_thread s (en_queue x)\<rparr>)"
  using threads.act_inv [of "en_queue x" s] threads.act_rely [of "en_queue x" s]
  by (auto simp: grows_def known_def thread_rely_def)

lemma grows_gap: "grows e x \<Longrightarrow> grows e (gap io n x)"
  using threads.run_inv [of "en_queue x" "io_threads io n"] threads.run_rely [of "en_queue x" "io_threads io n"]
  by (simp add: grows_def known_def gap_def thread_rely_def)

lemma grows_save_tasks: "grows e x \<Longrightarrow> grows e (snd (save_tasks io n as x))"
proof (induction as arbitrary: n x)
  case (Cons a as)
  have g: "grows e (snd (save_task (io_clk io n) a None (gap io n x)))" using grows_gap [OF Cons.prems] by simp
  show ?case
    unfolding save_tasks.simps by (rule call_then [where P = "grows e", OF g]) (rule Cons.IH)
qed simp

lemma grows_settle_task: "grows e x \<Longrightarrow> grows e (snd (settle_task io r x))"
proof -
  assume g: "grows e x"
  then have b: "broker_inv (en_queue x)" by (simp add: grows_def)
  have "grows e (x\<lparr>en_queue := snd (complete (tr_task_id r) st err (en_queue x))\<rparr>)" if "st \<in> {SUCCEEDED, CANCELLED}" for st err
    using that by (intro grows_tasks [OF g complete_inv [OF b]]) (auto simp: terminal_def complete_eq [OF b] split: option.split)
  moreover have "grows e (x\<lparr>en_queue := snd (retry clk (tr_task_id r) why (en_queue x))\<rparr>)" for clk why
    by (rule grows_tasks [OF g retry_inv [OF b] retry_tasks [OF b]])
  ultimately show ?thesis
    unfolding settle_task_def by (auto split: prod.split sum.split) (metis insertCI snd_conv)+
qed

lemma grows_report_result: "grows e x \<Longrightarrow> grows e (snd (report_result io r x))"
proof (cases "get (tr_task_id r) (en_queue x)")
  case (Inr a)
  assume g: "grows e x"
  show ?thesis
    unfolding report_result_def Inr sum.case Let_def
  proof (rule call_then [where P = "grows e"], goal_cases)
    case (2 y e1)
    show ?case
    proof (rule call_then [where P = "grows e"], goal_cases)
      case (2 z e2)
      obtain a ty where z: "z = (a, ty)" by (cases z)
      show ?case
        unfolding z prod.case
        by (rule call_then [where P = "grows e"]) (use 2(2) in \<open>simp_all add: grows_gap\<close>)
    qed (use 2(2) in \<open>simp add: grows_settle_task grows_gap\<close>)
  qed (use g in simp)
qed (simp add: report_result_def)

lemma grows_queue_call:
  assumes "\<And>q. p = (fst p, q) \<Longrightarrow> grows e (x\<lparr>en_queue := q\<rparr>)"
    and "\<And>y q. p = (Inr y, q) \<Longrightarrow> grows e (snd (f y q))"
  shows "grows e (snd (case p of (Inl z, q) \<Rightarrow> (Inl (g z), x\<lparr>en_queue := q\<rparr>) | (Inr y, q) \<Rightarrow> f y q))"
  using assms by (cases p; cases "fst p") auto

lemma grows_written:
  "grows e (x\<lparr>en_queue := q\<rparr>) \<Longrightarrow> (\<And>y e1. grows e e1 \<Longrightarrow> grows e (snd (f y e1))) \<Longrightarrow>
   grows e (snd (case save_task now a None (gap io 0 (x\<lparr>en_queue := q\<rparr>)) of (Inl z, e1) \<Rightarrow> (Inl z, e1) | (Inr y, e1) \<Rightarrow> f y e1))"
  by (rule call_then [where P = "grows e"]) (simp_all add: grows_gap)

lemma grows_cancel_task: "grows e x \<Longrightarrow> grows e (snd (cancel_task io tid x))"
proof -
  assume g: "grows e x"
  then have b: "broker_inv (en_queue x)" by (simp add: grows_def)
  have "tasks (snd (cancel tid (en_queue x))) = tasks (en_queue x)" using cancel_eq [OF b] by (simp split: option.split)
  then have q: "grows e (x\<lparr>en_queue := snd (cancel tid (en_queue x))\<rparr>)" by (rule grows_tasks [OF g cancel_inv [OF b]])
  show ?thesis
    unfolding cancel_task_def
    by (rule grows_queue_call, metis q snd_conv, rule grows_written) (use q in \<open>auto simp del: grows_idle(1)\<close>)
qed

lemma grows_retry_task: "grows e x \<Longrightarrow> grows e (snd (retry_task io tid x))"
proof -
  assume g: "grows e x"
  then have b: "broker_inv (en_queue x)" by (simp add: grows_def)
  have q: "grows e (x\<lparr>en_queue := snd (retry (io_clk io) tid ''manual retry'' (en_queue x))\<rparr>)"
    by (rule grows_tasks [OF g retry_inv [OF b] retry_tasks [OF b]])
  show ?thesis
    unfolding retry_task_def
    by (rule grows_queue_call, metis q snd_conv, rule grows_written) (use q in \<open>auto simp del: grows_idle(1)\<close>)
qed

section \<open>Handlers that submit\<close>

lemma grows_inv: "engine_inv x \<Longrightarrow> known e \<subseteq> known x \<Longrightarrow> grows e x"
  using engine_invD(1) [of x] by (simp add: grows_def)

lemma grows_submit_locked:
  assumes "engine_inv e" "fresh_hex (io_hex io 0) e"
  shows "grows e (snd (submit_locked io spec e))"
proof -
  let ?t = "new_envelope (io_hex io 0) (io_clk io) (normalized spec)"
  obtain a e1 where al: "alloc_task ?t e = (a, e1)" by (cases "alloc_task ?t e")
  note e1 = alloc_task_inv [OF assms(1) al]
  have "grows e e1" using e1(1,4) by (intro grows_inv) (simp_all add: known_def)
  moreover have "engine_inv (e1\<lparr>en_queue := snd (submit (later 2 (io_clk io)) a (en_queue e1))\<rparr>)"
    using assms(2) by (intro submitted_queue_inv [OF assms(1) _ al]) (simp add: fresh_hex_def)
  then have "grows e (e1\<lparr>en_queue := snd (submit (later 2 (io_clk io)) a (en_queue e1))\<rparr>)"
    using e1(4) by (intro grows_inv) (auto simp: known_def submit_fields)
  ultimately show ?thesis by (simp add: submit_locked_eq [OF al] Let_def grows_gap)
qed

lemma grows_submit_task:
  assumes "engine_inv e" "fresh_hex (io_hex io 0) e"
  shows "grows e (snd (submit_task io spec e))"
  by (rule submit_task_eq [OF assms(1), of io spec])
    (use grows_submit_locked [OF assms, of spec] in \<open>simp split: sum.split\<close>)

lemma grows_submit_batch:
  assumes "engine_inv e" "fresh_hexes io 0 (length ss) e"
  shows "grows e (snd (submit_batch io ss e))"
proof -
  obtain as e1 where al: "alloc_tasks io 0 ss e = (as, e1)" by (cases "alloc_tasks io 0 ss e")
  obtain r q where sm: "submit_many (later (2 * length ss) (io_clk io)) as (en_queue e1) = (r, q)" by fastforce
  have "tasks (en_queue e1) = tasks (en_queue e)" using alloc_tasks_spec [OF assms(1) al] by blast
  moreover have "dom (map_of (tasks (en_queue e1))) \<subseteq> dom (map_of (tasks q))"
    using submit_many_fields [of "en_queue e1" "later (2 * length ss) (io_clk io)" as] sm by simp
  moreover have "engine_inv (e1\<lparr>en_queue := q\<rparr>)"
    using submit_batch_queue_inv [OF assms al, of "later (2 * length ss) (io_clk io)"] sm by simp
  ultimately have g: "grows e (e1\<lparr>en_queue := q\<rparr>)" by (intro grows_inv) (simp_all add: known_def)
  have "grows e (snd (case save_tasks io n bs (e1\<lparr>en_queue := q\<rparr>) of
      (Inl x, e2) \<Rightarrow> (Inl x, e2)
    | (Inr _, e2) \<Rightarrow> (Inr bs, (announce io h k TASK_SUBMITTED p e2)\<lparr>en_drain := True\<rparr>)))" for n h k p bs
    by (rule call_then [where P = "grows e"]) (simp_all add: grows_save_tasks [OF g])
  then show ?thesis using al sm g by (cases r) (simp_all add: submit_batch_def Let_def)
qed

section \<open>The other handlers\<close>

lemma grows_register_worker: "grows e x \<Longrightarrow> grows e (snd (register_worker io w x))"
  unfolding register_worker_def Let_def
  by (rule call_then [where P = "grows e"]) simp_all

lemma grows_heartbeat: "grows e x \<Longrightarrow> grows e (snd (heartbeat io wid n x))"
  unfolding heartbeat_def Let_def
  by (cases "dict_get (en_workers x) wid")
    (simp, simp only: option.case, rule call_then [where P = "grows e"], simp_all)

lemma grows_reserve_finish: "grows e x \<Longrightarrow> grows e (snd (reserve_finish io wid wa a x))"
  unfolding reserve_finish_def Let_def
  by (rule call_then [where P = "grows e"], simp, rule call_then [where P = "grows e"])
    (simp_all add: grows_gap)

lemma grows_lease_reaper: "grows e x \<Longrightarrow> grows e (snd (lease_reaper_pass clk io x))"
  unfolding lease_reaper_pass_def
  by (rule grows_queue_call; use grows_thread [of e x "ThreadRequeue clk"] in \<open>metis grows_save_tasks run_thread.simps(2) snd_conv\<close>)

lemma grows_reap_workers: "grows e x \<Longrightarrow> grows e (snd (reap_workers now clk was x))"
proof (induction was arbitrary: clk x)
  case (Cons wa was)
  have "grows e (snd (case save_worker wa (upd_worker wa (\<lambda>w. w\<lparr>wi_status := OFFLINE\<rparr>) x) of
      (Inl y, e1) \<Rightarrow> (Inl y, e1)
    | (Inr _, e1) \<Rightarrow> reap_workers now (later 1 clk) was
        (e1\<lparr>en_store := mark_worker_offline (clk 0) (wi_worker_id (en_wobjs e1 wa)) (en_store e1)\<rparr>)))"
    by (rule call_then [where P = "grows e"]) (simp_all add: Cons)
  then show ?case using Cons by (simp del: later_apply)
qed simp

lemma grows_heartbeat_reaper: "grows e x \<Longrightarrow> grows e (snd (heartbeat_reaper_pass clk x))"
  by (simp add: heartbeat_reaper_pass_def grows_reap_workers)

lemma grows_snapshot:
  assumes "grows e x"
  shows "grows e (snd (take_snapshot now x))"
proof -
  have "grows e (x\<lparr>en_queue := snd (snapshot now (en_queue x))\<rparr>)"
    using assms by (intro grows_tasks snapshot_inv) (simp_all add: grows_def)
  then show ?thesis by (simp add: take_snapshot_def split: prod.split) (metis snd_conv)
qed

lemma grows_pressure_reporter: "grows e x \<Longrightarrow> grows e (pressure_reporter_pass io x)"
  using grows_snapshot [of e x "io_clk io 0"]
  by (cases "snapshot (io_clk io 0) (en_queue x)") (simp add: pressure_reporter_pass_def take_snapshot_def Let_def)

lemma engine_step_grows: "engine_step e e' \<Longrightarrow> engine_inv e \<Longrightarrow> grows e e'"
  by (induction rule: engine_step.induct)
    (simp_all add: grows_refl grows_submit_task grows_submit_batch grows_register_worker grows_heartbeat
      grows_thread grows_reserve_finish grows_report_result grows_cancel_task grows_retry_task
      start_background_services_def stop_background_services_def grows_heartbeat_reaper grows_lease_reaper grows_save_tasks
      grows_pressure_reporter grows_snapshot)

text \<open>What is known and what has completed only grow, along any run.\<close>

lemma engine_steps_grow:
  assumes "engine_step\<^sup>*\<^sup>* e e'" "engine_reachable e"
  shows "engine_reachable e' \<and> known e \<subseteq> known e' \<and> en_completed e \<subseteq> en_completed e'"
  using assms(1)
proof (induction rule: rtranclp_induct)
  case (step x y)
  have x: "engine_reachable x" "engine_inv x" using step.IH engine_reachable_inv by blast+
  have "known x \<subseteq> known y" using engine_step_grows [OF step(2) x(2)] by (simp add: grows_def)
  moreover have "en_completed x \<subseteq> en_completed y" using engine_step_completed [OF step(2) x(2)] by auto
  ultimately show ?case using step.IH engine_reachable.step [OF x(1) step(2)] by blast
qed (use assms(2) in simp)

end
