(* ===== verification/Node_Tasks.thy ===== *)
theory Node_Tasks
  imports Node Engine_Known
begin

text \<open>
  The tasks that reach a worker node from the scheduler, through its client: their dependencies have
  completed, and the scheduler knows them.
\<close>

section \<open>Calls as steps of the scheduler\<close>

lemma gap_steps: "engine_step\<^sup>*\<^sup>* e (gap io n e)"
proof -
  have "engine_step\<^sup>*\<^sup>* e (e\<lparr>en_queue := fold run_thread ss (en_queue e)\<rparr>)" for ss
  proof (induction ss arbitrary: e)
    case (Cons s ss)
    let ?e = "e\<lparr>en_queue := run_thread s (en_queue e)\<rparr>"
    have "engine_step\<^sup>*\<^sup>* ?e (?e\<lparr>en_queue := fold run_thread ss (en_queue ?e)\<rparr>)" by (rule Cons)
    moreover have "engine_step e ?e" by (rule engine_step.thread)
    ultimately show ?case by (simp add: converse_rtranclp_into_rtranclp)
  qed simp
  then show ?thesis by (simp add: gap_def)
qed

lemma step_then_gap: "engine_step e e' \<Longrightarrow> engine_step\<^sup>*\<^sup>* e (gap io n e')"
  by (rule converse_rtranclp_into_rtranclp [OF _ gap_steps])

lemma answer_task_steps:
  assumes "engine_step\<^sup>*\<^sup>* e e'"
  shows "engine_step\<^sup>*\<^sup>* e (snd (answer_task pb io n (r, e')))"
  using rtranclp_trans [OF assms gap_steps [of e' io n]] assms by (simp add: answer_state split: sum.split)

lemma client_call_state: "snd (client_call c req net decode st) \<in> {st} \<union> range (\<lambda>q. snd (net q st))"
  by (auto simp: client_call_def split: sum.split prod.split) (metis rangeI snd_conv)

lemma client_call_steps:
  "(\<And>q. engine_step\<^sup>*\<^sup>* e (snd (net q e))) \<Longrightarrow> engine_step\<^sup>*\<^sup>* e (snd (client_call c req net decode e))"
  using client_call_state [of c req net decode e] by auto

lemma register_steps: "engine_step\<^sup>*\<^sup>* e (snd (register_worker_rpc pb io m e))"
proof (cases "worker_from_proto (io_clk io) m")
  case (Inr w)
  let ?r = "register_worker (io\<lparr>io_clk := later 2 (io_clk io)\<rparr>) w e"
  have "engine_step e (snd ?r)" by (rule engine_step.register)
  then show ?thesis using Inr by (cases ?r; cases "fst ?r") (auto simp: register_worker_rpc_def)
qed (simp add: register_worker_rpc_def)

lemma heartbeat_steps: "engine_step\<^sup>*\<^sup>* e (snd (heartbeat_rpc pb io req e))"
proof -
  let ?r = "heartbeat io (fst req) (sint (snd req)) e"
  have "engine_step e (snd ?r)" by (rule engine_step.beat)
  then show ?thesis by (cases ?r; cases "fst ?r") (auto simp: heartbeat_rpc_def split: option.split)
qed

lemma report_steps: "engine_step\<^sup>*\<^sup>* e (snd (report_result_rpc pb io m e))"
proof (cases "result_from_proto m")
  case (Inr r)
  have "engine_step e (snd (report_result io r e))" by (rule engine_step.report)
  then have "engine_step\<^sup>*\<^sup>* e (snd (answer_task pb io 3 (fst (report_result io r e), snd (report_result io r e))))"
    by (intro answer_task_steps) simp
  then show ?thesis using Inr by (simp add: report_result_rpc_def)
qed (simp add: report_result_rpc_def)

section \<open>A poll\<close>

text \<open>The queue after a reservation in one turn is that after one poll by a thread.\<close>

lemma reserve_one_turn:
  assumes "tn_others n = (\<lambda>q. q)"
  shows "\<exists>completed \<subseteq> tn_completed n. \<exists>r. reserve start (Some done) lease timeout [n] q = (r, snd (reserve_poll (tn_clk n) (tn_order n) (tn_worker n) completed lease q))
    \<and> (\<forall>a. r = Some (Inr (Some a)) \<longrightarrow> fst (reserve_poll (tn_clk n) (tn_order n) (tn_worker n) completed lease q) = Inr (Some a))"
proof -
  let ?c = "if Some done \<noteq> None \<and> Some done \<noteq> Some {} then tn_completed n else {}"
  obtain x q1 where p: "reserve_poll (tn_clk n) (tn_order n) (tn_worker n) ?c lease q = (x, q1)" by fastforce
  show ?thesis
    using assms p by (intro exI [of _ ?c] conjI) (auto simp: reserve_def split: sum.split option.split)
qed

text \<open>What makes a task at \<open>a\<close> fit to be executed.\<close>

definition ready_task :: "engine \<Rightarrow> task_envelope \<Rightarrow> bool" where
  "ready_task e t \<longleftrightarrow> ts_depends_on (te_spec t) \<subseteq> en_completed e \<and> te_task_id t \<in> known e"

lemma ready_task_grows:
  "engine_step\<^sup>*\<^sup>* e e' \<Longrightarrow> engine_reachable e \<Longrightarrow> ready_task e t \<Longrightarrow> ready_task e' t"
  using engine_steps_grow by (fastforce simp: ready_task_def)

lemma ready_task_cong:
  "te_spec t' = te_spec t \<Longrightarrow> te_task_id t' = te_task_id t \<Longrightarrow> ready_task e t' = ready_task e t"
  by (simp add: ready_task_def)

lemma poll_ready:
  assumes inv: "engine_inv e" and "completed \<subseteq> en_completed e"
    and poll: "reserve_poll clk order w completed lease (en_queue e) = (Inr (Some a), q)"
  shows "ready_task (e\<lparr>en_queue := q\<rparr>) (objs q a)"
proof -
  note b = engine_invD(1) [OF inv]
  have q: "broker_inv q" using reserve_poll_inv [OF b, of clk order w completed lease] poll by simp
  have rely: "thread_rely (en_queue e) q" using poll_rely [OF b, of clk order w completed lease] poll by simp
  have "ts_depends_on (te_spec (objs q a)) \<subseteq> en_completed e"
    using reserve_poll_deps [OF b poll] assms(2) rely by (auto simp: thread_rely_def)
  moreover have "dict_get (inflight q) (te_task_id (objs q a)) = Some a" using reserve_poll_running [OF poll] by simp
  then have "dict_get (tasks q) (te_task_id (objs q a)) = Some a"
    using binvD(4) [OF q] by (simp add: alias_ok_def)
  ultimately show ?thesis by (auto simp: ready_task_def known_def)
qed

lemma reserve_finish_task:
  assumes "engine_inv e"
  shows "te_spec (task_at (snd (reserve_finish io wid wa a e)) b) = te_spec (task_at e b)
    \<and> te_task_id (task_at (snd (reserve_finish io wid wa a e)) b) = te_task_id (task_at e b)"
proof -
  let ?P = "\<lambda>x. engine_inv x \<and> te_spec (task_at x b) = te_spec (task_at e b) \<and> te_task_id (task_at x b) = te_task_id (task_at e b)"
  have idle: "?P (snd (save_worker wb x))" "?P (snd (save_task now c res x))" if "?P x" for x wb now c res
    using that by (auto simp: task_at_def intro: keeps_inv)
  have "?P (snd (reserve_finish io wid wa a e))"
    unfolding reserve_finish_def Let_def
  proof (rule call_then [where P = ?P], goal_cases)
    case 1
    show ?case
      by (rule idle) (use assms in \<open>auto simp: task_at_def intro!: upd_worker_inv\<close>)
  next
    case (2 y e1)
    then have "?P (gap io 0 e1)" using task_at_gap [of e1 io 0 b] gap_inv [of e1 io 0] by simp
    then show ?case
      by (intro call_then [where P = ?P] idle) (simp_all add: task_at_def announce_def)
  qed
  then show ?thesis by blast
qed


lemma reserve_task_steps:
  assumes "engine_reachable e" "tn_others n = (\<lambda>q. q)" "tn_completed n \<subseteq> en_completed e"
    and call: "reserve_task io wid timeout start [n] (\<lambda>e. e) e = (r, e1)"
  shows "engine_step\<^sup>*\<^sup>* e e1 \<and> (\<forall>a. r = Some (Inr (Some a)) \<longrightarrow> ready_task e1 (task_at e1 a))"
proof (cases "reserve_begin wid e")
  case (Some wa)
  obtain x q where x: "reserve start (Some (en_completed e)) (st_lease_seconds (en_config e)) (Some timeout) [n] (en_queue e) = (x, q)"
    by fastforce
  obtain completed where c: "completed \<subseteq> en_completed e"
    and q: "q = snd (reserve_poll (tn_clk n) (tn_order n) (tn_worker n) completed (st_lease_seconds (en_config e)) (en_queue e))"
    and some: "\<And>a. x = Some (Inr (Some a)) \<Longrightarrow>
      fst (reserve_poll (tn_clk n) (tn_order n) (tn_worker n) completed (st_lease_seconds (en_config e)) (en_queue e)) = Inr (Some a)"
    using reserve_one_turn [OF assms(2), of start "en_completed e" "st_lease_seconds (en_config e)" "Some timeout" "en_queue e"] x assms(3)
    by auto
  let ?e = "e\<lparr>en_queue := q\<rparr>"
  have step: "engine_step e ?e"
    using engine_step.thread [of e "ThreadPoll (tn_clk n) (tn_order n) (tn_worker n) completed (st_lease_seconds (en_config e))"] q
    by simp
  show ?thesis
  proof (cases "\<exists>a. x = Some (Inr (Some a))")
    case True
    then obtain a where a: "x = Some (Inr (Some a))" by blast
    have "reserve_poll (tn_clk n) (tn_order n) (tn_worker n) completed (st_lease_seconds (en_config e)) (en_queue e) = (Inr (Some a), q)"
      using some [OF a] q by (metis prod.collapse)
    then have ready: "ready_task ?e (task_at ?e a)"
      using poll_ready [OF engine_reachable_inv [OF assms(1)] c] by (simp add: task_at_def)
    have inv: "engine_inv ?e" by (rule engine_step_inv [OF step engine_reachable_inv [OF assms(1)]])
    have fin: "engine_step ?e (snd (reserve_finish io wid wa a ?e))" by (rule engine_step.finish)
    have res: "r = Some (fst (reserve_finish io wid wa a ?e))" "e1 = snd (reserve_finish io wid wa a ?e)"
      using call Some x a by (auto simp: reserve_task_def split: prod.splits)
    have "ready_task e1 (task_at e1 b)" if "r = Some (Inr (Some b))" for b
    proof -
      have "b = a" using res that reserve_finish_result [of io wid wa a ?e "Some b"] by (metis option.inject prod.collapse)
      moreover have "ready_task e1 (task_at ?e a)"
        unfolding res(2) using fin
        by (intro ready_task_grows [OF _ engine_reachable.step [OF assms(1) step] ready]) simp
      moreover have "ready_task e1 (task_at e1 a) = ready_task e1 (task_at ?e a)"
        using reserve_finish_task [OF inv, of io wid wa a a] unfolding res(2) by (intro ready_task_cong) blast+
      ultimately show ?thesis by simp
    qed
    moreover have "engine_step\<^sup>*\<^sup>* e e1"
      using converse_rtranclp_into_rtranclp [of engine_step, OF step r_into_rtranclp [of engine_step, OF fin]] res(2) by simp
    ultimately show ?thesis by blast
  next
    case False
    then have "e1 = ?e \<and> (\<forall>a. r \<noteq> Some (Inr (Some a)))"
      using call Some x by (auto simp: reserve_task_def split: option.splits sum.splits)
    then show ?thesis using step by auto
  qed
qed (use call in \<open>auto simp: reserve_task_def\<close>)

section \<open>The client as a source of tasks\<close>

text \<open>Encoding and decoding keep the id of a task and add no dependency.\<close>

lemma decoded_task:
  assumes "task_to_proto pb t = Inr m" "task_from_proto pb m = Inr t'"
  shows "te_task_id t' = te_task_id t" "ts_depends_on (te_spec t') \<subseteq> ts_depends_on (te_spec t)"
proof -
  have sub: "set (sorted_list_of_set A) \<subseteq> A" for A :: "string set"
    by (cases "finite A") simp_all
  obtain ms where ms: "spec_to_proto pb (te_spec t) = Inr ms" "mt_spec m = ms" "mt_task_id m = te_task_id t"
    using assms(1) by (auto simp: task_to_proto_def and_then_Inr)
  from ms(1) have "ms_depends_on ms = sorted_list_of_set (ts_depends_on (te_spec t))"
    by (auto simp: spec_to_proto_def and_then_Inr)
  moreover obtain s where s: "spec_from_proto pb ms = Inr s" "te_spec t' = s" "te_task_id t' = mt_task_id m"
    using assms(2) ms(2) by (auto simp: task_from_proto_def and_then_Inr)
  moreover from s(1) have "ts_depends_on s = set (ms_depends_on ms)"
    by (auto simp: spec_from_proto_def normalized_def and_then_Inr)
  ultimately show "te_task_id t' = te_task_id t" "ts_depends_on (te_spec t') \<subseteq> ts_depends_on (te_spec t)"
    using ms(3) sub by simp_all
qed

lemma live_turn_fields [simp]: "tn_others (live_turn i wid e) = (\<lambda>q. q)" "tn_completed (live_turn i wid e) \<subseteq> en_completed e"
  by (simp_all add: live_turn_def)

lemma reserve_rpc_steps:
  assumes "engine_reachable e" "reserve_task_rpc pb io start [live_turn i wid e] (\<lambda>e. e) req e = (r, e1)"
  shows "engine_step\<^sup>*\<^sup>* e e1
    \<and> (\<forall>m. r = Some (Inr (Some m)) \<longrightarrow> (\<exists>t. ready_task e1 t \<and> task_to_proto pb t = Inr m))"
proof -
  obtain x e0 where x: "reserve_task io (fst req) (or_number (snd req) 1) start [live_turn i wid e] (\<lambda>e. e) e = (x, e0)"
    by fastforce
  note t = reserve_task_steps [OF assms(1) live_turn_fields x]
  have r0: "engine_reachable e0" using engine_steps_grow [OF _ assms(1)] t by blast
  show ?thesis
  proof (cases "\<exists>a. x = Some (Inr (Some a))")
    case True
    then obtain a where a: "x = Some (Inr (Some a))" by blast
    let ?e = "gap io 1 e0"
    have "ready_task ?e (task_at ?e a)"
      using ready_task_grows [OF gap_steps r0, of "task_at e0 a" io 1] t a
        ready_task_cong [OF task_at_gap [OF engine_reachable_inv [OF r0], of io 1 a]] by simp
    moreover have "e1 = ?e" "r = Some (and_then (codec_result (task_to_proto pb (task_at ?e a))) (\<lambda>m. Inr (Some m)))"
      using assms(2) x a by (auto simp: reserve_task_rpc_def answer_task_def Let_def split: prod.splits)
    moreover have "engine_step\<^sup>*\<^sup>* e ?e" using t gap_steps [of e0 io 1] by auto
    ultimately show ?thesis by (cases "task_to_proto pb (task_at ?e a)") auto
  next
    case False
    then have "e1 = e0 \<and> (\<forall>m. r \<noteq> Some (Inr (Some m)))"
      using assms(2) x by (auto simp: reserve_task_rpc_def split: option.splits sum.splits)
    then show ?thesis using t by blast
  qed
qed

lemma client_reserve_steps:
  assumes "engine_reachable e" "tp_reserve (client_transport pb c) i wid timeout e = (r, e1)"
  shows "engine_step\<^sup>*\<^sup>* e e1 \<and> (\<forall>t. r = Inr (Some t) \<longrightarrow> ready_task e1 t)"
proof -
  obtain x e0 where x: "reserve_task_rpc pb (ci_io i) (ci_start i) [live_turn i wid e] (\<lambda>e. e) (wid, timeout) e = (x, e0)"
    by fastforce
  note t = reserve_rpc_steps [OF assms(1) x]
  show ?thesis
  proof (cases "client_stub c")
    case (Inr u)
    have e1: "e1 = e0" using assms(2) x Inr
      by (auto simp: client_transport_def client_reserve_def client_call_def reserve_net_def split: option.splits)
    moreover have "ready_task e0 t'" if "r = Inr (Some t')" for t'
    proof -
      from that assms(2) x Inr obtain m where m: "x = Some (Inr (Some m))" "task_from_proto pb m = Inr t'"
        by (auto simp: client_transport_def client_reserve_def client_call_def reserve_net_def codec_result_def and_then_def
            split: option.splits sum.splits)
      then obtain t0 where "ready_task e0 t0" "task_to_proto pb t0 = Inr m" using t by blast
      with decoded_task [OF this(2) m(2)] show ?thesis by (auto simp: ready_task_def)
    qed
    ultimately show ?thesis using t by blast
  qed (use assms(2) in \<open>auto simp: client_transport_def client_reserve_def client_call_def\<close>)
qed

text \<open>The client keeps the contract of a transport, whatever else happens at the scheduler.\<close>

lemma client_steps:
  "engine_step\<^sup>*\<^sup>* e (snd (tp_register_worker (client_transport pb c) i w e))"
  "engine_step\<^sup>*\<^sup>* e (snd (tp_heartbeat (client_transport pb c) i wid n e))"
  "engine_step\<^sup>*\<^sup>* e (snd (tp_report_result (client_transport pb c) i res e))"
  unfolding client_transport_def transport.simps client_register_worker_def client_heartbeat_def client_report_result_def
  by (rule client_call_steps, rule register_steps heartbeat_steps report_steps)+

lemma call_keeps:
  "engine_step\<^sup>*\<^sup>* e e' \<Longrightarrow> engine_reachable e \<Longrightarrow> engine_reachable e' \<and> (\<forall>t. ready_task e t \<longrightarrow> ready_task e' t)"
  using engine_steps_grow ready_task_grows by blast

interpretation client: task_source "client_transport pb c" engine_step engine_reachable ready_task for pb c
proof
  fix st st' :: engine and i :: call_input and w wid n timeout res a1 a2 a3 a4 t
  assume st: "engine_reachable st"
  note keep = call_keeps [OF _ st]
  show "engine_step st st' \<Longrightarrow> engine_reachable st' \<and> (\<forall>t. ready_task st t \<longrightarrow> ready_task st' t)"
    by (rule keep) simp
  show "tp_register_worker (client_transport pb c) i w st = (a1, st') \<Longrightarrow>
      engine_reachable st' \<and> (\<forall>t. ready_task st t \<longrightarrow> ready_task st' t)"
    using keep [OF client_steps(1) [where pb = pb and c = c and i = i]] by (metis snd_conv)
  show "tp_heartbeat (client_transport pb c) i wid n st = (a2, st') \<Longrightarrow>
      engine_reachable st' \<and> (\<forall>t. ready_task st t \<longrightarrow> ready_task st' t)"
    using keep [OF client_steps(2) [where pb = pb and c = c and i = i]] by (metis snd_conv)
  show "tp_report_result (client_transport pb c) i res st = (a4, st') \<Longrightarrow>
      engine_reachable st' \<and> (\<forall>t. ready_task st t \<longrightarrow> ready_task st' t)"
    using keep [OF client_steps(3) [where pb = pb and c = c and i = i]] by (metis snd_conv)
  show "tp_reserve (client_transport pb c) i wid timeout st = (a3, st') \<Longrightarrow>
      engine_reachable st' \<and> (\<forall>t. ready_task st t \<longrightarrow> ready_task st' t)"
    using client_reserve_steps [OF st] keep by blast
  show "tp_reserve (client_transport pb c) i wid timeout st = (Inr (Some t), st') \<Longrightarrow> ready_task st' t"
    using client_reserve_steps [OF st] by blast
qed

section \<open>The property\<close>

text \<open>
  C4. A worker node that works for the scheduler through the client, while other clients, threads and the
  background services step in, answers are lost and the node is stopped at any time: every task that is on
  its way to one of its consumers or that the node executes is known to the scheduler, and all
  the tasks it depends on have completed there.
\<close>
theorem executed_after_dependencies:
  assumes "system_reachable u (client_transport pb c) engine_step engine_reachable s" and "holds_task s i t"
  shows "ts_depends_on (te_spec t) \<subseteq> en_completed (sy_world s)
    \<and> dict_get (tasks (en_queue (sy_world s))) (te_task_id t) \<noteq> None"
  using client.reachable_sound [OF assms(1)] assms(2)
  by (fastforce simp: client.sound_def ready_task_def known_def)

text \<open>A node with one slot gets a task whose only dependency has just succeeded.\<close>

definition demo_input :: call_input where
  "demo_input = \<lparr>ci_io = quiet 15 demo_hex, ci_live = True, ci_clk = (\<lambda>_. 20), ci_order = [''default''],
     ci_start = 0, ci_monotonic = 0\<rparr>"

definition demo_client :: scheduler_client where
  "demo_client = enter_client (new_client demo_settings None)"

definition demo_message :: worker_message where
  "demo_message = (case worker_to_proto demo_protobuf (wr_worker demo_idle) of Inr m \<Rightarrow> m)"

definition demo_join :: "engine \<Rightarrow> engine system" where
  "demo_join e = \<lparr>sy_world = snd (register_worker_rpc demo_protobuf (ci_io demo_input) demo_message e),
     sy_node = demo_idle, sy_mail = (\<lambda>_. None), sy_heart_mail = None\<rparr>"

definition demo_joined :: "engine system" where
  "demo_joined = demo_join demo_dependent"

definition demo_reservation :: "(rpc_error + task_message option) option \<times> engine" where
  "demo_reservation = reserve_task_rpc demo_protobuf (ci_io demo_input) (ci_start demo_input)
     [live_turn demo_input ''worker-abc'' (sy_world demo_joined)] (\<lambda>e. e) (''worker-abc'', 1) (sy_world demo_joined)"

definition demo_received :: task_envelope where
  "demo_received = (case fst demo_reservation of Some (Inr (Some m)) \<Rightarrow> case task_from_proto demo_protobuf m of Inr t \<Rightarrow> t)"

definition demo_served :: "engine system" where
  "demo_served = demo_joined\<lparr>sy_world := snd demo_reservation,
     sy_mail := (sy_mail demo_joined)(0 := Some (Polled (answer_of (Inr (Some demo_received)))))\<rparr>"

lemma demo_join_reachable:
  assumes e: "engine_reachable e"
    and ok: "case fst (register_worker_rpc demo_protobuf (ci_io demo_input) demo_message e) of Inl x \<Rightarrow> False | Inr x \<Rightarrow> True"
  shows "system_reachable u (client_transport demo_protobuf demo_client) engine_step engine_reachable (demo_join e)"
proof -
  let ?w = "wr_worker (new_runtime demo_node (default_settings (Some 2)) None None None (Some 1))"
  have "wr_worker demo_idle = ?w" by code_simp
  moreover have "case worker_to_proto demo_protobuf (wr_worker demo_idle) of Inl x \<Rightarrow> False | Inr m \<Rightarrow> True" by code_simp
  ultimately have m: "worker_to_proto demo_protobuf ?w = Inr demo_message"
    by (auto simp: demo_message_def split: sum.splits)
  have "tp_register_worker (client_transport demo_protobuf demo_client) demo_input ?w e = (Inr (), sy_world (demo_join e))"
    using ok by (auto simp: client_transport_def client_register_worker_def client_call_def m demo_client_def demo_join_def
        split: sum.splits prod.split)
  with e show ?thesis
    using system_reachable.run [OF _ refl, of engine_reachable e "client_transport demo_protobuf demo_client"]
    unfolding demo_join_def demo_idle_def system.simps by blast
qed

lemma demo_joined_reachable:
  "system_reachable u (client_transport demo_protobuf demo_client) engine_step engine_reachable demo_joined"
  unfolding demo_joined_def
proof (rule demo_join_reachable)
  show "engine_reachable demo_dependent"
    using engine_steps_grow [OF demo_dependent_run demo_engine_reachable] by blast
qed code_simp

lemma demo_reservation_task:
  "\<exists>m. fst demo_reservation = Some (Inr (Some m)) \<and> task_from_proto demo_protobuf m = Inr demo_received
     \<and> ''task-0'' \<in> ts_depends_on (te_spec demo_received)"
proof -
  have "case fst demo_reservation of
      Some (Inr (Some m)) \<Rightarrow> (case task_from_proto demo_protobuf m of Inr t \<Rightarrow> ''task-0'' \<in> ts_depends_on (te_spec t) | _ \<Rightarrow> False)
    | _ \<Rightarrow> False" by code_simp
  then show ?thesis by (auto simp: demo_received_def split: option.splits sum.splits)
qed

lemma demo_served_reachable:
  "system_reachable u (client_transport demo_protobuf demo_client) engine_step engine_reachable demo_served"
proof (rule system_reachable.step [OF demo_joined_reachable])
  have "wr_consumers demo_idle = [Polling]" "wi_worker_id (wr_worker demo_idle) = ''worker-abc''" by code_simp+
  then have idle: "consumer_at demo_joined 0 Polling" "wi_worker_id (wr_worker (sy_node demo_joined)) = ''worker-abc''"
    by (simp_all add: consumer_at_def demo_joined_def demo_join_def)
  from demo_reservation_task have "tp_reserve (client_transport demo_protobuf demo_client) demo_input
      (wi_worker_id (wr_worker (sy_node demo_joined))) 1 (sy_world demo_joined) = (Inr (Some demo_received), snd demo_reservation)"
    by (cases demo_reservation) (auto simp: demo_reservation_def idle(2) client_transport_def client_reserve_def client_call_def
        reserve_net_def demo_client_def)
  with idle(1) show "system_step u (client_transport demo_protobuf demo_client) engine_step demo_joined demo_served"
    unfolding demo_served_def by (rule system_step.reserve)
qed

theorem executed_after_dependencies_witness:
  "holds_task demo_served 0 demo_received \<and> ''task-0'' \<in> ts_depends_on (te_spec demo_received)
     \<and> ts_depends_on (te_spec demo_received) \<subseteq> en_completed (sy_world demo_served)"
proof -
  have held: "holds_task demo_served 0 demo_received" by (simp add: holds_task_def demo_served_def answer_of_def)
  with demo_reservation_task executed_after_dependencies [OF demo_served_reachable held] show ?thesis by blast
qed

end
