(* ===== verification/Node_Work.thy ===== *)
theory Node_Work
  imports Node_Tasks
begin

text \<open>
  The way of a task from the queue to a worker's consumer in one piece: a poll over client, service and
  scheduler delivers the best task that waits for the worker.
\<close>

section \<open>Tasks that wait for a worker\<close>

text \<open>What the poll of worker object \<open>w\<close> at the time \<open>now\<close> may be answered with.\<close>

definition could_run :: "seconds \<Rightarrow> worker_info \<Rightarrow> engine \<Rightarrow> string \<Rightarrow> addr \<Rightarrow> bool" where
  "could_run now w e tid a \<longleftrightarrow> dict_get (tasks (en_queue e)) tid = Some a
     \<and> te_status (task_at e a) \<in> {QUEUED, RETRYING} \<and> tid \<notin> cancelled (en_queue e)
     \<and> te_available_at (task_at e a) \<le> now \<and> accepts w (task_at e a)
     \<and> ts_depends_on (te_spec (task_at e a)) \<subseteq> en_completed e"

text \<open>Every known task fits into a message, and so into its row.\<close>

definition tasks_sendable :: "engine \<Rightarrow> bool" where
  "tasks_sendable e \<longleftrightarrow> (\<forall>tid a. dict_get (tasks (en_queue e)) tid = Some a \<longrightarrow> task_sendable (task_at e a))"

lemma int32_int64: "int32_range n \<Longrightarrow> int64 n"
  by (simp add: int32_range_def int64_def)

lemma sendable_fits: "task_sendable t \<Longrightarrow> task_fits t"
  by (simp add: task_sendable_def task_fits_def int32_int64)

lemma sendable_cong:
  "te_spec t' = te_spec t \<Longrightarrow> te_attempts t' = te_attempts t \<Longrightarrow> task_sendable t' = task_sendable t"
  by (simp add: task_sendable_def)

section \<open>Reserving\<close>

text \<open>A poll with its worker's queues: it finds a task when one could run, and then the best one.\<close>

lemma engine_poll:
  assumes inv: "engine_inv e" and could: "could_run (clk 0) w e tid b" and order: "set order = wi_queues w"
  shows "\<exists>a q. reserve_poll clk order w (en_completed e) lease (en_queue e) = (Inr (Some a), q)
    \<and> dict_get (tasks (en_queue e)) (te_task_id (task_at e a)) = Some a \<and> accepts w (task_at e a)
    \<and> dict_get (inflight q) (te_task_id (task_at e a)) = Some a
    \<and> objs q a = (task_at e a)\<lparr>te_status := RUNNING, te_assigned_worker := Some (wi_worker_id w),
        te_lease_deadline := Some (clk 1 + lease)\<rparr>
    \<and> (\<forall>tid b. could_run (clk 0) w e tid b \<longrightarrow>
         (ts_priority (te_spec (task_at e a)), te_created_at (task_at e a))
           \<le> (ts_priority (te_spec (task_at e b)), te_created_at (task_at e b)))"
proof -
  note b = engine_invD(1) [OF inv]
  from poll_some [OF b, of tid b clk w "en_completed e" order lease] could order obtain a q where
    p: "reserve_poll clk order w (en_completed e) lease (en_queue e) = (Inr (Some a), q)"
    by (auto simp: could_run_def task_at_def)
  note best = poll_best [OF b p order]
  obtain t where t: "dict_get (tasks (en_queue e)) t = Some a" "dict_get (inflight q) t = Some a" using best by blast
  with task_id_of [OF b t(1)] p best show ?thesis by (auto simp: could_run_def task_at_def)
qed

text \<open>What reserving does to the worker's record.\<close>

definition loaded :: "worker_info \<Rightarrow> worker_info" where
  "loaded w = w\<lparr>wi_running_tasks := wi_running_tasks w + 1, wi_status := BUSY\<rparr>"

lemma reserve_finish_ok:
  assumes quiet: "io_threads io = (\<lambda>_. [])" and worker: "worker_fits (loaded (en_wobjs e wa))" and task: "task_fits (task_at e a)"
  obtains e' where "reserve_finish io wid wa a e = (Inr (Some a), e')" and "en_queue e' = en_queue e"
    and "en_workers e' = en_workers e" and "en_wobjs e' = (en_wobjs e)(wa := loaded (en_wobjs e wa))"
proof -
  define e1 where "e1 = upd_worker wa (\<lambda>w. w\<lparr>wi_running_tasks := wi_running_tasks w + 1, wi_status := BUSY\<rparr>) e"
  have "worker_fits (en_wobjs e1 wa)" using worker by (simp add: e1_def loaded_def)
  then obtain e2 where e2: "save_worker wa e1 = (Inr (), e2)" using save_worker_ok by (metis prod.collapse)
  have f2: "en_queue e2 = en_queue e" "en_workers e2 = en_workers e" "en_wobjs e2 = (en_wobjs e)(wa := loaded (en_wobjs e wa))"
    using save_worker_queue [of wa e1] save_worker_fields(1,5) [of wa e1] unfolding e2 snd_conv
    by (simp_all add: e1_def loaded_def)
  then have "task_fits (task_at (gap io 0 e2) a)" using quiet task by (simp add: gap_quiet task_at_def)
  then obtain e3 where e3: "save_task (io_clk io 0) a None (gap io 0 e2) = (Inr (), e3)"
    using save_task_ok(1) by (metis prod.collapse)
  then have f3: "en_queue e3 = en_queue e2" "en_workers e3 = en_workers e2" "en_wobjs e3 = en_wobjs e2"
    using save_task_eq [of "io_clk io 0" a None "gap io 0 e2"] quiet by (simp_all add: gap_quiet)
  show ?thesis
    by (rule that [of "snd (reserve_finish io wid wa a e)"]) (use f2 f3 in \<open>simp_all add: reserve_finish_def Let_def e1_def [symmetric] e2 e3 announce_def\<close>)
qed

text \<open>The whole call at the scheduler, in one turn.\<close>

lemma reserve_task_best:
  assumes inv: "engine_inv e" and wa: "dict_get (en_workers e) wid = Some wa" and io: "io_threads io = (\<lambda>_. [])"
    and fits: "worker_fits (loaded (en_wobjs e wa))"
    and send: "tasks_sendable e" and order: "set order = wi_queues (en_wobjs e wa)"
    and could: "could_run (clk 0) (en_wobjs e wa) e tid b"
    and turn: "n = \<lparr>tn_clk = clk, tn_order = order, tn_worker = en_wobjs e wa, tn_completed = en_completed e,
      tn_monotonic = now, tn_others = (\<lambda>q. q)\<rparr>"
  shows "\<exists>a e'. reserve_task io wid timeout start [n] (\<lambda>e. e) e = (Some (Inr (Some a)), e')
    \<and> dict_get (tasks (en_queue e)) (te_task_id (task_at e a)) = Some a \<and> accepts (en_wobjs e wa) (task_at e a)
    \<and> task_at e' a = (task_at e a)\<lparr>te_status := RUNNING, te_assigned_worker := Some wid,
        te_lease_deadline := Some (clk 1 + st_lease_seconds (en_config e))\<rparr>
    \<and> dict_get (inflight (en_queue e')) (te_task_id (task_at e' a)) = Some a
    \<and> task_sendable (task_at e' a)
    \<and> en_workers e' = en_workers e \<and> en_wobjs e' wa = loaded (en_wobjs e wa)
    \<and> (\<forall>tid b. could_run (clk 0) (en_wobjs e wa) e tid b \<longrightarrow>
         (ts_priority (te_spec (task_at e a)), te_created_at (task_at e a))
           \<le> (ts_priority (te_spec (task_at e b)), te_created_at (task_at e b)))"
proof -
  let ?w = "en_wobjs e wa" and ?lease = "st_lease_seconds (en_config e)"
  from engine_poll [where clk = clk and w = ?w and order = order and lease = ?lease, OF inv could order] obtain a q where
    p: "reserve_poll clk order ?w (en_completed e) ?lease (en_queue e) = (Inr (Some a), q)"
    and at: "dict_get (tasks (en_queue e)) (te_task_id (task_at e a)) = Some a" "accepts ?w (task_at e a)"
    and fl: "dict_get (inflight q) (te_task_id (task_at e a)) = Some a"
    and obj: "objs q a = (task_at e a)\<lparr>te_status := RUNNING, te_assigned_worker := Some (wi_worker_id ?w),
        te_lease_deadline := Some (clk 1 + ?lease)\<rparr>"
    and best: "\<forall>tid b. could_run (clk 0) ?w e tid b \<longrightarrow>
         (ts_priority (te_spec (task_at e a)), te_created_at (task_at e a))
           \<le> (ts_priority (te_spec (task_at e b)), te_created_at (task_at e b))" by blast
  have wid: "wi_worker_id ?w = wid" using engine_invD(5) [OF inv] wa by (simp add: workers_ok_def)
  have started: "reserve_begin wid e = Some wa" using wa could by (auto simp: reserve_begin_def could_run_def accepts_def)
  let ?e = "e\<lparr>en_queue := q\<rparr>"
  have "(if en_completed e \<noteq> {} then en_completed e else {}) = en_completed e" by simp
  then have r: "reserve start (Some (en_completed e)) ?lease (Some timeout) [n] (en_queue e) = (Some (Inr (Some a)), q)"
    using p by (cases "en_completed e = {}") (simp_all add: reserve_def turn)
  have s: "task_sendable (objs q a)"
    using send at(1) unfolding obj tasks_sendable_def by (metis (no_types, lifting) sendable_cong task_envelope.ext_inject task_envelope.surjective task_envelope.update_convs)
  obtain e' where e': "reserve_finish io wid wa a ?e = (Inr (Some a), e')" and queue: "en_queue e' = q"
    and workers: "en_workers e' = en_workers e" "en_wobjs e' wa = loaded ?w"
    by (rule reserve_finish_ok [OF io, of ?e wa a wid])
      (use fits sendable_fits [OF s] in \<open>simp_all add: task_at_def\<close>)
  show ?thesis
    using started r e' queue workers s obj fl best wid at
    by (intro exI [of _ a] exI [of _ e']) (simp add: reserve_task_def task_at_def)
qed

text \<open>And over the wire: what the consumer gets.\<close>

lemma reserve_delivers:
  assumes "protobuf_ok pb" and "engine_reachable e" and wa: "dict_get (en_workers e) wid = Some wa"
    and "worker_fits (loaded (en_wobjs e wa))"
    and "tasks_sendable e" and "could_run (ci_clk i 0) (en_wobjs e wa) e tid b"
    and "set (ci_order i) = wi_queues (en_wobjs e wa)" and "ci_live i" and quiet: "io_threads (ci_io i) = (\<lambda>_. [])" and "timeout \<noteq> 0"
  obtains a p e' where "tp_reserve (client_transport pb (enter_client c)) i wid timeout e
        = (Inr (Some (carried_task p (task_at e' a))), e')"
    and "mset p = mset (ts_payload (te_spec (task_at e a)))"
    and "task_at e' a = (task_at e a)\<lparr>te_status := RUNNING, te_assigned_worker := Some wid,
        te_lease_deadline := Some (ci_clk i 1 + st_lease_seconds (en_config e))\<rparr>"
    and "dict_get (inflight (en_queue e')) (te_task_id (task_at e' a)) = Some a"
    and "\<forall>tid b. could_run (ci_clk i 0) (en_wobjs e wa) e tid b \<longrightarrow>
         (ts_priority (te_spec (task_at e a)), te_created_at (task_at e a))
           \<le> (ts_priority (te_spec (task_at e b)), te_created_at (task_at e b))"
    and "dict_get (tasks (en_queue e)) (te_task_id (task_at e a)) = Some a" and "accepts (en_wobjs e wa) (task_at e a)"
    and "task_sendable (task_at e' a)" and "en_workers e' = en_workers e" and "en_wobjs e' wa = loaded (en_wobjs e wa)"
proof -
  have turn: "live_turn i wid e = \<lparr>tn_clk = ci_clk i, tn_order = ci_order i, tn_worker = en_wobjs e wa,
      tn_completed = en_completed e, tn_monotonic = ci_monotonic i, tn_others = (\<lambda>q. q)\<rparr>"
    using wa assms(8) by (simp add: live_turn_def)
  from reserve_task_best [OF engine_reachable_inv [OF assms(2)] wa quiet assms(4,5,7,6) turn, of timeout "ci_start i"]
  obtain a e' where at: "dict_get (tasks (en_queue e)) (te_task_id (task_at e a)) = Some a" "accepts (en_wobjs e wa) (task_at e a)"
    and r: "reserve_task (ci_io i) wid timeout (ci_start i) [live_turn i wid e] (\<lambda>e. e) e = (Some (Inr (Some a)), e')"
    and obj: "task_at e' a = (task_at e a)\<lparr>te_status := RUNNING, te_assigned_worker := Some wid,
        te_lease_deadline := Some (ci_clk i 1 + st_lease_seconds (en_config e))\<rparr>"
    and rest: "dict_get (inflight (en_queue e')) (te_task_id (task_at e' a)) = Some a"
      "\<forall>tid b. could_run (ci_clk i 0) (en_wobjs e wa) e tid b \<longrightarrow>
         (ts_priority (te_spec (task_at e a)), te_created_at (task_at e a))
           \<le> (ts_priority (te_spec (task_at e b)), te_created_at (task_at e b))"
    and send: "task_sendable (task_at e' a)" and worker: "en_workers e' = en_workers e" "en_wobjs e' wa = loaded (en_wobjs e wa)"
    by blast
  have gap: "gap (ci_io i) 1 e' = e'" by (rule gap_quiet) (simp add: quiet)
  obtain p where p: "mset p = mset (ts_payload (te_spec (task_at e' a)))"
    "and_then (fst (answer_task pb (ci_io i) 1 (Inr a, e'))) (\<lambda>m. codec_result (task_from_proto pb m))
      = Inr (carried_task p (task_at e' a))"
    using answer_decoded [OF assms(1), of "ci_io i" 1 e' a] send gap by auto
  obtain m where m: "answer_task pb (ci_io i) 1 (Inr a, e') = (Inr m, e')" "codec_result (task_from_proto pb m) = Inr (carried_task p (task_at e' a))"
    using p(2) gap by (auto simp: answer_task_def Let_def and_then_Inr)
  have "task_from_proto pb m = Inr (carried_task p (task_at e' a))"
    using m(2) by (cases "task_from_proto pb m") simp_all
  then have "tp_reserve (client_transport pb (enter_client c)) i wid timeout e = (Inr (Some (carried_task p (task_at e' a))), e')"
    using r m(1) assms(10)
    by (simp add: client_transport_def client_reserve_def client_call_def reserve_net_def reserve_task_rpc_def or_number_def)
  from that [OF this] p(1) obj rest at send worker show ?thesis by simp
qed

text \<open>
  C6. Work reaches a worker: when a task waits that a registered worker could run, all known tasks fit into a
  message and no thread steps in, then a poll through client and service is answered with a task.  It is the one
  that comes first in the order of priority and age among those the worker could run, as it is decoded at the
  worker, and at the scheduler it is now running, in flight and leased to that worker.
\<close>
theorem work_reaches_worker:
  assumes "protobuf_ok pb" and "engine_reachable e" and "dict_get (en_workers e) wid = Some wa"
    and "worker_fits (loaded (en_wobjs e wa))"
    and "tasks_sendable e" and "could_run (ci_clk i 0) (en_wobjs e wa) e tid b"
    and "set (ci_order i) = wi_queues (en_wobjs e wa)" and "ci_live i" and "io_threads (ci_io i) = (\<lambda>_. [])" and "timeout \<noteq> 0"
  shows "\<exists>a p e'. tp_reserve (client_transport pb (enter_client c)) i wid timeout e
        = (Inr (Some (carried_task p (task_at e' a))), e')
    \<and> mset p = mset (ts_payload (te_spec (task_at e a)))
    \<and> task_at e' a = (task_at e a)\<lparr>te_status := RUNNING, te_assigned_worker := Some wid,
        te_lease_deadline := Some (ci_clk i 1 + st_lease_seconds (en_config e))\<rparr>
    \<and> dict_get (inflight (en_queue e')) (te_task_id (task_at e' a)) = Some a
    \<and> (\<forall>tid b. could_run (ci_clk i 0) (en_wobjs e wa) e tid b \<longrightarrow>
         (ts_priority (te_spec (task_at e a)), te_created_at (task_at e a))
           \<le> (ts_priority (te_spec (task_at e b)), te_created_at (task_at e b)))"
  by (rule reserve_delivers [OF assms, of c]) blast

text \<open>One task waits, and a node of one slot has just joined.\<close>

definition demo_manned :: "engine system" where
  "demo_manned = demo_join demo_submitted"

lemma demo_manned_worker:
  "dict_get (en_workers (sy_world demo_manned)) ''worker-abc'' = Some 0"
  "wi_worker_id (wr_worker (sy_node demo_manned)) = ''worker-abc''"
  "wi_queues (en_wobjs (sy_world demo_manned) 0) = {''default''}"
  "wi_status (en_wobjs (sy_world demo_manned) 0) = IDLE"
  "wi_pid (en_wobjs (sy_world demo_manned) 0) = 7"
  "wi_capacity (en_wobjs (sy_world demo_manned) 0) = 1"
  "wi_running_tasks (en_wobjs (sy_world demo_manned) 0) = 0"
  by code_simp+

lemma demo_manned_task:
  "tasks (en_queue (sy_world demo_manned)) = [(''task-0'', 0)]"
  "te_task_id (task_at (sy_world demo_manned) 0) = ''task-0''"
  "te_spec (task_at (sy_world demo_manned) 0) = default_spec ''m:f''"
  "te_attempts (task_at (sy_world demo_manned) 0) = 0"
  "te_status (task_at (sy_world demo_manned) 0) = QUEUED"
  "''task-0'' \<notin> cancelled (en_queue (sy_world demo_manned))"
  "te_available_at (task_at (sy_world demo_manned) 0) \<le> 20"
  by code_simp+

lemma demo_manned_reachable:
  "system_reachable u (client_transport demo_protobuf demo_client) engine_step engine_reachable demo_manned"
  unfolding demo_manned_def by (rule demo_join_reachable [OF demo_submitted_reachable]) code_simp

lemma demo_manned_ready:
  "tasks_sendable (sy_world demo_manned)"
  "could_run (ci_clk demo_input 0) (en_wobjs (sy_world demo_manned) 0) (sy_world demo_manned) ''task-0'' 0"
  "worker_fits (loaded (en_wobjs (sy_world demo_manned) 0))"
  "set (ci_order demo_input) = wi_queues (en_wobjs (sy_world demo_manned) 0)" "ci_live demo_input"
  "io_threads (ci_io demo_input) = (\<lambda>_. [])"
proof -
  show "tasks_sendable (sy_world demo_manned)"
    by (simp add: tasks_sendable_def demo_manned_task task_sendable_def sendable_def spec_ok_def default_spec_def
        payload_ok_def dict_ok_def int32_range_def)
  have "wi_labels (en_wobjs (sy_world demo_manned) 0) = {}" by code_simp
  then show "could_run (ci_clk demo_input 0) (en_wobjs (sy_world demo_manned) 0) (sy_world demo_manned) ''task-0'' 0"
    by (simp add: could_run_def demo_manned_task demo_manned_worker accepts_def default_spec_def demo_input_def)
  show "worker_fits (loaded (en_wobjs (sy_world demo_manned) 0))"
    by (simp add: demo_manned_worker loaded_def worker_fits_def int64_def)
qed (simp_all add: demo_manned_worker demo_input_def quiet_def)

theorem work_reaches_worker_witness:
  "\<exists>t e'. tp_reserve (client_transport demo_protobuf demo_client) demo_input ''worker-abc'' 1 (sy_world demo_manned)
      = (Inr (Some t), e') \<and> te_status t = RUNNING \<and> te_assigned_worker t = Some ''worker-abc''"
proof -
  have "engine_reachable (sy_world demo_manned)"
    using client.reachable_sound [OF demo_manned_reachable] by (simp add: client.sound_def)
  then show ?thesis
    using work_reaches_worker [OF protobuf_ok_demo _ demo_manned_worker(1) demo_manned_ready(3,1,2,4-6), of 1 "new_client demo_settings None"]
    unfolding demo_client_def by (fastforce simp: carried_task_def)
qed

end
