(* ===== verification/Node_Done.thy ===== *)
theory Node_Done
  imports Node_Work
begin

text \<open>
  The rest of a task's way: its execution in a consumer, the report of the result through client and service,
  and the whole way from the queue to the completed tasks as steps of the system.
\<close>

section \<open>Reporting over the wire\<close>

text \<open>A result as the scheduler gets it.\<close>

definition delivered :: "task_result \<Rightarrow> task_result" where
  "delivered r = r\<lparr>tr_error := (if tr_error r = Some [] then None else tr_error r)\<rparr>"

lemma delivered_no_error: "tr_error r = None \<Longrightarrow> delivered r = r"
  by (simp add: delivered_def)

lemma result_delivered: "json_ok (tr_result r) \<Longrightarrow> result_from_proto (result_to_proto r) = Inr (delivered r)"
  unfolding delivered_def by (rule result_roundtrip)

text \<open>A report through the client is the scheduler's own, and its answer the task as the last thread left it.\<close>

lemma report_call:
  assumes "json_ok (tr_result r)" and "report_result io (delivered r) e = (res, e1)"
  shows "client_report_result pb (report_result_rpc pb io) (enter_client c) r e
    = (and_then (fst (answer_task pb io 3 (res, e1))) (\<lambda>m. codec_result (task_from_proto pb m)),
       snd (answer_task pb io 3 (res, e1)))"
  using assms by (simp add: client_report_result_def client_call_def report_result_rpc_def result_delivered split: prod.split)

text \<open>
  C17. Reporting a result whose value is JSON through a connected client and the service is reporting it to the
  scheduler, an empty error text taken for none: the scheduler ends up as after the local call, up to what
  threads do before the answer is encoded; an error of the scheduler is the error of the call; and the answer is the
  task as it is then, without its lease, whenever it fits into a message.
\<close>
theorem remote_report:
  assumes "protobuf_ok pb" and "json_ok (tr_result r)"
  shows "let (res, e1) = report_result io (delivered r) e;
      (answer, e2) = client_report_result pb (report_result_rpc pb io) (enter_client c) r e
    in case res of
         Inl x \<Rightarrow> answer = Inl (EngineFailed x) \<and> e2 = e1
       | Inr a \<Rightarrow> e2 = gap io 3 e1
           \<and> (task_sendable (task_at e2 a) \<longrightarrow>
               (\<exists>p. mset p = mset (ts_payload (te_spec (task_at e2 a))) \<and> answer = Inr (carried_task p (task_at e2 a))))"
proof -
  obtain res e1 where r: "report_result io (delivered r) e = (res, e1)" by fastforce
  show ?thesis
  proof (cases res)
    case (Inl x)
    then show ?thesis using report_call [OF assms(2) r] by (simp add: r answer_task_def)
  next
    case (Inr a)
    then show ?thesis
      using report_call [OF assms(2) r, of pb c] answer_decoded [OF assms(1), of io 3 e1 a] by (simp add: r answer_state)
  qed
qed

text \<open>A success with an empty error text, reported over the wire.\<close>

theorem remote_report_witness:
  "\<exists>t. client_report_result demo_protobuf (report_result_rpc demo_protobuf (quiet 13 demo_hex))
      (enter_client (new_client demo_settings None)) (demo_result\<lparr>tr_error := Some []\<rparr>) demo_submitted
    = (Inr t, snd (report_result (quiet 13 demo_hex) demo_result demo_submitted)) \<and> te_status t = SUCCEEDED"
proof -
  let ?io = "quiet 13 demo_hex" and ?r = "demo_result\<lparr>tr_error := Some []\<rparr>"
  have "fst (report_result ?io demo_result demo_submitted) = Inr 0" by code_simp
  then obtain e1 where e1: "report_result ?io demo_result demo_submitted = (Inr 0, e1)" by (metis prod.collapse)
  have "te_spec (task_at (snd (report_result ?io demo_result demo_submitted)) 0) = default_spec ''m:f''"
    "te_attempts (task_at (snd (report_result ?io demo_result demo_submitted)) 0) = 0"
    "te_status (task_at (snd (report_result ?io demo_result demo_submitted)) 0) = SUCCEEDED" by code_simp+
  then have "task_sendable (task_at e1 0)" and "te_status (task_at e1 0) = SUCCEEDED"
    by (simp_all add: e1 task_sendable_def sendable_def spec_ok_def default_spec_def payload_ok_def dict_ok_def int32_range_def)
  moreover have "delivered ?r = demo_result" "json_ok (tr_result ?r)" by (simp_all add: delivered_def demo_result_def)
  moreover have "gap ?io 3 e1 = e1" by (rule gap_quiet) (simp add: quiet_def)
  ultimately show ?thesis
    using remote_report [OF protobuf_ok_demo, of ?r ?io demo_submitted "new_client demo_settings None"] e1
    by (auto simp: carried_task_def split: prod.splits)
qed

section \<open>A task in a consumer\<close>

text \<open>The counters stay within their 64 bits for one more task.\<close>

definition counters_fit :: "worker_runtime \<Rightarrow> bool" where
  "counters_fit r \<longleftrightarrow> u64 (int (length (wr_running r)) + 1) \<and> u64 (wr_completed r) \<and> u64 (wr_completed r + 1) \<and> u64 (wr_failed r)"

lemma publish_counters_ok:
  assumes "u64 (int (length (wr_running r)))" "u64 (wr_completed r)" "u64 (wr_failed r)"
  obtains s where "publish_counters r = (Inr (), r\<lparr>wr_ipc := s\<rparr>)"
  using write_u64(1) [OF assms, of "wr_ipc r"]
  by (cases "write_shared_counters (int (length (wr_running r))) (wr_completed r) (wr_failed r) (wr_ipc r)")
    (simp add: publish_counters_def)

text \<open>The node as consumer \<open>i\<close> goes from one await to the next with a task that succeeds.\<close>

definition taken :: "nat \<Rightarrow> task_envelope \<Rightarrow> worker_runtime \<Rightarrow> worker_runtime" where
  "taken i t r = set_consumer i (Starting t) (r\<lparr>wr_running := i # wr_running r\<rparr>)"

lemma consumer_begins:
  assumes "i < length (wr_consumers r)" "counters_fit r"
  obtains s where "consume u i Began (taken i t r)
    = set_consumer i (Executing t) (r\<lparr>wr_running := i # wr_running r, wr_ipc := s\<rparr>)"
proof -
  define r1 where "r1 = (taken i t r)\<lparr>wr_ipc := (wr_ipc r)\<lparr>ip_task_queue := ip_task_queue (wr_ipc r) @ [PDict (envelope_to_dict t)]\<rparr>\<rparr>"
  have "u64 (int (length (wr_running r1)))" "u64 (wr_completed r1)" "u64 (wr_failed r1)"
    using assms(2) by (simp_all add: r1_def taken_def set_consumer_def counters_fit_def add.commute)
  then obtain s where s: "publish_counters r1 = (Inr (), r1\<lparr>wr_ipc := s\<rparr>)" by (rule publish_counters_ok)
  have "consume u i Began (taken i t r) = begin_execution i t (taken i t r)"
    using assms(1) by (simp add: consume_def taken_def set_consumer_def)
  also have "\<dots> = set_consumer i (Executing t) (r1\<lparr>wr_ipc := s\<rparr>)"
    using s by (simp add: begin_execution_def r1_def taken_def set_consumer_def)
  finally show ?thesis by (intro that [of s]) (simp add: r1_def taken_def set_consumer_def)
qed

lemma consumer_executes:
  assumes "i < length (wr_consumers r)" "execute u clk took None t (wi_worker_id (wr_worker r)) = Inr res"
  shows "consume u i (Executed clk took) (set_consumer i (Executing t) r)
    = set_consumer i (Reporting t res) (r\<lparr>wr_sent := wr_sent r @ [res]\<rparr>)"
  using assms by (simp add: consume_def set_consumer_def)

lemma consumer_ends:
  assumes "i < length (wr_consumers r)" "tr_error res = None" "\<not> unawaited u t"
    and "u64 (int (length (wr_running r)))" "u64 (wr_completed r + 1)" "u64 (wr_failed r)"
  shows "consumer_at (s\<lparr>sy_node := consume u i (Reported (Inr ())) (set_consumer i (Reporting t res) r)\<rparr>) i (loop_head r)"
proof -
  define r1 where "r1 = (set_consumer i (Reporting t res) r)\<lparr>wr_ipc := (wr_ipc r)\<lparr>ip_result_queue :=
    ip_result_queue (wr_ipc r) @ [PDict (result_to_dict res)]\<rparr>, wr_completed := wr_completed r + 1\<rparr>"
  have "u64 (int (length (wr_running r1)))" "u64 (wr_completed r1)" "u64 (wr_failed r1)"
    using assms by (simp_all add: r1_def set_consumer_def)
  then obtain c where c: "publish_counters r1 = (Inr (), r1\<lparr>wr_ipc := c\<rparr>)" by (rule publish_counters_ok)
  have "consume u i (Reported (Inr ())) (set_consumer i (Reporting t res) r) = end_execution u i t res (set_consumer i (Reporting t res) r)"
    using assms(1) by (simp add: consume_def set_consumer_def)
  also have "\<dots> = leave_slot i (loop_head r) (r1\<lparr>wr_ipc := c\<rparr>)"
    using c assms(2,3) by (simp add: end_execution_def copied_result_def count_result_def truthy_def r1_def set_consumer_def loop_head_def)
  finally show ?thesis using assms(1) by (simp add: consumer_at_def leave_slot_def set_consumer_def r1_def)
qed

text \<open>A body that returns in time is a success with its value.\<close>

lemma execute_success:
  assumes "execute_by_kind u t = Inr v" "spec_ok (te_spec t)"
  obtains res where "execute u clk 0 None t wid = Inr res" and "tr_task_id res = te_task_id t" and "tr_worker_id res = wid"
    and "tr_status res = SUCCEEDED" and "tr_error res = None" and "tr_result res = v"
  using assms by (auto simp: execute_def as_result_def wait_for_def spec_ok_def)

text \<open>Six steps of the system take a task from the answer to the next poll, on any transport that serves it.\<close>

lemma served_round:
  assumes poll: "consumer_at s i Polling" and fit: "counters_fit (sy_node s)" and wid: "wi_worker_id (wr_worker (sy_node s)) = wid"
    and get: "tp_reserve tp inp wid 1 (sy_world s) = (Inr (Some t), st1)"
    and run: "execute u clk took None t wid = Inr res" "tr_error res = None" "\<not> unawaited u t"
    and put: "tp_report_result tp inp' res st1 = (Inr t', st2)"
  shows "\<exists>s'. (system_step u tp env)\<^sup>*\<^sup>* s s' \<and> sy_world s' = st2 \<and> consumer_at s' i (loop_head (sy_node s))"
proof -
  let ?r = "sy_node s" and ?step = "system_step u tp env"
  have i: "i < length (wr_consumers ?r)" "wr_consumers ?r ! i = Polling" using poll by (simp_all add: consumer_at_def)
  define s1 where "s1 = s\<lparr>sy_world := st1, sy_mail := (sy_mail s)(i := Some (Polled (Inr (Some t))))\<rparr>"
  have 1: "?step s s1"
    using system_step.reserve [OF poll get [folded wid], of u env] by (simp add: s1_def answer_of_def)
  define s2 where "s2 = s1\<lparr>sy_node := taken i t ?r, sy_mail := (sy_mail s1)(i := None)\<rparr>"
  have "consume u i (Polled (Inr (Some t))) ?r = taken i t ?r" using i by (simp add: consume_def taken_def)
  then have 2: "?step s1 s2"
    using system_step.deliver [of s1 i "Polled (Inr (Some t))" u tp env] by (simp add: s1_def s2_def)
  obtain c where c: "consume u i Began (taken i t ?r) = set_consumer i (Executing t) (?r\<lparr>wr_running := i # wr_running ?r, wr_ipc := c\<rparr>)"
    using consumer_begins [OF i(1) fit] .
  define r3 where "r3 = ?r\<lparr>wr_running := i # wr_running ?r, wr_ipc := c\<rparr>"
  define s3 where "s3 = s2\<lparr>sy_node := set_consumer i (Executing t) r3\<rparr>"
  have 3: "?step s2 s3"
    using system_step.own [of Began u tp env s2 i] c by (simp add: s2_def s3_def r3_def)
  define r4 where "r4 = r3\<lparr>wr_sent := wr_sent r3 @ [res]\<rparr>"
  define s4 where "s4 = s3\<lparr>sy_node := set_consumer i (Reporting t res) r4\<rparr>"
  have "consume u i (Executed clk took) (set_consumer i (Executing t) r3) = set_consumer i (Reporting t res) r4"
    unfolding r4_def by (rule consumer_executes) (use i wid run(1) in \<open>simp_all add: r3_def\<close>)
  then have 4: "?step s3 s4"
    using system_step.own [of "Executed clk took" u tp env s3 i] by (simp add: s3_def s4_def)
  define s5 where "s5 = s4\<lparr>sy_world := st2, sy_mail := (sy_mail s4)(i := Some (Reported (Inr ())))\<rparr>"
  have "consumer_at s4 i (Reporting t res)" using i by (simp add: s4_def consumer_at_def set_consumer_def r4_def r3_def)
  moreover have "sy_world s4 = st1" by (simp add: s4_def s3_def s2_def s1_def)
  ultimately have 5: "?step s4 s5"
    using system_step.report [of s4 i t res tp inp' "Inr t'" st2 u env] put by (simp add: s5_def answer_of_def)
  define s6 where "s6 = s5\<lparr>sy_node := consume u i (Reported (Inr ())) (sy_node s5), sy_mail := (sy_mail s5)(i := None)\<rparr>"
  have 6: "?step s5 s6"
    unfolding s6_def by (rule system_step.deliver) (simp add: s5_def)
  have "?step\<^sup>*\<^sup>* s s6" using 1 2 3 4 5 6 by (meson rtranclp.rtrancl_into_rtrancl r_into_rtranclp)
  moreover have "consumer_at (s5\<lparr>sy_node := consume u i (Reported (Inr ())) (set_consumer i (Reporting t res) r4)\<rparr>) i (loop_head r4)"
    by (rule consumer_ends) (use i run(2,3) fit in \<open>simp_all add: r4_def r3_def counters_fit_def add.commute\<close>)
  then have "consumer_at s6 i (loop_head ?r)" by (simp add: s6_def s5_def s4_def consumer_at_def loop_head_def r4_def r3_def)
  moreover have "sy_world s6 = st2" by (simp add: s6_def s5_def)
  ultimately show ?thesis by blast
qed

section \<open>The scheduler's side of a success\<close>

lemma loaded_released: "worker_fits (loaded w) \<Longrightarrow> worker_fits (released (loaded w))"
  by (auto simp: worker_fits_def loaded_def released_def Let_def int64_def)

lemma report_success:
  assumes "engine_reachable e" and "dict_get (tasks (en_queue e)) (tr_task_id r) = Some a"
    and "io_threads io = (\<lambda>_. [])" and "reporter_fits (tr_worker_id r) e" and "task_sendable (task_at e a)" and "tr_status r = SUCCEEDED"
  obtains e' where "report_result io r e = (Inr a, e')"
    and "task_at e' a = (task_at e a)\<lparr>te_status := SUCCEEDED, te_last_error := None, te_lease_deadline := None\<rparr>"
    and "en_completed e' = insert (tr_task_id r) (en_completed e)" and "dict_get (en_results e') (tr_task_id r) = Some r"
proof -
  have "task_fits (settled io r (task_at e a))"
    using sendable_fits [OF assms(5)] assms(6) by (simp add: settled_def task_fits_def)
  with engine_reachable_inv [OF assms(1)] assms(2-4) show ?thesis
  proof (rule report_result_state, goal_cases)
    case (1 e' s)
    show ?case by (rule that [OF 1(1)]) (use 1(3-5) assms(6) in \<open>simp_all add: task_at_def settled_def\<close>)
  qed
qed

section \<open>Work gets done\<close>

text \<open>What a worker may be given: for every task the worker accepts its code returns JSON, and no
coroutine that nobody awaits, however the payload is ordered.\<close>

definition code_returns :: "user_code \<Rightarrow> worker_info \<Rightarrow> engine \<Rightarrow> bool" where
  "code_returns u w e \<longleftrightarrow> (\<forall>tid b p t. dict_get (tasks (en_queue e)) tid = Some b \<and> accepts w (task_at e b)
     \<and> mset p = mset (ts_payload (te_spec (task_at e b))) \<and> te_spec t = (carried (te_spec (task_at e b)))\<lparr>ts_payload := p\<rparr>
     \<longrightarrow> \<not> unawaited u t \<and> (\<exists>v. execute_by_kind u t = Inr v \<and> json_ok v))"

lemma code_returnsD:
  assumes "code_returns u w e" "dict_get (tasks (en_queue e)) tid = Some b" "accepts w (task_at e b)"
    "mset p = mset (ts_payload (te_spec (task_at e b)))" "te_spec t = (carried (te_spec (task_at e b)))\<lparr>ts_payload := p\<rparr>"
  obtains v where "execute_by_kind u t = Inr v" "json_ok v" "\<not> unawaited u t"
  using assms unfolding code_returns_def by blast

lemma spec_ok_delivered: "task_sendable t \<Longrightarrow> spec_ok (te_spec (carried_task p t))"
  using spec_ok_carried [of "te_spec t"] by (simp add: task_sendable_def sendable_def carried_task_def spec_ok_def)

lemma reported_answer:
  assumes "protobuf_ok pb" and "json_ok (tr_result r)" and "tr_error r = None" and quiet: "io_threads (ci_io i) = (\<lambda>_. [])"
    and "report_result (ci_io i) r e = (Inr a, e1)" and "task_sendable (task_at e1 a)"
  obtains t where "tp_report_result (client_transport pb (enter_client c)) i r e = (Inr t, e1)"
proof -
  have gap: "gap (ci_io i) 3 e1 = e1" by (rule gap_quiet) (simp add: quiet)
  have call: "client_report_result pb (report_result_rpc pb (ci_io i)) (enter_client c) r e
      = (and_then (fst (answer_task pb (ci_io i) 3 (Inr a, e1))) (\<lambda>m. codec_result (task_from_proto pb m)),
         snd (answer_task pb (ci_io i) 3 (Inr a, e1)))"
    by (rule report_call [OF assms(2)]) (simp add: delivered_no_error [OF assms(3)] assms(5))
  obtain p where "and_then (fst (answer_task pb (ci_io i) 3 (Inr a, e1))) (\<lambda>m. codec_result (task_from_proto pb m))
      = Inr (carried_task p (task_at e1 a))"
    using answer_decoded [OF assms(1), of "ci_io i" 3 e1 a] assms(6) gap by auto
  with call gap show ?thesis by (intro that) (simp add: client_transport_def answer_state)
qed

text \<open>
  C3. Work gets done.  A worker node that serves the scheduler through the client has a consumer that polls, some
  task waits that the worker could run, all known tasks fit into a message, and the code of the tasks that the worker
  accepts returns JSON and no unawaited coroutine.  Then steps of the system lead to a state in which the task that comes first in the order of
  priority and age has succeeded, counts as completed for the tasks that depend on it, its result is the one
  the worker computed, and the consumer polls again, or ends if the node is to stop.  The calls of the node are
  not disturbed by a thread of the scheduler, and each poll sees the scheduler as it is.
\<close>
theorem work_gets_done:
  fixes inp :: call_input
  assumes "protobuf_ok pb" and "system_reachable u (client_transport pb (enter_client c)) engine_step engine_reachable s"
    and "consumer_at s i Polling" and "counters_fit (sy_node s)"
    and "e = sy_world s" and "wid = wi_worker_id (wr_worker (sy_node s))" and "dict_get (en_workers e) wid = Some wa"
    and "worker_fits (loaded (en_wobjs e wa))" and "tasks_sendable e" and "could_run (ci_clk inp 0) (en_wobjs e wa) e tid b"
    and "set (ci_order inp) = wi_queues (en_wobjs e wa)" and "ci_live inp" and "io_threads (ci_io inp) = (\<lambda>_. [])"
    and "code_returns u (en_wobjs e wa) e"
  shows "\<exists>s' a r t. (system_step u (client_transport pb (enter_client c)) engine_step)\<^sup>*\<^sup>* s s'
    \<and> (\<forall>tid b. could_run (ci_clk inp 0) (en_wobjs e wa) e tid b \<longrightarrow>
         (ts_priority (te_spec (task_at e a)), te_created_at (task_at e a))
           \<le> (ts_priority (te_spec (task_at e b)), te_created_at (task_at e b)))
    \<and> dict_get (tasks (en_queue e)) (te_task_id (task_at e a)) = Some a
    \<and> te_task_id t = te_task_id (task_at e a) \<and> execute u (\<lambda>_. 0) 0 None t wid = Inr r
    \<and> te_status (task_at (sy_world s') a) = SUCCEEDED \<and> te_task_id (task_at e a) \<in> en_completed (sy_world s')
    \<and> dict_get (en_results (sy_world s')) (te_task_id (task_at e a)) = Some r
    \<and> consumer_at s' i (loop_head (sy_node s))"
proof -
  note reach = client.reachable_sound [OF assms(2)]
  have e: "engine_reachable e" using reach by (simp add: client.sound_def assms(5))
  obtain a p e1 where get: "tp_reserve (client_transport pb (enter_client c)) inp wid 1 e = (Inr (Some (carried_task p (task_at e1 a))), e1)"
    and p: "mset p = mset (ts_payload (te_spec (task_at e a)))"
    and obj: "task_at e1 a = (task_at e a)\<lparr>te_status := RUNNING, te_assigned_worker := Some wid,
        te_lease_deadline := Some (ci_clk inp 1 + st_lease_seconds (en_config e))\<rparr>"
    and fl: "dict_get (inflight (en_queue e1)) (te_task_id (task_at e1 a)) = Some a"
    and best: "\<forall>tid b. could_run (ci_clk inp 0) (en_wobjs e wa) e tid b \<longrightarrow>
         (ts_priority (te_spec (task_at e a)), te_created_at (task_at e a))
           \<le> (ts_priority (te_spec (task_at e b)), te_created_at (task_at e b))"
    and at: "dict_get (tasks (en_queue e)) (te_task_id (task_at e a)) = Some a" "accepts (en_wobjs e wa) (task_at e a)"
    and send: "task_sendable (task_at e1 a)" and worker: "en_workers e1 = en_workers e" "en_wobjs e1 wa = loaded (en_wobjs e wa)"
    by (rule reserve_delivers [OF assms(1) e assms(7-13), of 1 c]) simp
  define t where "t = carried_task p (task_at e1 a)"
  have t: "te_task_id t = te_task_id (task_at e a)" "te_spec t = (carried (te_spec (task_at e a)))\<lparr>ts_payload := p\<rparr>"
    by (simp_all add: t_def carried_task_def obj)
  have e1: "engine_reachable e1" using client_reserve_steps [OF e get] call_keeps [OF _ e] by blast
  obtain v where v: "execute_by_kind u t = Inr v" "json_ok v" "\<not> unawaited u t"
    by (rule code_returnsD [OF assms(14) at p t(2)])
  obtain r where r: "execute u (\<lambda>_. 0) 0 None t wid = Inr r" "tr_task_id r = te_task_id t" "tr_worker_id r = wid"
    "tr_status r = SUCCEEDED" "tr_error r = None" "tr_result r = v"
    using execute_success [OF v(1), of "\<lambda>_. 0" wid] spec_ok_delivered [OF send, of p] unfolding t_def by metis
  have known: "dict_get (tasks (en_queue e1)) (tr_task_id r) = Some a"
    using fl binvD(4) [OF engine_invD(1) [OF engine_reachable_inv [OF e1]]] r(2) t(1) obj by (simp add: alias_ok_def)
  have "reporter_fits (tr_worker_id r) e1"
    using worker assms(7,8) r(3) loaded_released by (simp add: reporter_fits_def)
  then obtain e2 where e2: "report_result (ci_io inp) r e1 = (Inr a, e2)"
    "task_at e2 a = (task_at e1 a)\<lparr>te_status := SUCCEEDED, te_last_error := None, te_lease_deadline := None\<rparr>"
    "en_completed e2 = insert (tr_task_id r) (en_completed e1)" "dict_get (en_results e2) (tr_task_id r) = Some r"
    using report_success [OF e1 known assms(13) _ send r(4)] by metis
  have "task_sendable (task_at e2 a)" using send sendable_cong [of "task_at e2 a" "task_at e1 a"] e2(2) by simp
  then obtain t' where put: "tp_report_result (client_transport pb (enter_client c)) inp r e1 = (Inr t', e2)"
    using reported_answer [OF assms(1) _ r(5) assms(13) e2(1)] r(6) v(2) by metis
  obtain s' where "(system_step u (client_transport pb (enter_client c)) engine_step)\<^sup>*\<^sup>* s s'" "sy_world s' = e2"
    "consumer_at s' i (loop_head (sy_node s))"
    using served_round [OF assms(3,4) assms(6) [symmetric] get [folded t_def, unfolded assms(5)] r(1,5) v(3) put] by blast
  with best at(1) t(1) r(1,2) e2 show ?thesis
    by (intro exI [of _ s'] exI [of _ a] exI [of _ r] exI [of _ t]) simp
qed

text \<open>The task of the demo is a function that returns 42.\<close>

definition demo_returning :: user_code where
  "demo_returning = demo_code\<lparr>us_exists := (\<lambda>_. False),
     us_import := (\<lambda>_. Inr (\<lambda>_. Some (Callable (\<lambda>_. Inr (Plain (PInt 42))))))\<rparr>"

lemma demo_returning_code: "load_callable demo_returning ''m:f'' = Inr (\<lambda>_. Inr (Plain (PInt 42)))"
  by (simp add: load_callable_def load_module_def demo_returning_def demo_code_def partition_on_def ends_with_def)

lemma demo_code_returns:
  "code_returns demo_returning (en_wobjs (sy_world demo_manned) 0) (sy_world demo_manned)"
proof -
  have kind: "ts_target (default_spec ''m:f'') = ''m:f''" "ts_kind (default_spec ''m:f'') = IO" by (simp_all add: default_spec_def)
  show ?thesis
    by (auto simp: code_returns_def demo_manned_task carried_def kind execute_by_kind_def run_sync_target_def
        demo_returning_code plain_def unawaited_def int_ok_small split: if_splits)
qed

theorem work_gets_done_witness:
  "\<exists>s'. (system_step demo_returning (client_transport demo_protobuf demo_client) engine_step)\<^sup>*\<^sup>* demo_manned s'
     \<and> te_status (task_at (sy_world s') 0) = SUCCEEDED \<and> ''task-0'' \<in> en_completed (sy_world s')
     \<and> consumer_at s' 0 Polling"
proof -
  have node: "wr_consumers (sy_node demo_manned) = [Polling]" "wr_running (sy_node demo_manned) = []"
    "wr_completed (sy_node demo_manned) = 0" "wr_failed (sy_node demo_manned) = 0" "\<not> wr_stop (sy_node demo_manned)"
    by code_simp+
  then have i: "consumer_at demo_manned 0 Polling" "counters_fit (sy_node demo_manned)"
    by (simp_all add: consumer_at_def counters_fit_def u64_def)
  from work_gets_done [OF protobuf_ok_demo demo_manned_reachable [unfolded demo_client_def] i refl refl
      demo_manned_worker(1) [folded demo_manned_worker(2)] demo_manned_ready(3,1,2,4-6) demo_code_returns]
  obtain s' a where s': "(system_step demo_returning (client_transport demo_protobuf (enter_client (new_client demo_settings None))) engine_step)\<^sup>*\<^sup>* demo_manned s'"
    "dict_get (tasks (en_queue (sy_world demo_manned))) (te_task_id (task_at (sy_world demo_manned) a)) = Some a"
    "te_status (task_at (sy_world s') a) = SUCCEEDED" "te_task_id (task_at (sy_world demo_manned) a) \<in> en_completed (sy_world s')"
    "consumer_at s' 0 (loop_head (sy_node demo_manned))"
    by blast
  have "a = 0" using s'(2) by (simp add: demo_manned_task split: if_splits)
  then show ?thesis
    using s' node(5) unfolding demo_client_def by (intro exI [of _ s']) (simp add: loop_head_def demo_manned_task)
qed

end
