(* ===== verification/Sample.thy ===== *)
theory Sample
  imports Executor Json
begin

text \<open>
  The jobs of \<open>sample_tasks/\<close> as user code, and what the executor reports of them.

  The file system and SHA-256 are parameters, and so are the texts of the exceptions that Python raises
  for an argument of the wrong type, which differ between its versions.
\<close>

section \<open>The machine they run on\<close>

text \<open>\<open>mc_read\<close> is \<open>None\<close> for a path that does not exist; reading one that does may still raise.\<close>

record machine =
  mc_read :: "string \<Rightarrow> (exn + string) option"
  mc_sha256 :: "string \<Rightarrow> string"
  mc_str :: "pyval \<Rightarrow> string"
  mc_type_error :: "string \<Rightarrow> pyval \<Rightarrow> string"

text \<open>\<open>func(**payload)\<close> for a function whose parameters all have defaults.\<close>

definition call_kwargs :: "machine \<Rightarrow> (string, pyval) dict \<Rightarrow> (string, pyval) dict \<Rightarrow> exn + (string \<Rightarrow> pyval)" where
  "call_kwargs mc params payload =
     (case filter (\<lambda>k. dict_get params k = None) (map fst payload) of
        k # _ \<Rightarrow> Inl (Exc ''TypeError'' (mc_type_error mc ''keyword'' (PStr k)))
      | [] \<Rightarrow> Inr (\<lambda>k. case dict_get payload k of Some v \<Rightarrow> v | None \<Rightarrow> the (dict_get params k)))"

text \<open>\<open>str.encode()\<close> and \<open>bytes.hex()\<close>; a byte is a character.\<close>

definition utf8 :: "string \<Rightarrow> string" where
  "utf8 s = concat (map (\<lambda>c. let n = of_char c :: nat in
     if n < 128 then [c] else [char_of (192 + n div 64), char_of (128 + n mod 64)]) s)"

definition hex_of :: "string \<Rightarrow> string" where
  "hex_of s = concat (map (\<lambda>c. [hexdig (of_char c div 16), hexdig (of_char c mod 16)]) s)"

section \<open>The jobs\<close>

definition failing_job :: "machine \<Rightarrow> (string, pyval) dict \<Rightarrow> exn + returned" where
  "failing_job mc payload =
     and_then (call_kwargs mc [(''message'', PStr ''boom'')] payload) (\<lambda>arg.
       Inl (Exc ''RuntimeError'' (case arg ''message'' of PStr s \<Rightarrow> s | v \<Rightarrow> mc_str mc v)))"

text \<open>\<open>asyncio.sleep\<close> compares its delay with zero; a numeric one is only waited for, and a cancellation then goes through.\<close>

definition is_number :: "pyval \<Rightarrow> bool" where
  "is_number v = (case v of PInt _ \<Rightarrow> True | PFloat _ \<Rightarrow> True | PBool _ \<Rightarrow> True | _ \<Rightarrow> False)"

definition io_job :: "machine \<Rightarrow> (string, pyval) dict \<Rightarrow> exn + returned" where
  "io_job mc payload =
     and_then (call_kwargs mc [(''url'', PStr ''https://example.com''), (''delay'', PFloat (2 / 10))] payload) (\<lambda>arg.
       Inr (Awaitable
         (if is_number (arg ''delay'')
          then Inr (PDict [(''url'', arg ''url''), (''simulated_latency_seconds'', arg ''delay'')])
          else Inl (Exc ''TypeError'' (mc_type_error mc ''delay'' (arg ''delay''))))
         (Inl CancelledError)))"

definition read_input :: "machine \<Rightarrow> pyval \<Rightarrow> exn + string" where
  "read_input mc path =
     (case path of
        PStr p \<Rightarrow> (case mc_read mc p of Some r \<Rightarrow> r | None \<Rightarrow> Inr (utf8 p))
      | _ \<Rightarrow> Inl (Exc ''TypeError'' (mc_type_error mc ''path'' path)))"

definition index_of :: "pyval \<Rightarrow> int option" where
  "index_of v = (case v of PInt n \<Rightarrow> Some n | PBool b \<Rightarrow> Some (if b then 1 else 0) | _ \<Rightarrow> None)"

definition image_job :: "machine \<Rightarrow> (string, pyval) dict \<Rightarrow> exn + returned" where
  "image_job mc payload =
     and_then (call_kwargs mc [(''path'', PStr ''README.md''), (''rounds'', PInt 100000)] payload) (\<lambda>arg.
     and_then (read_input mc (arg ''path'')) (\<lambda>data.
       case index_of (arg ''rounds'') of
         None \<Rightarrow> Inl (Exc ''TypeError'' (mc_type_error mc ''rounds'' (arg ''rounds'')))
       | Some rounds \<Rightarrow>
           (let digest = (mc_sha256 mc ^^ nat rounds) data
            in Inr (Plain (PDict [(''path'', arg ''path''), (''rounds'', arg ''rounds''), (''sha256'', PStr (hex_of digest))])))))"

section \<open>What is reported of them\<close>

lemma call_kwargs_ok:
  "set (map fst payload) \<subseteq> set (map fst params) \<Longrightarrow>
     call_kwargs mc params payload = Inr (\<lambda>k. case dict_get payload k of Some v \<Rightarrow> v | None \<Rightarrow> the (dict_get params k))"
proof -
  assume "set (map fst payload) \<subseteq> set (map fst params)"
  then have "filter (\<lambda>k. dict_get params k = None) (map fst payload) = []"
    by (auto simp: filter_empty_conv map_of_eq_None_iff)
  then show ?thesis by (simp add: call_kwargs_def)
qed

text \<open>A parameter that no job has ends the task with a \<open>TypeError\<close>, whatever its value.\<close>

lemma call_kwargs_unexpected:
  "k \<in> set (map fst payload) \<Longrightarrow> k \<notin> set (map fst params) \<Longrightarrow>
     \<exists>text. call_kwargs mc params payload = Inl (Exc ''TypeError'' text)"
proof -
  assume "k \<in> set (map fst payload)" "k \<notin> set (map fst params)"
  then have "k \<in> set (filter (\<lambda>k. dict_get params k = None) (map fst payload))"
    by (simp add: map_of_eq_None_iff)
  then show ?thesis by (cases "filter (\<lambda>k. dict_get params k = None) (map fst payload)") (auto simp: call_kwargs_def)
qed

text \<open>The intentional failure: every kind that runs in the event loop or a thread reports the message.\<close>

lemma failing_job_reported:
  assumes "load_callable u (ts_target (te_spec t)) = Inr (failing_job mc)" and "ts_payload (te_spec t) = [(''message'', PStr m)]"
    and "ts_kind (te_spec t) \<noteq> CPU" and "took \<le> ts_timeout_seconds (te_spec t)"
  shows "\<exists>r. execute u clk took None t wid = Inr r \<and> tr_status r = FAILED
    \<and> tr_error r = Some (''RuntimeError: '' @ m) \<and> tr_result r = PNone"
  using assms
  by (cases "ts_kind (te_spec t)")
    (simp_all add: execute_def as_result_def wait_for_def execute_by_kind_def run_sync_target_def failing_job_def call_kwargs_def Let_def)

text \<open>The simulated request: awaited as \<open>async\<close>, not even started as \<open>io\<close>.\<close>

lemma io_job_reported:
  assumes "load_callable u (ts_target (te_spec t)) = Inr (io_job mc)"
    and "ts_payload (te_spec t) = [(''url'', url), (''delay'', delay)]" and "is_number delay"
    and "ts_kind (te_spec t) \<noteq> CPU" and "took \<le> ts_timeout_seconds (te_spec t)"
  shows "\<exists>r. execute u clk took None t wid = Inr r \<and> tr_status r = SUCCEEDED \<and> tr_error r = None
    \<and> tr_result r = (if ts_kind (te_spec t) = ASYNC
        then PDict [(''url'', url), (''simulated_latency_seconds'', delay)] else PStr (us_coroutine u))"
  using assms
  by (cases "ts_kind (te_spec t)")
    (simp_all add: execute_def as_result_def wait_for_def execute_by_kind_def run_sync_target_def io_job_def call_kwargs_def plain_def Let_def)

text \<open>The hashing loop, in a pool that hands plain values over: \<open>rounds\<close> digests of the file, or of the path itself.\<close>

lemma image_job_reported:
  assumes "load_callable u (ts_target (te_spec t)) = Inr (image_job mc)"
    and "ts_payload (te_spec t) = [(''path'', PStr p), (''rounds'', PInt n)]" and "read_input mc (PStr p) = Inr data"
    and "ts_kind (te_spec t) = CPU" and "\<And>v. us_process u (Inr (Plain v)) = Inr v" and "took \<le> ts_timeout_seconds (te_spec t)"
  shows "\<exists>r. execute u clk took None t wid = Inr r \<and> tr_status r = SUCCEEDED \<and> tr_error r = None
    \<and> tr_result r = PDict [(''path'', PStr p), (''rounds'', PInt n),
        (''sha256'', PStr (hex_of ((mc_sha256 mc ^^ nat n) data)))]"
  using assms
  by (simp add: execute_def as_result_def wait_for_def execute_by_kind_def run_sync_target_def image_job_def call_kwargs_def index_of_def Let_def)

lemma hex_of_length: "length (hex_of s) = 2 * length s"
  by (induction s) (simp_all add: hex_of_def)

text \<open>Of no round at all it is the file itself that is reported, a negative number included.\<close>

lemma image_job_no_rounds:
  "read_input mc (PStr p) = Inr data \<Longrightarrow> n \<le> 0 \<Longrightarrow>
     image_job mc [(''path'', PStr p), (''rounds'', PInt n)]
       = Inr (Plain (PDict [(''path'', PStr p), (''rounds'', PInt n), (''sha256'', PStr (hex_of data))]))"
  by (simp add: image_job_def call_kwargs_def index_of_def)

text \<open>A job given a parameter it does not have fails before it starts, also as a coroutine.\<close>

lemma unexpected_parameter:
  assumes "k \<in> set (map fst payload)" and "k \<notin> {''message'', ''url'', ''delay'', ''path'', ''rounds''}"
  shows "\<exists>a b c. failing_job mc payload = Inl (Exc ''TypeError'' a) \<and> io_job mc payload = Inl (Exc ''TypeError'' b)
    \<and> image_job mc payload = Inl (Exc ''TypeError'' c)"
proof -
  obtain a where "call_kwargs mc [(''message'', PStr ''boom'')] payload = Inl (Exc ''TypeError'' a)"
    using call_kwargs_unexpected [OF assms(1), of "[(''message'', PStr ''boom'')]"] assms(2) by auto
  moreover obtain b where
    "call_kwargs mc [(''url'', PStr ''https://example.com''), (''delay'', PFloat (2 / 10))] payload = Inl (Exc ''TypeError'' b)"
    using call_kwargs_unexpected [OF assms(1), of "[(''url'', PStr ''https://example.com''), (''delay'', PFloat (2 / 10))]"]
      assms(2) by auto
  moreover obtain c where
    "call_kwargs mc [(''path'', PStr ''README.md''), (''rounds'', PInt 100000)] payload = Inl (Exc ''TypeError'' c)"
    using call_kwargs_unexpected [OF assms(1), of "[(''path'', PStr ''README.md''), (''rounds'', PInt 100000)]"]
      assms(2) by auto
  ultimately show ?thesis by (simp add: failing_job_def io_job_def image_job_def)
qed

end
