(* ===== verification/Engine_Loops.thy ===== *)
theory Engine_Loops
  imports Engine_Gate Broker_Leases
begin

text \<open>
  The background loops of \<open>taskrunner/scheduler/engine.py\<close>: each is an asyncio task that sleeps and makes a
  pass, for ever, and no loop catches an exception of its pass.  A pass that raises ends the task, and the
  done callback that \<open>start_background_services\<close> attached discards it, so nobody sees the exception.
\<close>

section \<open>The loops\<close>

text \<open>How long a loop sleeps before each of its passes.\<close>

definition heartbeat_reaper_sleep :: "settings \<Rightarrow> seconds" where
  "heartbeat_reaper_sleep cfg = st_heartbeat_interval_seconds cfg"

definition lease_reaper_sleep :: "settings \<Rightarrow> seconds" where
  "lease_reaper_sleep cfg = max 1 (st_lease_seconds cfg / 3)"

definition pressure_reporter_sleep :: seconds where
  "pressure_reporter_sleep = 5"

text \<open>One turn of the loop called \<open>name\<close>, if it still runs.\<close>

definition loop_turn :: "string \<Rightarrow> (engine \<Rightarrow> (engine_error + unit) \<times> engine) \<Rightarrow> engine \<Rightarrow> engine" where
  "loop_turn name pass e =
     (if name \<in> set (en_background e)
      then case pass e of
             (Inl _, e1) \<Rightarrow> e1\<lparr>en_background := filter (\<lambda>n. n \<noteq> name) (en_background e1)\<rparr>
           | (Inr _, e1) \<Rightarrow> e1
      else e)"

definition heartbeat_reaper :: "clock \<Rightarrow> engine \<Rightarrow> engine" where
  "heartbeat_reaper clk = loop_turn ''heartbeat_reaper'' (heartbeat_reaper_pass clk)"

definition lease_reaper :: "clock \<Rightarrow> io \<Rightarrow> engine \<Rightarrow> engine" where
  "lease_reaper clk io = loop_turn ''lease_reaper'' (lease_reaper_pass clk io)"

definition pressure_reporter :: "io \<Rightarrow> engine \<Rightarrow> engine" where
  "pressure_reporter io = loop_turn ''pressure_reporter'' (\<lambda>e. (Inr (), pressure_reporter_pass io e))"

text \<open>A time between the sleeps is long enough for a lease to be noticed in time only up to a third of it.\<close>

lemma lease_reaper_sleep_bounds:
  "1 \<le> lease_reaper_sleep cfg" "st_lease_seconds cfg \<le> 3 * lease_reaper_sleep cfg"
  by (simp_all add: lease_reaper_sleep_def)

section \<open>Nothing restarts a loop\<close>

interpretation background: engine_frame_reports "\<lambda>e. (en_background e, en_services e, en_config e)"
  by unfold_locales simp_all

lemma step_background:
  assumes "engine_step e e'" "engine_inv e" "en_services e"
  shows "en_background e' = en_background e \<and> en_services e' \<or> \<not> en_services e'"
  using background.frame_step [OF assms(1,2)] assms(3)
  by (auto simp: start_background_services_def stop_background_services_def)

text \<open>A run during which the services stay on.\<close>

definition serving_step :: "engine \<Rightarrow> engine \<Rightarrow> bool" where
  "serving_step e e' \<longleftrightarrow> engine_step e e' \<and> en_services e'"

lemma serving_background:
  assumes "serving_step\<^sup>*\<^sup>* e e'" "engine_inv e" "en_services e"
  shows "engine_inv e' \<and> en_services e' \<and> en_background e' = en_background e"
  using assms
proof (induction rule: rtranclp_induct)
  case (step e1 e2)
  then have "engine_inv e1" "en_services e1" "en_background e1 = en_background e" by blast+
  with step(2) step_background [of e1 e2] show ?case
    unfolding serving_step_def by (metis engine_step_inv)
qed simp

section \<open>The lease reaper\<close>

text \<open>Without threads in the way, a row of writes succeeds when every task fits into its row.\<close>

lemma save_tasks_ok_iff:
  assumes "io_threads io = (\<lambda>_. [])"
  shows "(\<exists>x. fst (save_tasks io n as e) = Inl x) \<longleftrightarrow> (\<exists>a \<in> set as. \<not> task_fits (task_at e a))"
proof (induction as arbitrary: n e)
  case (Cons a as)
  have quiet: "gap io n e = e" using assms by (simp add: gap_quiet)
  show ?case
  proof (cases "task_fits (task_at e a)")
    case True
    obtain e1 where s: "save_task (io_clk io n) a None e = (Inr (), e1)"
      using save_task_ok(1) [OF True, of "io_clk io n" None] by (metis prod.collapse)
    have "task_at e1 b = task_at e b" for b
      using save_task_queue [of "io_clk io n" a None e] s by (simp add: task_at_def)
    then show ?thesis using Cons.IH [of "Suc n" e1] True s quiet by simp
  next
    case False
    then show ?thesis using save_task_fails [OF False, of "io_clk io n" None] quiet by auto
  qed
qed simp

lemma save_tasks_queue:
  assumes "io_threads io = (\<lambda>_. [])"
  shows "en_queue (snd (save_tasks io n as e)) = en_queue e"
proof (induction as arbitrary: n e)
  case (Cons a as)
  have quiet: "gap io n e = e" using assms by (simp add: gap_quiet)
  obtain r e1 where "save_task (io_clk io n) a None e = (r, e1)" by fastforce
  moreover from this have "en_queue e1 = en_queue e" using save_task_queue [of "io_clk io n" a None e] by simp
  ultimately show ?case using Cons.IH [of "Suc n" e1] quiet by (simp split: sum.split)
qed simp

text \<open>The tasks that a pass at \<open>now\<close> takes back.\<close>

definition lapsed :: "seconds \<Rightarrow> engine \<Rightarrow> addr set" where
  "lapsed now e = {a. \<exists>tid d. dict_get (inflight (en_queue e)) tid = Some a
     \<and> te_lease_deadline (task_at e a) = Some d \<and> d < now}"

lemma lease_reaper_pass_fails_iff:
  assumes "engine_reachable e" "io_threads io = (\<lambda>_. [])"
  shows "(\<exists>x. fst (lease_reaper_pass clk io e) = Inl x) \<longleftrightarrow>
    (\<exists>a \<in> lapsed (clk 0) e. \<not> (int64 (ts_priority (te_spec (task_at e a))) \<and> int64 (te_attempts (task_at e a) + 1)))"
proof -
  have inv: "broker_inv (en_queue e)" by (rule engine_invD(1) [OF engine_reachable_inv [OF assms(1)]])
  obtain as q where rq: "requeue_expired_leases clk (en_queue e) = (Inr as, q)"
    "requeued (clk 0) (inflight (en_queue e)) (en_queue e) as q" using requeue_spec [OF inv, of clk] by blast
  have ok: "dict_ok (inflight (en_queue e))" using binvD(1) [OF inv] by (simp add: dicts_ok_def)
  have mem: "(tid, a) \<in> set (expired_in (clk 0) (inflight (en_queue e)) (en_queue e)) \<longleftrightarrow>
      dict_get (inflight (en_queue e)) tid = Some a \<and> lease_expired (clk 0) (task_at e a)" for tid a
    by (simp add: expired_in_def dict_get_mem [OF ok] task_at_def)
  have as: "as = map snd (expired_in (clk 0) (inflight (en_queue e)) (en_queue e))"
    using rq(2) by (simp add: requeued_def)
  have "a \<in> set as \<longleftrightarrow> a \<in> lapsed (clk 0) e" for a
  proof -
    have "a \<in> set as \<longleftrightarrow> (\<exists>tid. (tid, a) \<in> set (expired_in (clk 0) (inflight (en_queue e)) (en_queue e)))"
      unfolding as by force
    then show ?thesis unfolding mem lease_expired_iff lapsed_def by blast
  qed
  then have "set as = lapsed (clk 0) e" by blast
  moreover have "task_fits (objs q a) \<longleftrightarrow>
      int64 (ts_priority (te_spec (task_at e a))) \<and> int64 (te_attempts (task_at e a) + 1)" if "a \<in> set as" for a
  proof -
    have "if a \<in> set as then \<exists>t. objs q a = retried t ''lease expired'' (objs (en_queue e) a)
        else objs q a = objs (en_queue e) a"
      using rq(2) unfolding requeued_def by blast
    with that obtain t where "objs q a = retried t ''lease expired'' (objs (en_queue e) a)" by auto
    then show ?thesis by (simp add: task_fits_def retried_def task_at_def)
  qed
  ultimately show ?thesis
    using save_tasks_ok_iff [OF assms(2), of 0 as "e\<lparr>en_queue := q\<rparr>"] rq(1)
    by (simp add: lease_reaper_pass_def task_at_def)
qed

lemma lease_reaper_pass_lapsed:
  assumes "engine_reachable e" "io_threads io = (\<lambda>_. [])"
  shows "lapsed (clk 0) (snd (lease_reaper_pass clk io e)) = {}"
proof -
  have inv: "broker_inv (en_queue e)" by (rule engine_invD(1) [OF engine_reachable_inv [OF assms(1)]])
  obtain as q where rq: "requeue_expired_leases clk (en_queue e) = (Inr as, q)"
    "requeued (clk 0) (inflight (en_queue e)) (en_queue e) as q" using requeue_spec [OF inv, of clk] by blast
  have ok: "dict_ok (inflight (en_queue e))" using binvD(1) [OF inv] by (simp add: dicts_ok_def)
  have left: "\<not> lease_expired (clk 0) (objs q a)" if a: "dict_get (inflight q) tid = Some a" for tid a
  proof -
    have t: "tid \<notin> fst ` set (expired_in (clk 0) (inflight (en_queue e)) (en_queue e))"
      "dict_get (inflight (en_queue e)) tid = Some a"
      using rq(2) a unfolding requeued_def by (metis option.distinct(1))+
    then have "\<not> lease_expired (clk 0) (objs (en_queue e) a)"
      by (force simp: expired_in_def dict_get_mem [OF ok])
    moreover from this have "a \<notin> set as" using rq(2) by (auto simp: requeued_def expired_in_def)
    then have "objs q a = objs (en_queue e) a" using rq(2) unfolding requeued_def by meson
    ultimately show ?thesis by simp
  qed
  have "en_queue (snd (lease_reaper_pass clk io e)) = q"
    using save_tasks_queue [OF assms(2), of 0 as "e\<lparr>en_queue := q\<rparr>"] by (simp add: lease_reaper_pass_def rq(1))
  then show ?thesis using left unfolding lapsed_def task_at_def lease_expired_iff by auto
qed

text \<open>
  C20. The lease reaper survives a pass exactly when every task whose lease has lapsed still fits into its row,
  with one more attempt; one that does not ends the loop, after the whole queue was requeued.  Nothing
  but a stop and a new start of the services brings it back, so until then no further lease is ever taken
  back, and the tasks of every worker that dies stay running.
\<close>
theorem lease_reaper_survives:
  assumes "engine_reachable e" and "io_threads io = (\<lambda>_. [])"
    and "en_services e" and "''lease_reaper'' \<in> set (en_background e)"
  shows "(''lease_reaper'' \<in> set (en_background (lease_reaper clk io e)) \<longleftrightarrow>
      (\<forall>a \<in> lapsed (clk 0) e. int64 (ts_priority (te_spec (task_at e a))) \<and> int64 (te_attempts (task_at e a) + 1)))
    \<and> lapsed (clk 0) (lease_reaper clk io e) = {}
    \<and> (\<forall>e'. ''lease_reaper'' \<notin> set (en_background (lease_reaper clk io e)) \<and>
          serving_step\<^sup>*\<^sup>* (lease_reaper clk io e) e' \<longrightarrow> (\<forall>clk' io'. lease_reaper clk' io' e' = e'))"
proof -
  define p where "p = lease_reaper_pass clk io e"
  define f where "f = (if \<exists>x. fst p = Inl x then filter (\<lambda>n. n \<noteq> ''lease_reaper'') (en_background e) else en_background e)"
  have keeps: "en_background (snd p) = en_background e" "en_services (snd p) = en_services e"
    using background.frame_lease_reaper [of clk io e] by (simp_all add: p_def)
  have turn: "lease_reaper clk io e = (snd p)\<lparr>en_background := f\<rparr>"
    using assms(4) keeps by (cases p; cases "fst p") (auto simp: lease_reaper_def loop_turn_def f_def p_def [symmetric])
  have eq: "en_background (lease_reaper clk io e) = f" "lapsed (clk 0) (lease_reaper clk io e) = lapsed (clk 0) (snd p)"
    "en_services (lease_reaper clk io e)" "engine_inv (lease_reaper clk io e)"
    using keeps assms(3) lease_reaper_inv [OF engine_reachable_inv [OF assms(1)], of clk io]
    by (simp_all add: turn lapsed_def task_at_def p_def)
  have "lease_reaper clk' io' e' = e'"
    if "''lease_reaper'' \<notin> set f" "serving_step\<^sup>*\<^sup>* (lease_reaper clk io e) e'" for e' clk' io'
    using serving_background [OF that(2) eq(4,3)] that(1) eq(1) by (simp add: lease_reaper_def loop_turn_def)
  moreover have "''lease_reaper'' \<in> set f \<longleftrightarrow> \<not> (\<exists>x. fst p = Inl x)" using assms(4) by (simp add: f_def)
  ultimately show ?thesis
    unfolding eq(1,2) using lease_reaper_pass_fails_iff [OF assms(1,2), of clk] lease_reaper_pass_lapsed [OF assms(1,2), of clk]
    by (simp add: p_def)
qed

text \<open>
  One request is enough: a task with a priority beyond 64 bits, which the queue accepts before the store refuses
  it, is polled by a worker, and the pass that takes its lease back is the last one.
\<close>

definition demo_huge :: engine where
  "demo_huge = (let e = start_background_services demo_engine;
     e1 = snd (submit_task (quiet 10 demo_hex) ((default_spec ''m:f'')\<lparr>ts_priority := 2 ^ 63\<rparr>) e)
   in e1\<lparr>en_queue := run_thread (ThreadPoll (\<lambda>_. 20) [''default''] demo_worker {} 30) (en_queue e1)\<rparr>)"

lemma demo_huge_reachable: "engine_reachable demo_huge"
proof -
  have s: "engine_reachable (start_background_services demo_engine)"
    by (rule engine_reachable.step [OF demo_engine_reachable engine_step.start])
  have "fresh_hex hex (start_background_services demo_engine)" for hex
    using fresh_hex_demo [of hex] by (simp add: fresh_hex_def start_background_services_def)
  note s1 = engine_reachable.step [OF s engine_step.submit [OF this]]
  show ?thesis
    unfolding demo_huge_def Let_def by (rule engine_reachable.step [OF s1 engine_step.thread])
qed

theorem lease_reaper_survives_witness:
  "''lease_reaper'' \<in> set (en_background demo_huge)
   \<and> ''lease_reaper'' \<notin> set (en_background (lease_reaper (\<lambda>_. 60) (quiet 60 demo_hex) demo_huge))"
proof -
  have on: "en_services demo_huge" "''lease_reaper'' \<in> set (en_background demo_huge)" by code_simp+
  have "dict_get (inflight (en_queue demo_huge)) ''task-0'' = Some 0" "te_lease_deadline (task_at demo_huge 0) = Some 50"
    by code_simp+
  then have "0 \<in> lapsed 60 demo_huge" by (force simp: lapsed_def)
  moreover have "\<not> int64 (ts_priority (te_spec (task_at demo_huge 0)))" by code_simp
  moreover have "io_threads (quiet 60 demo_hex) = (\<lambda>_. [])" by (simp add: quiet_def)
  ultimately show ?thesis using lease_reaper_survives [OF demo_huge_reachable _ on, of "quiet 60 demo_hex" "\<lambda>_. 60"] on by blast
qed

end
