(* ===== verification/Process.thy ===== *)
theory Process
  imports Service Stubs Engine_Loops
begin

text \<open>
  \<open>run_scheduler\<close> of \<open>taskrunner/scheduler/service.py\<close> as a state machine: the main coroutine, the tasks of the
  gRPC server and of the HTTP server that it starts, and the scheduler that all of them share.  grpc and
  uvicorn decide when a server starts and ends; what the program does then is the model's.  uvicorn ends with
  \<open>sys.exit\<close> when it cannot bind its port, after it has entered and left the application's lifespan.
\<close>

section \<open>States\<close>

datatype outcome = Returned | Failed string | WasCancelled | Exited int

text \<open>\<open>serve_grpc\<close> waits for its server until it is cancelled, unless something in it raises.\<close>

datatype grpc_task = GrpcRunning | GrpcOver outcome

text \<open>\<open>uvicorn.Server.serve\<close> enters the lifespan of the application, binds its port, and leaves the lifespan before it
ends.\<close>

datatype api_task = ApiStarting | ApiServing | ApiOver outcome

text \<open>Where \<open>run_scheduler\<close> waits: for \<open>stop\<close>, for \<open>grpc_task\<close>, for \<open>api_task\<close>; or how it has ended.\<close>

datatype main_task = WaitStop | AwaitGrpc | AwaitApi | MainOver outcome

record process =
  pr_engine :: engine
  pr_logger :: root_logger
  pr_log :: "log_record list"
  pr_api_address :: "string \<times> int"
  pr_stop :: bool
  pr_grpc :: grpc_task
  pr_grpc_cancelled :: bool
  pr_api :: api_task
  pr_should_exit :: bool
  pr_main :: main_task
  pr_exit :: "int option"

text \<open>\<open>asyncio.run\<close> is over when the main coroutine is, or when a \<open>SystemExit\<close> has left the event loop.\<close>

definition alive :: "process \<Rightarrow> bool" where
  "alive p \<longleftrightarrow> pr_exit p = None \<and> (case pr_main p of MainOver _ \<Rightarrow> False | _ \<Rightarrow> True)"

section \<open>Steps\<close>

definition started_record :: "settings \<Rightarrow> log_record" where
  "started_record cfg = \<lparr>lr_levelname = ''INFO'', lr_name = ''taskrunner.scheduler.service'',
     lr_message = ''scheduler started'', lr_exception = None,
     lr_extra = [(''taskrunner_grpc'', PStr (grpc_target cfg)),
                 (''taskrunner_api'', PStr (st_api_host cfg @ '':'' @ show_int (st_api_port cfg)))]\<rparr>"

text \<open>\<open>run_scheduler\<close> up to \<open>await stop.wait()\<close>.\<close>

definition run_scheduler :: "root_logger \<Rightarrow> engine \<Rightarrow> process" where
  "run_scheduler l e = \<lparr>pr_engine = start_background_services e,
     pr_logger = configure_logging (st_log_level (en_config e)) l, pr_log = [started_record (en_config e)],
     pr_api_address = (st_api_host (en_config e), st_api_port (en_config e)),
     pr_stop = False, pr_grpc = GrpcRunning, pr_grpc_cancelled = False, pr_api = ApiStarting,
     pr_should_exit = False, pr_main = WaitStop, pr_exit = None\<rparr>"

text \<open>After \<open>await stop.wait()\<close>.\<close>

definition begin_shutdown :: "process \<Rightarrow> process" where
  "begin_shutdown p = p\<lparr>pr_should_exit := True, pr_grpc_cancelled := True, pr_main := AwaitGrpc\<rparr>"

text \<open>\<open>with suppress(asyncio.CancelledError): await grpc_task\<close>\<close>

definition after_grpc :: "outcome \<Rightarrow> process \<Rightarrow> process" where
  "after_grpc out p = p\<lparr>pr_main := (case out of Failed x \<Rightarrow> MainOver (Failed x) | _ \<Rightarrow> AwaitApi)\<rparr>"

text \<open>\<open>await api_task\<close> and what follows.\<close>

definition after_api :: "outcome \<Rightarrow> process \<Rightarrow> process" where
  "after_api out p =
     (if out = Returned
      then p\<lparr>pr_engine := stop_background_services (pr_engine p), pr_main := MainOver Returned\<rparr>
      else p\<lparr>pr_main := MainOver out\<rparr>)"

text \<open>The two halves of \<open>lifespan\<close> in \<open>create_app\<close>.\<close>

definition lifespan_enter :: "process \<Rightarrow> process" where
  "lifespan_enter p = p\<lparr>pr_engine := start_background_services (pr_engine p), pr_api := ApiServing\<rparr>"

definition lifespan_exit :: "outcome \<Rightarrow> process \<Rightarrow> process" where
  "lifespan_exit out p = p\<lparr>pr_engine := stop_background_services (pr_engine p), pr_api := ApiOver out\<rparr>"

text \<open>
  A \<open>SystemExit\<close> that a task raises leaves the event loop at once; \<open>asyncio.run\<close> then cancels the tasks that
  are left and raises it again.  The main coroutine ends cancelled where it waits; only while it waits for
  \<open>grpc_task\<close> it suppresses the cancellation, and meets the exit at \<open>await api_task\<close>.
\<close>

definition leave_loop :: "int \<Rightarrow> process \<Rightarrow> process" where
  "leave_loop code p = p\<lparr>pr_exit := Some code,
     pr_grpc := (case pr_grpc p of GrpcRunning \<Rightarrow> GrpcOver WasCancelled | over \<Rightarrow> over),
     pr_main := MainOver (if pr_main p = AwaitGrpc then Exited code else WasCancelled)\<rparr>"

text \<open>
  The scheduler's own steps: its handlers, which neither start nor stop the services, and the turns of its
  background loops.
\<close>

inductive scheduler_step :: "engine \<Rightarrow> engine \<Rightarrow> bool" where
  handler: "engine_step e e' \<Longrightarrow> en_services e' = en_services e \<Longrightarrow> en_background e' = en_background e \<Longrightarrow> scheduler_step e e'"
| heartbeats: "scheduler_step e (heartbeat_reaper clk e)"
| leases: "scheduler_step e (lease_reaper clk io e)"
| pressure: "scheduler_step e (pressure_reporter io e)"

text \<open>
  \<open>signal\<close> sets \<open>stop\<close>; only its own cancellation makes \<open>serve_grpc\<close> end as cancelled.  The HTTP server can
  give up before it has entered the lifespan, end after it, or exit.
\<close>

inductive process_step :: "process \<Rightarrow> process \<Rightarrow> bool" where
  signal: "alive p \<Longrightarrow> process_step p (p\<lparr>pr_stop := True\<rparr>)"
| scheduler: "alive p \<Longrightarrow> scheduler_step (pr_engine p) e \<Longrightarrow> process_step p (p\<lparr>pr_engine := e\<rparr>)"
| grpc_ends: "alive p \<Longrightarrow> pr_grpc p = GrpcRunning \<Longrightarrow> out = Returned \<or> out = Failed x \<or> out = WasCancelled \<and> pr_grpc_cancelled p \<Longrightarrow>
    process_step p (p\<lparr>pr_grpc := GrpcOver out\<rparr>)"
| api_starts: "alive p \<Longrightarrow> pr_api p = ApiStarting \<Longrightarrow> process_step p (lifespan_enter p)"
| api_gives_up: "alive p \<Longrightarrow> pr_api p = ApiStarting \<Longrightarrow> out = Returned \<or> out = Failed x \<Longrightarrow>
    process_step p (p\<lparr>pr_api := ApiOver out\<rparr>)"
| api_ends: "alive p \<Longrightarrow> pr_api p = ApiServing \<Longrightarrow> out = Returned \<or> out = Failed x \<Longrightarrow> process_step p (lifespan_exit out p)"
| api_exits: "alive p \<Longrightarrow> pr_api p = ApiServing \<Longrightarrow> process_step p (leave_loop code (lifespan_exit (Exited code) p))"
| stopping: "pr_main p = WaitStop \<Longrightarrow> alive p \<Longrightarrow> pr_stop p \<Longrightarrow> process_step p (begin_shutdown p)"
| grpc_awaited: "alive p \<Longrightarrow> pr_main p = AwaitGrpc \<Longrightarrow> pr_grpc p = GrpcOver out \<Longrightarrow> process_step p (after_grpc out p)"
| api_awaited: "alive p \<Longrightarrow> pr_main p = AwaitApi \<Longrightarrow> pr_api p = ApiOver out \<Longrightarrow> process_step p (after_api out p)"

inductive process_reachable :: "process \<Rightarrow> bool" where
  start: "engine_inv e \<Longrightarrow> en_background e = [] \<Longrightarrow> \<not> en_services e \<Longrightarrow> process_reachable (run_scheduler l e)"
| step: "process_reachable p \<Longrightarrow> process_step p p' \<Longrightarrow> process_reachable p'"

inductive_cases process_stepE [consumes 1,
    case_names signal scheduler grpc_ends api_starts api_gives_up api_ends api_exits stopping grpc_awaited api_awaited]:
  "process_step p p'"

section \<open>The services of one process\<close>

definition service_names :: "string list" where
  "service_names = [''heartbeat_reaper'', ''lease_reaper'', ''pressure_reporter'']"

text \<open>Services run once each, and only while they are switched on.\<close>

definition services_ok :: "engine \<Rightarrow> bool" where
  "services_ok e \<longleftrightarrow> subseq (en_background e) service_names \<and> (en_background e \<noteq> [] \<longrightarrow> en_services e)"

lemma services_ok_start_stop [simp]:
  "services_ok e \<Longrightarrow> services_ok (start_background_services e)" "services_ok (stop_background_services e)"
  by (auto simp: services_ok_def service_names_def start_background_services_def stop_background_services_def)

lemma stop_off [simp]: "\<not> en_services (stop_background_services e)" "en_background (stop_background_services e) = []"
  by (simp_all add: stop_background_services_def)

text \<open>A turn of a loop that only its pass touches otherwise.\<close>

lemma loop_turn_services:
  assumes "\<And>e. en_background (snd (pass e)) = en_background e" "\<And>e. en_services (snd (pass e)) = en_services e"
    and "services_ok e"
  shows "services_ok (loop_turn name pass e)"
proof -
  have "subseq (filter (\<lambda>n. n \<noteq> name) (en_background e)) service_names"
    using assms(3) by (meson services_ok_def subseq_filter_left subseq_order.order_trans)
  then show ?thesis
    using assms(1) [of e] assms(2) [of e] assms(3)
    by (cases "pass e"; cases "fst (pass e)") (auto simp: loop_turn_def services_ok_def)
qed

lemma loop_turn_inv:
  assumes "\<And>e. engine_inv e \<Longrightarrow> engine_inv (snd (pass e))" "engine_inv e"
  shows "engine_inv (loop_turn name pass e)"
  using assms(1) [OF assms(2)] assms(2) by (cases "pass e"; cases "fst (pass e)") (simp_all add: loop_turn_def)

lemma pass_fields:
  "en_background (snd (heartbeat_reaper_pass clk e)) = en_background e" "en_services (snd (heartbeat_reaper_pass clk e)) = en_services e"
  "en_background (snd (lease_reaper_pass clk io e)) = en_background e" "en_services (snd (lease_reaper_pass clk io e)) = en_services e"
  "en_background (pressure_reporter_pass io e) = en_background e" "en_services (pressure_reporter_pass io e) = en_services e"
  using background.frame_handlers(8) [of clk io e] background.frame_handlers(9) [of clk e]
    background.frame_handlers(10) [of io e] by simp_all

lemma scheduler_step_ok:
  assumes "scheduler_step e e'" "engine_inv e" "services_ok e"
  shows "engine_inv e' \<and> services_ok e'"
  using assms
proof (induction rule: scheduler_step.induct)
  case (handler e e')
  then show ?case using engine_step_inv by (simp add: services_ok_def)
qed (auto simp: heartbeat_reaper_def lease_reaper_def pressure_reporter_def pass_fields
      intro!: loop_turn_services loop_turn_inv intro: keeps_inv)

section \<open>Life and end of the process\<close>

text \<open>What the main coroutine has seen, at each of its stages.\<close>

definition grpc_fine :: "process \<Rightarrow> bool" where
  "grpc_fine p \<longleftrightarrow> pr_grpc p \<in> {GrpcOver Returned, GrpcOver WasCancelled}"

definition stage_ok :: "process \<Rightarrow> bool" where
  "stage_ok p \<longleftrightarrow> (case pr_exit p of
      Some code \<Rightarrow> pr_api p = ApiOver (Exited code) \<and> en_background (pr_engine p) = []
        \<and> (pr_main p = MainOver WasCancelled \<or> pr_stop p \<and> pr_main p = MainOver (Exited code))
    | None \<Rightarrow> (case pr_main p of
          WaitStop \<Rightarrow> \<not> pr_should_exit p \<and> \<not> pr_grpc_cancelled p
        | AwaitGrpc \<Rightarrow> pr_stop p \<and> pr_should_exit p
        | AwaitApi \<Rightarrow> pr_stop p \<and> pr_should_exit p \<and> grpc_fine p
        | MainOver out \<Rightarrow> (case out of
              Returned \<Rightarrow> pr_stop p \<and> grpc_fine p \<and> pr_api p = ApiOver Returned \<and> \<not> en_services (pr_engine p)
            | Failed x \<Rightarrow> pr_stop p \<and> (pr_grpc p = GrpcOver (Failed x) \<or> grpc_fine p \<and> pr_api p = ApiOver (Failed x))
            | _ \<Rightarrow> False))
      \<and> pr_api p \<noteq> ApiOver WasCancelled \<and> (\<forall>code. pr_api p \<noteq> ApiOver (Exited code))
      \<and> (\<forall>code. pr_grpc p \<noteq> GrpcOver (Exited code)))"

definition process_ok :: "process \<Rightarrow> bool" where
  "process_ok p \<longleftrightarrow> engine_inv (pr_engine p) \<and> services_ok (pr_engine p) \<and> stage_ok p"

text \<open>A scheduler whose services are off keeps them off.\<close>

lemma scheduler_step_services:
  assumes "scheduler_step e e'" shows "en_services e' = en_services e"
  using assms
proof (induction rule: scheduler_step.induct)
  case (heartbeats e clk)
  then show ?case using pass_fields(2) [of clk e]
    by (cases "heartbeat_reaper_pass clk e"; cases "fst (heartbeat_reaper_pass clk e)")
      (simp_all add: heartbeat_reaper_def loop_turn_def)
next
  case (leases e clk io)
  then show ?case using pass_fields(4) [of clk io e]
    by (cases "lease_reaper_pass clk io e"; cases "fst (lease_reaper_pass clk io e)")
      (simp_all add: lease_reaper_def loop_turn_def)
qed (simp_all add: pressure_reporter_def loop_turn_def pass_fields)

lemma alive_cases:
  assumes "alive p"
  shows "pr_exit p = None" "pr_main p \<in> {WaitStop, AwaitGrpc, AwaitApi}"
  using assms by (auto simp: alive_def split: main_task.splits)

lemma process_ok_step:
  assumes "process_step p p'" "process_ok p"
  shows "process_ok p'"
  using assms(1)
proof (cases rule: process_stepE)
  case (scheduler e)
  then have "engine_inv e" "services_ok e" "en_services e = en_services (pr_engine p)"
    using scheduler_step_ok scheduler_step_services assms(2) unfolding process_ok_def by blast+
  with scheduler alive_cases [OF scheduler(2)] assms(2) show ?thesis
    by (auto simp: process_ok_def stage_ok_def grpc_fine_def)
next
  case (grpc_ends out x)
  with alive_cases [OF grpc_ends(2)] assms(2) show ?thesis
    by (auto simp: process_ok_def stage_ok_def grpc_fine_def)
next
  case (grpc_awaited out)
  with alive_cases [OF grpc_awaited(2)] assms(2) show ?thesis
    by (cases out) (auto simp: process_ok_def stage_ok_def grpc_fine_def after_grpc_def)
next
  case (api_awaited out)
  with alive_cases [OF api_awaited(2)] assms(2) show ?thesis
    by (cases out) (auto simp: process_ok_def stage_ok_def grpc_fine_def after_api_def services_inv)
next
  case (api_exits code)
  with alive_cases [OF api_exits(2)] assms(2) show ?thesis
    by (auto simp: process_ok_def stage_ok_def leave_loop_def lifespan_exit_def services_inv)
next
  case signal
  with alive_cases [OF signal(2)] assms(2) show ?thesis by (auto simp: process_ok_def stage_ok_def grpc_fine_def)
next
  case api_starts
  with alive_cases [OF api_starts(2)] assms(2) show ?thesis
    by (auto simp: process_ok_def stage_ok_def grpc_fine_def lifespan_enter_def services_inv)
next
  case (api_gives_up out x)
  with alive_cases [OF api_gives_up(2)] assms(2) show ?thesis
    by (auto simp: process_ok_def stage_ok_def grpc_fine_def)
next
  case (api_ends out x)
  with alive_cases [OF api_ends(2)] assms(2) show ?thesis
    by (auto simp: process_ok_def stage_ok_def grpc_fine_def lifespan_exit_def services_inv)
next
  case stopping
  with alive_cases [OF stopping(3)] assms(2) show ?thesis
    by (auto simp: process_ok_def stage_ok_def begin_shutdown_def)
qed

lemma process_reachable_ok: "process_reachable p \<Longrightarrow> process_ok p"
proof (induction rule: process_reachable.induct)
  case (start e l)
  then show ?case
    by (simp add: process_ok_def stage_ok_def run_scheduler_def services_inv services_ok_def service_names_def
        start_background_services_def)
qed (rule process_ok_step)

text \<open>
  C19. The scheduler process, whatever its servers do and whenever a signal comes.  Each background service
  runs at most once, although the main coroutine and the application's lifespan both start them.  Without a
  signal the main coroutine waits on, even when the gRPC server has long failed, so that no worker can reach
  the scheduler, unless the HTTP server exits because its port is taken: then the process ends at once with
  that exit status, signal or not, the main coroutine cancelled and the services stopped.  Otherwise the
  process ends without an error only after a signal and if neither server failed, and then the services are off; it ends
  with an error only after a signal, with that of a server.
\<close>
theorem process_lifecycle:
  assumes "process_reachable p"
  shows "subseq (en_background (pr_engine p)) service_names
    \<and> (\<not> pr_stop p \<longrightarrow> pr_main p = WaitStop \<or> pr_exit p \<noteq> None)
    \<and> (\<forall>code. pr_exit p = Some code \<longrightarrow> pr_api p = ApiOver (Exited code) \<and> en_background (pr_engine p) = []
         \<and> (pr_main p = MainOver WasCancelled \<or> pr_stop p \<and> pr_main p = MainOver (Exited code)))
    \<and> (pr_main p = MainOver Returned \<longrightarrow> pr_stop p \<and> pr_grpc p \<in> {GrpcOver Returned, GrpcOver WasCancelled}
         \<and> pr_api p = ApiOver Returned \<and> en_background (pr_engine p) = [])
    \<and> (\<forall>x. pr_main p = MainOver (Failed x) \<longrightarrow>
         pr_stop p \<and> (pr_grpc p = GrpcOver (Failed x) \<or> pr_api p = ApiOver (Failed x)))"
  using process_reachable_ok [OF assms]
  by (cases "pr_exit p"; cases "pr_main p")
    (auto simp: process_ok_def stage_ok_def services_ok_def grpc_fine_def split: outcome.splits)

text \<open>The port of the gRPC server is taken: the process serves HTTP and waits; after a signal it fails.\<close>

lemmas process_defs = lifespan_enter_def lifespan_exit_def run_scheduler_def begin_shutdown_def after_grpc_def
  leave_loop_def alive_def start_background_services_def stop_background_services_def

definition demo_started :: process where
  "demo_started = run_scheduler \<lparr>rl_root_level = [], rl_handlers = []\<rparr> demo_engine"

definition demo_deaf :: process where
  "demo_deaf = lifespan_enter (demo_started\<lparr>pr_grpc := GrpcOver (Failed ''RuntimeError'')\<rparr>)"

lemma demo_started_reachable: "process_reachable demo_started"
  unfolding demo_started_def
  using engine_reachable_inv [OF demo_engine_reachable]
  by (intro process_reachable.start) (simp_all add: demo_engine_def new_engine_def)

lemma demo_deaf_reachable: "process_reachable demo_deaf"
proof -
  have "process_step demo_started (demo_started\<lparr>pr_grpc := GrpcOver (Failed ''RuntimeError'')\<rparr>)"
    by (rule process_step.grpc_ends) (simp_all add: demo_started_def process_defs)
  with demo_started_reachable have "process_reachable (demo_started\<lparr>pr_grpc := GrpcOver (Failed ''RuntimeError'')\<rparr>)"
    by (rule process_reachable.step)
  then show ?thesis
    unfolding demo_deaf_def
    by (rule process_reachable.step) (rule process_step.api_starts, simp_all add: demo_started_def process_defs)
qed

lemma demo_deaf_fails:
  "\<exists>p. process_reachable p \<and> pr_main p = MainOver (Failed ''RuntimeError'') \<and> en_background (pr_engine p) = service_names"
proof -
  let ?s = "demo_deaf\<lparr>pr_stop := True\<rparr>"
  note d = demo_deaf_def demo_started_def process_defs
  have "process_step demo_deaf ?s" by (rule process_step.signal) (simp add: d)
  with demo_deaf_reachable have "process_reachable ?s" by (rule process_reachable.step)
  moreover have "process_step ?s (begin_shutdown ?s)"
    by (rule process_step.stopping) (simp_all add: d)
  ultimately have "process_reachable (begin_shutdown ?s)" by (rule process_reachable.step)
  moreover have "process_step (begin_shutdown ?s) (after_grpc (Failed ''RuntimeError'') (begin_shutdown ?s))"
    by (rule process_step.grpc_awaited) (simp_all add: d)
  ultimately have "process_reachable (after_grpc (Failed ''RuntimeError'') (begin_shutdown ?s))" by (rule process_reachable.step)
  then show ?thesis
    by (intro exI [of _ "after_grpc (Failed ''RuntimeError'') (begin_shutdown ?s)"] conjI)
      (simp_all add: d service_names_def demo_engine_def new_engine_def)
qed

text \<open>The port of the HTTP server is taken: the process is over without a signal.\<close>

lemma demo_port_taken:
  "\<exists>p. process_reachable p \<and> \<not> pr_stop p \<and> pr_exit p = Some 1"
proof -
  let ?s = "lifespan_enter demo_started"
  note d = demo_started_def process_defs
  have "process_step demo_started ?s" by (rule process_step.api_starts) (simp_all add: d)
  with demo_started_reachable have "process_reachable ?s" by (rule process_reachable.step)
  moreover have "process_step ?s (leave_loop 1 (lifespan_exit (Exited 1) ?s))"
    by (rule process_step.api_exits) (simp_all add: d)
  ultimately have "process_reachable (leave_loop 1 (lifespan_exit (Exited 1) ?s))" by (rule process_reachable.step)
  then show ?thesis by (intro exI [of _ "leave_loop 1 (lifespan_exit (Exited 1) ?s)"]) (simp add: d)
qed

theorem process_lifecycle_witness:
  "process_reachable demo_deaf \<and> pr_main demo_deaf = WaitStop
   \<and> (\<exists>p. process_reachable p \<and> pr_main p = MainOver (Failed ''RuntimeError'') \<and> pr_stop p
       \<and> en_background (pr_engine p) = service_names)
   \<and> (\<exists>p. process_reachable p \<and> \<not> pr_stop p \<and> pr_exit p = Some 1 \<and> pr_main p = MainOver WasCancelled)"
proof -
  have "\<not> pr_stop demo_deaf" "pr_exit demo_deaf = None" by (simp_all add: demo_deaf_def demo_started_def process_defs)
  then have "pr_main demo_deaf = WaitStop" using process_lifecycle [OF demo_deaf_reachable] by blast
  then show ?thesis using demo_deaf_reachable demo_deaf_fails demo_port_taken process_lifecycle by blast
qed

end
