(* ===== verification/Monitor.thy ===== *)
theory Monitor
  imports Cli App Service
begin

text \<open>
  The monitoring commands of \<open>taskrunner/cli/main.py\<close> (\<open>workers\<close>, \<open>queues\<close>, \<open>logs\<close>, \<open>monitor\<close>), which read
  the HTTP interface, and that interface as they reach it.

  \<open>urllib\<close> fetches: the transport is a parameter, a function of the URL and the state of the world.
\<close>

section \<open>Fetching\<close>

text \<open>\<open>Unreachable\<close>: \<open>urlopen\<close> raises \<open>URLError\<close> before there is an answer.\<close>

datatype http_reply = HttpStatus nat string | Unreachable string

type_synonym 'st http = "string \<Rightarrow> 'st \<Rightarrow> http_reply \<times> 'st"

datatype api_error = CannotReach string | InvalidURL | BadReply json_error

text \<open>
  What \<open>Request\<close> and \<open>urlopen\<close> make of a URL: blanks around it and what follows the last \<open>#\<close> are dropped; a control
  character, a blank or a character beyond ASCII raises an exception that is no \<open>URLError\<close>.
\<close>

definition url_char :: "char \<Rightarrow> bool" where
  "url_char c \<longleftrightarrow> (let n = (of_char c :: nat) in 33 \<le> n \<and> n \<le> 126)"

definition requested_url :: "string \<Rightarrow> string" where
  "requested_url url = (let u = strip url
     in if CHR ''#'' \<in> set u then rev (tl (dropWhile (\<lambda>c. c \<noteq> CHR ''#'') (rev u))) else u)"

text \<open>\<open>HTTPError\<close>, raised for every status that is no success, is a \<open>URLError\<close>.\<close>

definition api_get :: "'st http \<Rightarrow> settings \<Rightarrow> string \<Rightarrow> 'st \<Rightarrow> (api_error + pyval) \<times> 'st" where
  "api_get http cfg path st =
     (let url = api_url cfg path; sent = requested_url url
      in if \<not> list_all url_char sent then (Inl InvalidURL, st)
         else case http sent st of
             (Unreachable why, st1) \<Rightarrow> (Inl (CannotReach url), st1)
           | (HttpStatus n body, st1) \<Rightarrow>
               ((if 200 \<le> n \<and> n < 300
                 then case loads body of Inl x \<Rightarrow> Inl (BadReply x) | Inr v \<Rightarrow> Inr v
                 else Inl (CannotReach url)), st1))"

section \<open>The commands\<close>




text \<open>
  A turn of the loop of \<open>monitor\<close>: the sleep ends, or control-C comes while it sleeps or fetches.  \<open>time.sleep\<close>
  refuses a negative interval.  The output is what has been printed; \<open>None\<close>: the loop still runs.
\<close>

datatype monitor_turn = Slept | InterruptedSleep | InterruptedFetch
datatype monitor_end = MonitorStopped | MonitorFailed api_error | BadInterval

fun monitor :: "'st http \<Rightarrow> settings \<Rightarrow> real \<Rightarrow> monitor_turn list \<Rightarrow> 'st \<Rightarrow> pyval list \<times> monitor_end option \<times> 'st" where
  "monitor http cfg interval [] st = ([], None, st)"
| "monitor http cfg interval (turn # turns) st =
     (if turn = InterruptedFetch then ([], Some MonitorStopped, st)
      else case api_get http cfg ''/metrics'' st of
          (Inl x, st1) \<Rightarrow> ([], Some (MonitorFailed x), st1)
        | (Inr v, st1) \<Rightarrow>
            if interval < 0 then ([v], Some BadInterval, st1)
            else if turn = InterruptedSleep then ([v], Some MonitorStopped, st1)
            else (case monitor http cfg interval turns st1 of (vs, r, st2) \<Rightarrow> (v # vs, r, st2)))"

section \<open>The interface behind the URL\<close>










section \<open>From the command to the scheduler's state\<close>

definition plain_url :: "string \<Rightarrow> bool" where
  "plain_url s \<longleftrightarrow> list_all (\<lambda>c. url_char c \<and> c \<noteq> CHR ''#'') s"


lemma plain_Cons [simp]: "plain_url []" "plain_url (c # s) \<longleftrightarrow> url_char c \<and> c \<noteq> CHR ''#'' \<and> plain_url s"
  by (simp_all add: plain_url_def)
















end
