(* ===== verification/Events_Props.thy ===== *)
theory Events_Props
  imports Events
begin

text \<open>Properties of the event bus: the replay window, and what a subscriber receives.\<close>

lemma do_call_replay:
  "eb_replay (snd (do_call c b)) =
     (case c of Publish e \<Rightarrow> last_n (eb_replay_size b) (eb_replay b @ [e]) | _ \<Rightarrow> eb_replay b)"
  "eb_replay_size (snd (do_call c b)) = eb_replay_size b"
  by (cases c rule: bus_call.exhaust;
      simp add: do_call_next frame_simps publish_def del: do_call.simps(3))+

lemma run_bus_replay:
  "eb_replay (snd (run_bus cs b)) = (if published cs = [] then eb_replay b
     else last_n (eb_replay_size b) (eb_replay b @ published cs))"
proof (induction cs arbitrary: b)
  case (Cons c cs)
  show ?case
    using Cons.IH [of "snd (do_call c b)"]
    by (cases c) (auto simp: Let_def do_call_replay last_n_append simp del: do_call.simps)
qed simp

text \<open>
  The bus remembers exactly the last \<open>replay_size\<close> published events, in order, whatever
  subscribers do in between; this is what a new subscription replays first.
\<close>
theorem replay_window:
  "eb_replay (snd (run_bus cs (new_bus n))) = last_n n (published cs)
   \<and> sub_of i (subscribe i True (snd (run_bus cs (new_bus n))))
       = Some \<lparr>sb_history = last_n n (published cs), sb_queue = []\<rparr>"
proof -
  have "eb_replay (snd (run_bus cs (new_bus n))) = last_n n (published cs)"
    by (simp add: run_bus_replay new_bus_def last_n_def)
  then show ?thesis by simp
qed

lemma received_append [simp]: "received i (xs @ ys) = received i xs @ received i ys"
  by (simp add: received_def)

text \<open>One call moves at most one event into a subscription or out of it.\<close>

lemma do_call_delivery:
  assumes sb: "sub_of i b = Some sb" and keeps: "keeps_subscription i [c]"
  shows "\<exists>sb'. sub_of i (snd (do_call c b)) = Some sb'
    \<and> (received i (fst (do_call c b)) @ pending sb' = pending sb @ published [c]
       \<or> queue_maxsize \<le> length (sb_queue sb) \<and> received i (fst (do_call c b)) @ pending sb' = pending sb)
    \<and> length (sb_queue sb') \<le> length (sb_queue sb) + length (published [c])"
proof (cases c)
  case (Publish e)
  then show ?thesis
    using sb put_nowait_cases [of e sb] by (auto simp: received_def put_nowait_def)
next
  case (Next j)
  show ?thesis
  proof (cases "j = i")
    case True
    from take_event_cases [of sb] show ?thesis
      using sb Next True by (auto simp: do_call_next fst_next sub_of_next received_def simp del: do_call.simps)
  next
    case False
    have "received i (fst (do_call c b)) = []"
      using Next False by (auto simp: do_call_next received_def simp del: do_call.simps split: option.split)
    then show ?thesis
      using sb Next False by (simp add: do_call_next sub_of_next del: do_call.simps)
  qed
qed (use sb keeps in \<open>auto simp: keeps_subscription_def received_def\<close>)

lemma published_Cons: "published (c # cs) = published [c] @ published cs"
  by (cases c) auto

lemma delivery:
  assumes "sub_of i b = Some sb" and "keeps_subscription i cs"
  shows "\<exists>sb'. sub_of i (snd (run_bus cs b)) = Some sb'
    \<and> subseq (received i (fst (run_bus cs b)) @ pending sb') (pending sb @ published cs)
    \<and> (length (sb_queue sb) + length (published cs) \<le> queue_maxsize \<longrightarrow>
         received i (fst (run_bus cs b)) @ pending sb' = pending sb @ published cs)"
  using assms
proof (induction cs arbitrary: b sb)
  case Nil
  then show ?case by (simp add: received_def)
next
  case (Cons c cs)
  have "keeps_subscription i [c]" using Cons.prems(2) by (simp add: keeps_subscription_def)
  from do_call_delivery [OF Cons.prems(1) this] obtain sb1 where
    sb1: "sub_of i (snd (do_call c b)) = Some sb1"
    and one: "received i (fst (do_call c b)) @ pending sb1 = pending sb @ published [c]
       \<or> queue_maxsize \<le> length (sb_queue sb) \<and> received i (fst (do_call c b)) @ pending sb1 = pending sb"
    and room: "length (sb_queue sb1) \<le> length (sb_queue sb) + length (published [c])" by blast
  have "keeps_subscription i cs" using Cons.prems(2) by (simp add: keeps_subscription_def)
  from Cons.IH [OF sb1 this] obtain sb2 where
    sb2: "sub_of i (snd (run_bus cs (snd (do_call c b)))) = Some sb2"
    and sub: "subseq (received i (fst (run_bus cs (snd (do_call c b)))) @ pending sb2) (pending sb1 @ published cs)"
    and all: "length (sb_queue sb1) + length (published cs) \<le> queue_maxsize \<longrightarrow>
         received i (fst (run_bus cs (snd (do_call c b)))) @ pending sb2 = pending sb1 @ published cs" by blast
  let ?r = "received i (fst (do_call c b))" and ?rs = "received i (fst (run_bus cs (snd (do_call c b))))"
  have "subseq (?r @ (?rs @ pending sb2)) (?r @ (pending sb1 @ published cs))"
    using sub by (rule list_emb_append_mono [OF subseq_order.order_refl])
  moreover have "subseq (?r @ pending sb1 @ published cs) (pending sb @ published (c # cs))"
  proof -
    have "subseq (?r @ pending sb1) (pending sb @ published [c])" using one by auto
    then have "subseq ((?r @ pending sb1) @ published cs) ((pending sb @ published [c]) @ published cs)"
      by (rule list_emb_append_mono [OF _ subseq_order.order_refl])
    then show ?thesis using published_Cons [of c cs] by simp
  qed
  ultimately have "subseq (?r @ ?rs @ pending sb2) (pending sb @ published (c # cs))"
    by (rule subseq_order.order_trans)
  moreover have "?r @ ?rs @ pending sb2 = pending sb @ published (c # cs)"
    if "length (sb_queue sb) + length (published (c # cs)) \<le> queue_maxsize"
  proof -
    have le: "length (sb_queue sb) + length (published [c]) + length (published cs) \<le> queue_maxsize"
      using that published_Cons [of c cs] by simp
    with room all have "?rs @ pending sb2 = pending sb1 @ published cs" by simp
    moreover have "?r @ pending sb1 = pending sb @ published [c]"
      using one le by (cases "published [c]") auto
    ultimately show ?thesis using published_Cons [of c cs] by (metis append.assoc)
  qed
  ultimately show ?case using sb2 by (simp add: Let_def)
qed

text \<open>
  A subscriber receives the replayed history and then the events published since it subscribed,
  in order, none twice and none invented: what it has received and what is still waiting for it are
  together a subsequence of history plus published events.  As long as the queue cannot have
  overflowed (no more than 1000 events published), nothing is missing.
\<close>
theorem subscriber_receives:
  assumes "keeps_subscription i cs"
  shows "let (out, b) = run_bus cs (subscribe i True (snd (run_bus before (new_bus n))));
             sent = last_n n (published before) @ published cs
    in \<exists>sb. sub_of i b = Some sb \<and> subseq (received i out @ pending sb) sent
       \<and> (length (published cs) \<le> queue_maxsize \<longrightarrow> received i out @ pending sb = sent)"
proof -
  have "sub_of i (subscribe i True (snd (run_bus before (new_bus n))))
      = Some \<lparr>sb_history = last_n n (published before), sb_queue = []\<rparr>"
    by (simp add: run_bus_replay new_bus_def last_n_def)
  from delivery [OF this assms(1)] show ?thesis by (simp add: pending_def Let_def split: prod.split) (metis prod.sel)
qed

definition demo_event :: "string \<Rightarrow> cluster_event" where
  "demo_event x = new_event x 0 TASK_SUBMITTED []"

text \<open>Two events before a subscription with a replay window of one, one more after it.\<close>

theorem subscriber_receives_witness:
  "let (out, b) = run_bus [Next 1, Publish (demo_event ''c''), Next 1]
         (subscribe 1 True (snd (run_bus [Publish (demo_event ''a''), Publish (demo_event ''b'')] (new_bus 1))));
       sent = last_n 1 (published [Publish (demo_event ''a''), Publish (demo_event ''b'')])
           @ published [Next 1, Publish (demo_event ''c''), Next 1]
    in \<exists>sb. sub_of 1 b = Some sb \<and> subseq (received 1 out @ pending sb) sent
       \<and> (length (published [Next 1, Publish (demo_event ''c''), Next 1]) \<le> queue_maxsize \<longrightarrow>
            received 1 out @ pending sb = sent)"
  by (rule subscriber_receives) (simp add: keeps_subscription_def)

end
