(* ===== verification/Socket.thy ===== *)
theory Socket
  imports App Events_Props
begin

text \<open>
  The web socket \<open>/events\<close> of \<open>taskrunner/api/app.py\<close>: the endpoint that streams the bus to a client, its
  keepalive task, and how both end.  Whether a frame can be sent is starlette's to say.
\<close>

section \<open>The session\<close>

datatype send_error = Disconnect | SendFailed string

text \<open>
  The endpoint waits for the subscription, sends an event, is in its \<open>finally\<close> block (with the exception on
  the way, if any), or is over (with the exception it raised).
\<close>

datatype handler = Streaming | Sending cluster_event | Closing "send_error option" | Done "send_error option"

text \<open>The task \<open>_websocket_keepalive\<close> ends by the failure of a send, or by being cancelled.\<close>

datatype keepalive = KeepaliveSleeping | KeepaliveEnded "send_error option"

datatype frame = EventFrame cluster_event | KeepaliveFrame

definition frame_json :: "frame \<Rightarrow> (string, pyval) dict" where
  "frame_json f = (case f of EventFrame e \<Rightarrow> event_to_dict e | KeepaliveFrame \<Rightarrow> keepalive_frame)"

record session =
  ss_bus :: event_bus
  ss_handler :: handler
  ss_keepalive :: keepalive
  ss_client :: "frame list"

text \<open>\<open>accept\<close>, the keepalive task, and the first turn of the subscription.\<close>

definition open_socket :: "nat \<Rightarrow> event_bus \<Rightarrow> session" where
  "open_socket i b = \<lparr>ss_bus = subscribe i True b, ss_handler = Streaming, ss_keepalive = KeepaliveSleeping, ss_client = []\<rparr>"

text \<open>
  What happens: a call of the bus by somebody else, the endpoint's next event, the outcome of its send, the
  outcome of a keepalive (after 30 seconds), the \<open>finally\<close> block, and the end of the abandoned generator.
\<close>

datatype socket_event =
    Other bus_call
  | Fetch
  | SendOk
  | SendFails send_error
  | KeepaliveOk
  | KeepaliveFails send_error
  | Cleanup
  | Release

fun socket_step :: "nat \<Rightarrow> socket_event \<Rightarrow> session \<Rightarrow> session" where
  "socket_step i (Other c) s = s\<lparr>ss_bus := snd (do_call c (ss_bus s))\<rparr>"
| "socket_step i Fetch s =
     (if ss_handler s = Streaming
      then case next_event i (ss_bus s) of
             (None, b) \<Rightarrow> s\<lparr>ss_bus := b\<rparr>
           | (Some e, b) \<Rightarrow> s\<lparr>ss_bus := b, ss_handler := Sending e\<rparr>
      else s)"
| "socket_step i SendOk s =
     (case ss_handler s of
        Sending e \<Rightarrow> s\<lparr>ss_handler := Streaming, ss_client := ss_client s @ [EventFrame e]\<rparr>
      | _ \<Rightarrow> s)"
| "socket_step i (SendFails x) s =
     (case ss_handler s of
        Sending e \<Rightarrow> s\<lparr>ss_handler := Closing (if x = Disconnect then None else Some x)\<rparr>
      | _ \<Rightarrow> s)"
| "socket_step i KeepaliveOk s =
     (if ss_keepalive s = KeepaliveSleeping then s\<lparr>ss_client := ss_client s @ [KeepaliveFrame]\<rparr> else s)"
| "socket_step i (KeepaliveFails x) s =
     (if ss_keepalive s = KeepaliveSleeping then s\<lparr>ss_keepalive := KeepaliveEnded (Some x)\<rparr> else s)"
| "socket_step i Cleanup s =
     (case ss_handler s of
        Closing r \<Rightarrow>
          (case ss_keepalive s of
             KeepaliveEnded (Some x) \<Rightarrow> s\<lparr>ss_handler := Done (Some x)\<rparr>
           | _ \<Rightarrow> s\<lparr>ss_handler := Done r, ss_keepalive := KeepaliveEnded None\<rparr>)
      | _ \<Rightarrow> s)"
| "socket_step i Release s =
     (case ss_handler s of Done r \<Rightarrow> s\<lparr>ss_bus := unsubscribe i (ss_bus s)\<rparr> | _ \<Rightarrow> s)"

definition run_socket :: "nat \<Rightarrow> socket_event list \<Rightarrow> session \<Rightarrow> session" where
  "run_socket i evs s = fold (socket_step i) evs s"

section \<open>What the client sees\<close>

definition events_of :: "frame list \<Rightarrow> cluster_event list" where
  "events_of fs = List.map_filter (\<lambda>f. case f of EventFrame e \<Rightarrow> Some e | KeepaliveFrame \<Rightarrow> None) fs"

lemma events_of_simps [simp]:
  "events_of [] = []" "events_of (fs @ gs) = events_of fs @ events_of gs"
  "events_of [EventFrame e] = [e]" "events_of [KeepaliveFrame] = []"
  by (simp_all add: events_of_def map_filter_def)

text \<open>Events of others, which leave the session's subscription alone, and their calls.\<close>

fun foreign :: "nat \<Rightarrow> socket_event \<Rightarrow> bool" where
  "foreign i (Other c) \<longleftrightarrow> c \<noteq> Next i \<and> keeps_subscription i [c]"
| "foreign i Release = False"
| "foreign i _ = True"

fun other_calls :: "socket_event list \<Rightarrow> bus_call list" where
  "other_calls [] = []"
| "other_calls (Other c # evs) = c # other_calls evs"
| "other_calls (_ # evs) = other_calls evs"

lemma run_bus_append: "run_bus (cs @ ds) b = (fst (run_bus cs b) @ fst (run_bus ds (snd (run_bus cs b))), snd (run_bus ds (snd (run_bus cs b))))"
  by (induction cs arbitrary: b) (simp_all add: Let_def del: do_call.simps)

lemma published_append: "published (cs @ ds) = published cs @ published ds"
  by (induction cs rule: published.induct) simp_all

lemma received_other: "c \<noteq> Next i \<Longrightarrow> received i (fst (do_call c b)) = []"
  by (cases c) (auto simp: received_def split: prod.split option.split)

text \<open>
  The session has made the calls \<open>cs\<close> on the bus \<open>b\<close>; \<open>lost\<close> is the event that it has taken and not, or not yet,
  delivered.
\<close>

definition tracks :: "nat \<Rightarrow> event_bus \<Rightarrow> bus_call list \<Rightarrow> cluster_event list \<Rightarrow> session \<Rightarrow> bool" where
  "tracks i b cs lost s \<longleftrightarrow> ss_bus s = snd (run_bus cs b) \<and> keeps_subscription i cs
     \<and> received i (fst (run_bus cs b)) = events_of (ss_client s) @ lost \<and> length lost \<le> 1
     \<and> (ss_handler s = Streaming \<longrightarrow> lost = []) \<and> (\<forall>e. ss_handler s = Sending e \<longrightarrow> lost = [e])
     \<and> (\<forall>r. ss_handler s = Done r \<longrightarrow> (\<exists>k. ss_keepalive s = KeepaliveEnded k \<and> (k \<noteq> None \<longrightarrow> r = k)))"

lemma tracks_call:
  assumes "tracks i b cs lost s" "keeps_subscription i [c]"
  shows "snd (run_bus (cs @ [c]) b) = snd (do_call c (ss_bus s))" "keeps_subscription i (cs @ [c])"
    "received i (fst (run_bus (cs @ [c]) b)) = events_of (ss_client s) @ lost @ received i (fst (do_call c (ss_bus s)))"
  using assms by (auto simp: tracks_def run_bus_append keeps_subscription_def Let_def simp del: do_call.simps)

lemma tracks_step:
  assumes t: "tracks i b cs lost s" and "foreign i ev"
  shows "\<exists>ds lost'. tracks i b (cs @ ds) lost' (socket_step i ev s) \<and> published ds = published (other_calls [ev])"
proof (cases ev)
  case (Other c)
  with assms(2) have c: "keeps_subscription i [c]" "c \<noteq> Next i" by simp_all
  from tracks_call [OF t c(1)] have "tracks i b (cs @ [c]) lost (socket_step i ev s)"
    using t received_other [OF c(2)] by (simp add: Other tracks_def del: do_call.simps)
  then show ?thesis using Other by (intro exI [of _ "[c]"] exI [of _ lost]) simp
next
  case Fetch
  show ?thesis
  proof (cases "ss_handler s = Streaming")
    case True
    then have lost: "lost = []" using t by (simp add: tracks_def)
    have "keeps_subscription i [Next i]" by (simp add: keeps_subscription_def)
    note n = tracks_call [OF t this]
    show ?thesis
    proof (cases "next_event i (ss_bus s)")
      case (Pair r b1)
      then have "tracks i b (cs @ [Next i]) (case r of None \<Rightarrow> [] | Some e \<Rightarrow> [e]) (socket_step i ev s)"
        using n t True lost by (cases r) (simp_all add: Fetch tracks_def received_def)
      then show ?thesis using Fetch by (intro exI [of _ "[Next i]"] exI) simp
    qed
  next
    case False
    then show ?thesis using t Fetch by (intro exI [of _ "[]"] exI [of _ lost]) simp
  qed
next
  case SendOk
  obtain l where "tracks i b cs l (socket_step i ev s)"
    using t that unfolding SendOk by (cases "ss_handler s") (auto simp: tracks_def)
  then show ?thesis unfolding SendOk by (intro exI [of _ "[]"] exI [of _ l]) (simp del: socket_step.simps)
qed (use assms in \<open>auto simp: tracks_def intro!: exI [of _ "[]"] exI [of _ lost] split: handler.split keepalive.split option.split\<close>)

lemma tracks_run:
  assumes "tracks i b cs lost s" "list_all (foreign i) evs"
  shows "\<exists>ds lost'. tracks i b (cs @ ds) lost' (run_socket i evs s) \<and> published ds = published (other_calls evs)"
  using assms
proof (induction evs arbitrary: s cs lost)
  case Nil
  then show ?case by (intro exI [of _ "[]"] exI [of _ lost]) (simp add: run_socket_def)
next
  case (Cons ev evs)
  have "foreign i ev" using Cons.prems(2) by simp
  from tracks_step [OF Cons.prems(1) this] obtain ds lost1 where
    d: "tracks i b (cs @ ds) lost1 (socket_step i ev s)" "published ds = published (other_calls [ev])" by blast
  from Cons.IH [OF d(1)] Cons.prems(2) obtain es lost2 where
    e: "tracks i b ((cs @ ds) @ es) lost2 (run_socket i evs (socket_step i ev s))" "published es = published (other_calls evs)"
    by auto
  have "published (other_calls (ev # evs)) = published (other_calls [ev]) @ published (other_calls evs)"
    by (cases ev) (simp_all add: published_Cons [of _ "other_calls evs"])
  with d(2) e show ?case
    by (intro exI [of _ "ds @ es"] exI [of _ lost2]) (simp add: run_socket_def published_append)
qed

text \<open>
  C23. A web socket streams the bus faithfully: whatever the senders do, the events its client has got, then at most
  one that the endpoint holds or failed to send, then those that wait in the subscription are in order
  among the replayed and the published ones.  As long as at most 1000 were published meanwhile they are all of
  them; beyond that the bus drops the events that find the subscription full.  Once
  the endpoint is over its keepalive task is too; if that task was the one that noticed the failure, the
  endpoint ends with its exception, even for a client that only disconnected.
\<close>
theorem socket_stream:
  assumes "list_all (foreign i) evs"
  shows "let s = run_socket i evs (open_socket i (snd (run_bus before (new_bus n))));
             sent = last_n n (published before) @ published (other_calls evs)
    in \<exists>sb lost. sub_of i (ss_bus s) = Some sb \<and> length lost \<le> 1
       \<and> subseq (events_of (ss_client s) @ lost @ pending sb) sent
       \<and> (length (published (other_calls evs)) \<le> queue_maxsize \<longrightarrow> events_of (ss_client s) @ lost @ pending sb = sent)
       \<and> (\<forall>r. ss_handler s = Done r \<longrightarrow> (\<exists>k. ss_keepalive s = KeepaliveEnded k \<and> (k \<noteq> None \<longrightarrow> r = k)))"
proof -
  let ?b = "subscribe i True (snd (run_bus before (new_bus n)))"
  let ?s = "run_socket i evs (open_socket i (snd (run_bus before (new_bus n))))"
  have "tracks i ?b [] [] (open_socket i (snd (run_bus before (new_bus n))))"
    by (simp add: tracks_def open_socket_def keeps_subscription_def received_def)
  from tracks_run [OF this assms] obtain cs lost where
    t: "tracks i ?b cs lost ?s" "published cs = published (other_calls evs)" by auto
  have sub: "sub_of i ?b = Some \<lparr>sb_history = last_n n (published before), sb_queue = []\<rparr>"
    by (simp add: run_bus_replay new_bus_def last_n_def)
  have "keeps_subscription i cs" using t(1) by (simp add: tracks_def)
  from delivery [OF sub this] t show ?thesis by (simp add: tracks_def pending_def Let_def) metis
qed

text \<open>
  One event before the socket opens; the client goes away, the keepalive notices, then the next event does: the
  endpoint raises \<open>WebSocketDisconnect\<close>.
\<close>

definition demo_gone :: "socket_event list" where
  "demo_gone = [Fetch, SendOk, KeepaliveOk, KeepaliveFails Disconnect, Other (Publish (demo_event ''b'')), Fetch,
     SendFails Disconnect, Cleanup]"

theorem socket_stream_witness:
  "let s = run_socket 1 demo_gone (open_socket 1 (snd (run_bus [Publish (demo_event ''a'')] (new_bus 10))))
   in ss_client s = [EventFrame (demo_event ''a''), KeepaliveFrame] \<and> ss_handler s = Done (Some Disconnect)
     \<and> (\<exists>sb lost. sub_of 1 (ss_bus s) = Some sb
         \<and> events_of (ss_client s) @ lost @ pending sb = [demo_event ''a'', demo_event ''b''])"
proof -
  let ?s = "run_socket 1 demo_gone (open_socket 1 (snd (run_bus [Publish (demo_event ''a'')] (new_bus 10))))"
  have f: "list_all (foreign 1) demo_gone" by (simp add: demo_gone_def keeps_subscription_def)
  have pub: "published (other_calls demo_gone) = [demo_event ''b'']" "last_n 10 [demo_event ''a''] = [demo_event ''a'']"
    by (simp_all add: demo_gone_def last_n_def)
  have "ss_client ?s = [EventFrame (demo_event ''a''), KeepaliveFrame]" "ss_handler ?s = Done (Some Disconnect)"
    by code_simp+
  moreover have "length (published (other_calls demo_gone)) \<le> queue_maxsize" by (simp add: pub queue_maxsize_def)
  ultimately show ?thesis
    using socket_stream [OF f, of "[Publish (demo_event ''a'')]" 10] by (simp add: Let_def pub) metis
qed

end
