(* ===== verification/Spec2Isabelle.thy ===== *)
theory Spec2Isabelle
  imports Broker_Spec Broker_Exclusive Store_Props Locks_Props Envelope Node_Done Sample Process Monitor Socket
begin

text \<open>
  A verification development for the Distributed Task Runner, a Python program in which a scheduler
  queues tasks, hands them to workers over gRPC, tracks leases and retries, stores what happens in SQLite
  and reports it over HTTP.  The names of definitions are those of the source where HOL allows it.

  \<^bold>\<open>The program and its theories\<close>

    \<^item> \<^bold>\<open>Shared vocabulary.\<close>  \<open>Prelude\<close>: Python dictionaries as association lists in insertion order,
      clocks, calls that may raise.  \<open>Text\<close>: string methods, decimal texts.  \<open>HeapQ\<close>: CPython's
      \<open>heapq\<close>, with the heap invariant and the multiset of every operation.  \<open>Json\<close>,
      \<open>Json_Roundtrip\<close>: \<open>json.dumps\<close> and \<open>json.loads\<close>.
    \<^item> \<^bold>\<open>Data\<close> (\<open>shared/models.py\<close>).  \<open>Models\<close>: the enumerations, dataclasses and their methods.
      \<open>Envelope\<close>: \<open>TaskEnvelope.from_dict\<close> with the conversions it applies to whatever values it meets.
    \<^item> \<^bold>\<open>Queue\<close> (\<open>queue/broker.py\<close>).  \<open>Broker\<close>: the methods of \<open>InMemoryTaskQueue\<close> on an object table, so
      that aliasing between its dictionaries is visible; \<open>Broker_Inv\<close>, \<open>Broker_Reserve\<close>, \<open>Broker_Steps\<close>:
      its invariant, the exact effect of a poll and of a requeue pass, the step relation \<open>broker_step\<close>;
      \<open>Broker_Props\<close>, \<open>Broker_Leases\<close>: its properties; \<open>Broker_Exclusive\<close>: how often a task is queued,
      what makes its lease exclusive, and what late reports do; \<open>Broker_Spec\<close>: the abstract board it refines.
    \<^item> \<^bold>\<open>Store, events, locks, settings\<close> (\<open>database/store.py\<close>, \<open>shared/events.py\<close>, \<open>shared/locks.py\<close>,
      \<open>shared/config.py\<close>).  \<open>Store\<close>, \<open>Events\<close>, \<open>Locks\<close>, \<open>Config\<close> and the \<open>_Props\<close> theories beside them.
    \<^item> \<^bold>\<open>Scheduler\<close> (\<open>scheduler/engine.py\<close>).  \<open>Engine\<close>: the handlers; \<open>Engine_Services\<close>: background
      passes and reports; \<open>Engine_Inv\<close>, \<open>Engine_Steps\<close>: the invariant and \<open>engine_step\<close>, every handler,
      pass and thread in any order; \<open>Engine_Frame\<close>: what all handlers leave alone; \<open>Engine_Submit\<close>,
      \<open>Engine_Reports\<close>, \<open>Engine_Gate\<close>, \<open>Engine_Fleet\<close>: what submitting, reporting, dispatching and reaping
      amount to; \<open>Engine_Loops\<close>: the background loops and how they end; \<open>Engine_Known\<close>: no task is forgotten.
    \<^item> \<^bold>\<open>gRPC\<close> (\<open>grpc/codec.py\<close>, \<open>grpc/server.py\<close>, \<open>grpc/client.py\<close>, \<open>taskrunner.proto\<close> and the generated
      \<open>taskrunner_pb2_grpc.py\<close>).  \<open>Codec\<close>, \<open>Codec_Props\<close>: the translations and what survives them; \<open>Rpc\<close>: the
      service on the engine and the client on an abstract transport, and the two together, where the client's
      error names the exception behind it; \<open>Stubs\<close>: the generated stub, service class and registration
      between them, on a grpc library that shows the client an error of its own instead.
    \<^item> \<^bold>\<open>Worker\<close> (\<open>workers/*.py\<close>).  \<open>Ipc\<close>: channels and shared counters at the level of bytes; \<open>Executor\<close>:
      loading and running a task; \<open>Worker\<close>, \<open>Worker_Props\<close>: consumers, heartbeat and shutdown as steps of
      one event loop; \<open>Node\<close>: a worker and a scheduler as one system, with the answers on their way between
      them; \<open>Node_Tasks\<close>: what may reach a worker; \<open>Node_Work\<close>, \<open>Node_Done\<close>: that the best waiting task
      reaches it, is executed and completes.
    \<^item> \<^bold>\<open>Jobs\<close> (\<open>sample_tasks/*.py\<close>).  \<open>Sample\<close>: the three jobs as user code, and what is reported of them.
    \<^item> \<^bold>\<open>Around them\<close> (\<open>cli/main.py\<close>, \<open>api/app.py\<close>, \<open>monitoring/metrics.py\<close>, \<open>scheduler/service.py\<close>,
      \<open>shared/logging.py\<close>).  \<open>Cli\<close>: the commands over gRPC; \<open>App\<close>: the HTTP endpoints; \<open>Monitor\<close>: the commands over
      HTTP, down to these endpoints; \<open>Socket\<close>: the session of a web socket; \<open>Service\<close>: log records;
      \<open>Process\<close>: the scheduler process with its two servers and its ends, by a signal or by an exit of uvicorn.  \<open>Cluster\<close>: a consumer that polls the scheduler
      through client, transport and service.

  \<^bold>\<open>How it is modelled\<close>

    \<^item> A shared object lives at an address of an object table; a dictionary of objects maps keys to
      addresses.  A method is a function from the state to a result and the new state; an exception is
      \<open>Inl\<close>, beside the state it leaves, because Python keeps what was done before a \<open>raise\<close>.
    \<^item> \<open>time()\<close>, \<open>uuid4()\<close>, the iteration order of sets and map fields, the scan order of SQLite, user code
      and what a transport answers are inputs, over which the theorems quantify.
    \<^item> One event loop runs its coroutines from await to await, so each such piece is a step.  The queue is
      also used by threads: a handler that touches it more than once has \<open>gap\<close>s in which any polls and
      requeue passes may happen; the locale \<open>interference\<close> states what they leave alone.
    \<^item> Waiting is a list of turns (\<open>reserve\<close>) or an event that has not come yet (\<open>Worker\<close>); that \<open>reserve\<close>
      returns is a theorem of its own.  The only fuel is that of the JSON reader: two units per character
      of the text and two more, never exhausted (\<open>loads_total\<close>).
    \<^item> A cancellation reaches a body that runs in a pool at once; a coroutine decides itself what it makes of it,
      as it decides what awaiting it gives: both are part of the user code (\<open>Awaitable\<close>).
    \<^item> Integers are unbounded as in Python, 64 bits wide where SQLite binds them (an \<open>OverflowError\<close>
      otherwise), \<open>32 word\<close> in a message (a \<open>ValueError\<close>), \<open>64 word\<close> in the shared counters.  Floats are
      reals: no rounding, infinities or NaN.  Strings hold the code points below 256.
    \<^item> The interfaces are locales interpreted on the code's models: \<open>keyed_table\<close> (upserts into a table by
      its primary key), \<open>interference\<close> (what a handler may rely on while threads run), \<open>json_text\<close> (what the
      codec needs of JSON), \<open>engine_frame\<close> and \<open>engine_frame_reports\<close> (a component of the scheduler that handlers
      leave alone), \<open>task_source\<close> (what a worker may rely on of its transport).

  \<^bold>\<open>What is shown\<close>

    \<^item> Queue: consistency of all its dictionaries and heaps under any interleaving, refinement of the abstract
      board by every method and answer, no lost tasks, best-first dispatch, exclusive leases while only running tasks are retried,
      exact retries, requeues, admission and snapshots.
    \<^item> Scheduler: consistency under handlers, passes and threads; the outcomes of submitting, batches and
      reporting, the failing ones included; dependencies are respected; the reaper and the autoscaler.
    \<^item> Store, events, locks, settings: rows are what their writes amount to; replay windows and loss-free
      streams; mutual exclusion; the environment.
    \<^item> Wire and data: round trips of specifications, results, envelopes, counters and JSON; decoding is safe
      on every message; a remote submission and a remote report refine the local ones; a stub's call runs the service's method.
    \<^item> Worker: slots and heartbeats agree and respect the capacity; what reaches a node has its dependencies
      completed, whatever is lost on the way; a waiting task that a node could run gets done.
    \<^item> Process and interfaces: services run once and the process ends as its servers did or exited; the monitoring
      commands show the scheduler's state; a web socket delivers events in order.
    \<^item> Where the code does not do what it means to, the theorem states what it does: a late success runs
      again; a cancelled task that is retried is stuck for good; a failed batch or write leaves tasks queued; the
      reaper forges a heartbeat; priority 0 becomes 100 on the wire; a task beyond 32 bits is dispatched,
      cannot be sent and costs its worker a consumer; any failed call costs one; a shutdown drops all running
      tasks but coroutines that catch their cancellation; coroutines of kind \<open>io\<close> never run, count as
      succeeded and cost a consumer; the shared running counter never returns to zero; a failure
      reported late lets two workers run its task at once; one task beyond 64 bits ends the lease reaper; a failed gRPC
      server goes unnoticed; an id with \<open>#\<close> or \<open>/\<close> asks for other logs.

  \<^bold>\<open>Not modelled\<close>

    \<^item> grpc, protobuf, urllib's connections, FastAPI, starlette, typer, uvicorn and SQLite themselves; what the
      code relies on is a parameter with its documented behaviour (\<open>protobuf_ok\<close>, \<open>grpc_ok\<close>,
      \<open>server_env_ok\<close>), an event that may come at any time, or the effect of a statement.  Of
      \<open>taskrunner_pb2.py\<close> nothing is left to model: it is one serialised descriptor.
    \<^item> \<open>socket_healthcheck\<close>, the registration of signal handlers and the output stream of the log: input and
      output without logic.
    \<^item> In \<open>Node\<close> a reservation takes effect in one step, with its last poll: the waiting before it is the
      steps of the scheduler around it.
    \<^item> JSON: texts nested more than 500 times (Python's limit depends on its stack), characters beyond 255, NaN
      and infinities are reported as \<open>NotModelled\<close>; the limit of 4300 digits of an integer is modelled where
      texts are read, not where they are written.  Of the deep copies that \<open>asdict\<close> makes only the \<open>TypeError\<close> for
      a coroutine is modelled.  \<open>str.upper\<close> and the digits of \<open>int\<close> are those of ASCII.
    \<^item> Task code after a cancellation: a thread or process goes on running, but nothing it does reaches
      the runtime any more.
\<close>

end
